(* ===== verification/Prelude.thy ===== *)
theory Prelude
  imports Main "HOL-Library.Word" "HOL-Library.Signed_Division" "HOL-Library.Multiset"
begin

text \<open>
  What every component shares: pointers that may be NULL, the faults a C program can run
  into, the sequencing of operations that may fault, uninitialised memory, and list lemmas
  about loops that fill an array index by index.
\<close>

section \<open>Pointers, faults and sequencing\<close>

text \<open>
  A \<open>void*\<close> is either NULL or refers to something. Integers stored in a \<open>void*\<close>
  (\<open>(void*)(long)i\<close>) are the pointer NULL exactly when the integer is 0.
\<close>

type_synonym 'a ptr = "'a option"

definition void_of_int :: "int \<Rightarrow> int ptr" where
  "void_of_int i = (if i = 0 then None else Some i)"

fun int_of_void :: "int ptr \<Rightarrow> int" where
  "int_of_void None = 0"
| "int_of_void (Some i) = i"

text \<open>
  Where the C program has no defined behaviour or stops, the model returns the reason:
  a NULL pointer is dereferenced, a pointer to freed or never initialised memory is used,
  an array is indexed outside its bounds, an assertion fails, or a loop does not end.
\<close>

datatype fault = NullDeref | WildDeref | OutOfBounds | AssertFail | NoReturn

type_synonym 'a outcome = "fault + 'a"

fun bindE :: "'a outcome \<Rightarrow> ('a \<Rightarrow> 'b outcome) \<Rightarrow> 'b outcome" where
  "bindE (Inl e) f = Inl e"
| "bindE (Inr x) f = f x"

fun returns :: "'a outcome \<Rightarrow> bool" where
  "returns (Inl e) = False"
| "returns (Inr x) = True"

definition assertE :: "bool \<Rightarrow> unit outcome" where
  "assertE b = (if b then Inr () else Inl AssertFail)"

fun foldE :: "('a \<Rightarrow> 's \<Rightarrow> 's outcome) \<Rightarrow> 'a list \<Rightarrow> 's \<Rightarrow> 's outcome" where
  "foldE f [] s = Inr s"
| "foldE f (x # xs) s = bindE (f x s) (foldE f xs)"

text \<open>Freshly allocated memory: \<open>n\<close> cells about whose contents nothing is known.\<close>

definition malloc_cells :: "nat \<Rightarrow> 'a list" where
  "malloc_cells n = map (undefined :: nat \<Rightarrow> 'a) [0..<n]"

text \<open>An array access: the index is an \<open>int\<close> and nothing checks it.\<close>

definition cell :: "'b list \<Rightarrow> int \<Rightarrow> 'b outcome" where
  "cell xs i = (if 0 \<le> i \<and> i < int (length xs) then Inr (xs ! nat i) else Inl OutOfBounds)"

definition set_cell :: "'b list \<Rightarrow> int \<Rightarrow> 'b \<Rightarrow> 'b list outcome" where
  "set_cell xs i v = (if 0 \<le> i \<and> i < int (length xs) then Inr (xs[nat i := v]) else Inl OutOfBounds)"

named_theorems outcome_simps
named_theorems queue_simps

lemma void_int_inverse [simp]: "int_of_void (void_of_int i) = i"
  by (simp add: void_of_int_def)

lemma int_void_inverse [simp]: "p \<noteq> Some 0 \<Longrightarrow> void_of_int (int_of_void p) = p"
  by (cases p) (auto simp: void_of_int_def)

lemma void_of_int_inj [simp]: "void_of_int i = void_of_int j \<longleftrightarrow> i = j"
  by (metis void_int_inverse)

lemma length_malloc_cells [simp]: "length (malloc_cells n) = n"
  by (simp add: malloc_cells_def)

lemma bindE_Inr_iff [outcome_simps]:
  "bindE m f = Inr y \<longleftrightarrow> (\<exists>x. m = Inr x \<and> f x = Inr y)"
  by (cases m) auto

lemma bindE_Inl_iff [outcome_simps]:
  "bindE m f = Inl e \<longleftrightarrow> m = Inl e \<or> (\<exists>x. m = Inr x \<and> f x = Inl e)"
  by (cases m) auto

lemma bindE_assoc: "bindE (bindE m f) g = bindE m (\<lambda>x. bindE (f x) g)"
  by (cases m) auto

lemma bindE_ret [simp]: "bindE m Inr = m"
  by (cases m) auto

lemma assertE_True [simp]: "assertE True = Inr ()"
  by (simp add: assertE_def)

lemma assertE_False [simp]: "assertE False = Inl AssertFail"
  by (simp add: assertE_def)

lemma assertE_Inr [outcome_simps]: "assertE b = Inr u \<longleftrightarrow> b"
  by (simp add: assertE_def)

lemma returns_iff: "returns m \<longleftrightarrow> (\<exists>x. m = Inr x)"
  by (cases m) auto

lemma bindE_cong [cong]: "m = m' \<Longrightarrow> (\<And>x. m' = Inr x \<Longrightarrow> f x = g x) \<Longrightarrow> bindE m f = bindE m' g"
  by (cases m') auto

lemma foldE_cong [fundef_cong]:
  "s = t \<Longrightarrow> xs = ys \<Longrightarrow> (\<And>x u. x \<in> set xs \<Longrightarrow> f x u = g x u) \<Longrightarrow> foldE f xs s = foldE g ys t"
proof (induction xs arbitrary: ys s t)
  case Nil
  then show ?case by simp
next
  case (Cons x xs)
  then show ?case by (cases "g x t") auto
qed

lemma foldE_append: "foldE f (xs @ ys) s = bindE (foldE f xs s) (foldE f ys)"
proof (induction xs arbitrary: s)
  case Nil
  then show ?case by simp
next
  case (Cons x xs)
  then show ?case by (cases "f x s") auto
qed

lemma foldE_Inr: "foldE (\<lambda>x s. Inr (f x s)) xs s = Inr (fold f xs s)"
  by (induction xs arbitrary: s) auto

lemma foldE_invariant:
  assumes "P s" and "foldE f xs s = Inr t"
    and "\<And>x u v. x \<in> set xs \<Longrightarrow> P u \<Longrightarrow> f x u = Inr v \<Longrightarrow> P v"
  shows "P t"
  using assms
proof (induction xs arbitrary: s)
  case Nil
  then show ?case by simp
next
  case (Cons x xs)
  then obtain u where u: "f x s = Inr u" "foldE f xs u = Inr t"
    by (auto simp: outcome_simps)
  show ?case
    by (rule Cons.IH [OF _ u(2)]) (use Cons.prems u(1) in auto)
qed

section \<open>Loops over an array\<close>

text \<open>\<open>for (i = 0; i < n; i++) a[i] = f(i);\<close> writes \<open>f\<close> over the first \<open>n\<close> cells.\<close>

lemma fold_fill:
  "n \<le> length xs \<Longrightarrow> fold (\<lambda>i a. a[i := f i]) [0..<n] xs = map f [0..<n] @ drop n xs"
proof (induction n)
  case 0
  then show ?case by simp
next
  case (Suc n)
  have "drop n xs = xs ! n # drop (Suc n) xs"
    using Suc.prems by (simp add: Cons_nth_drop_Suc)
  with Suc show ?case
    by (simp add: list_update_append)
qed

lemma mod_add_small:
  fixes n :: nat
  assumes "i < n" "r < n"
  shows "(i + r) mod n = (if i + r < n then i + r else i + r - n)"
  using assms by (simp add: le_mod_geq)

lemma mod_shift_eq:
  fixes n :: nat
  assumes "i < n" "j < n" "(i + t) mod n = (j + t) mod n"
  shows "i = j"
proof -
  have r: "t mod n < n"
    using assms(1) by simp
  have "(i + t mod n) mod n = (j + t mod n) mod n"
    using assms(3) by (simp add: mod_add_right_eq)
  then show ?thesis
    using assms(1,2) r by (auto simp only: mod_add_small split: if_splits)
qed

lemma mod_shift_neq:
  fixes n :: nat
  shows "i < n \<Longrightarrow> j < n \<Longrightarrow> i \<noteq> j \<Longrightarrow> (i + t) mod n \<noteq> (j + t) mod n"
  using mod_shift_eq by blast

lemma map_upt_cong: "(\<And>i. i < n \<Longrightarrow> f i = g i) \<Longrightarrow> map f [0..<n] = map g [0..<n]"
  by simp

text \<open>The first position at which a predicate holds, as a search loop computes it.\<close>

fun first_index :: "('a \<Rightarrow> bool) \<Rightarrow> 'a list \<Rightarrow> nat option" where
  "first_index P [] = None"
| "first_index P (x # xs) = (if P x then Some 0 else map_option Suc (first_index P xs))"

lemma first_index_None: "first_index P xs = None \<longleftrightarrow> (\<forall>x \<in> set xs. \<not> P x)"
  by (induction xs) auto

lemma first_index_Some:
  "first_index P xs = Some i \<Longrightarrow> i < length xs \<and> P (xs ! i) \<and> (\<forall>j < i. \<not> P (xs ! j))"
proof (induction xs arbitrary: i)
  case Nil
  then show ?case by simp
next
  case (Cons x xs)
  show ?case
  proof (cases "P x")
    case True
    with Cons.prems show ?thesis by auto
  next
    case False
    with Cons.prems obtain k where k: "first_index P xs = Some k" "i = Suc k"
      by auto
    show ?thesis
    proof (intro conjI allI impI)
      show "i < length (x # xs)" "P ((x # xs) ! i)"
        using Cons.IH [OF k(1)] k(2) by auto
    next
      fix j assume "j < i"
      then show "\<not> P ((x # xs) ! j)"
        using Cons.IH [OF k(1)] k(2) False by (cases j) auto
    qed
  qed
qed

lemma first_index_eq:
  "i < length xs \<Longrightarrow> P (xs ! i) \<Longrightarrow> (\<And>j. j < i \<Longrightarrow> \<not> P (xs ! j)) \<Longrightarrow> first_index P xs = Some i"
proof (induction xs arbitrary: i)
  case Nil
  then show ?case by simp
next
  case (Cons x xs)
  show ?case
  proof (cases i)
    case 0
    with Cons.prems show ?thesis by simp
  next
    case (Suc k)
    with Cons.prems(3) [of 0] have "\<not> P x" by simp
    moreover have "first_index P xs = Some k"
    proof (rule Cons.IH)
      show "k < length xs" "P (xs ! k)" using Cons.prems(1,2) Suc by auto
      show "\<not> P (xs ! j)" if "j < k" for j
        using Cons.prems(3) [of "Suc j"] Suc that by simp
    qed
    ultimately show ?thesis using Suc by simp
  qed
qed

text \<open>Removing and replacing the first element that satisfies a predicate.\<close>

fun remove_first :: "('a \<Rightarrow> bool) \<Rightarrow> 'a list \<Rightarrow> 'a list" where
  "remove_first P [] = []"
| "remove_first P (x # xs) = (if P x then xs else x # remove_first P xs)"

fun update_first :: "('a \<Rightarrow> bool) \<Rightarrow> ('a \<Rightarrow> 'a) \<Rightarrow> 'a list \<Rightarrow> 'a list" where
  "update_first P g [] = []"
| "update_first P g (x # xs) = (if P x then g x # xs else x # update_first P g xs)"

lemma remove_first_index:
  "first_index P xs = Some i \<Longrightarrow> remove_first P xs = take i xs @ drop (Suc i) xs"
  by (induction xs arbitrary: i) (auto split: if_splits)

lemma remove_first_none [simp]: "\<forall>x \<in> set xs. \<not> P x \<Longrightarrow> remove_first P xs = xs"
  by (induction xs) auto

lemma update_first_none [simp]: "\<forall>x \<in> set xs. \<not> P x \<Longrightarrow> update_first P g xs = xs"
  by (induction xs) auto

lemma remove_first_append:
  "\<forall>x \<in> set xs. \<not> P x \<Longrightarrow> remove_first P (xs @ ys) = xs @ remove_first P ys"
  by (induction xs) auto

lemma set_remove_first_subset: "set (remove_first P xs) \<subseteq> set xs"
  by (induction xs) auto

lemma find_first_index: "find P xs = map_option (\<lambda>i. xs ! i) (first_index P xs)"
  by (induction xs) (auto simp: option.map_comp o_def split: option.splits)

lemma find_Some_in: "find P xs = Some x \<Longrightarrow> x \<in> set xs \<and> P x"
  by (induction xs) (auto split: if_splits)

lemma find_None_all: "find P xs = None \<longleftrightarrow> (\<forall>x \<in> set xs. \<not> P x)"
  by (induction xs) auto

lemma find_append: "find P (xs @ ys) = (case find P xs of None \<Rightarrow> find P ys | Some x \<Rightarrow> Some x)"
  by (induction xs) auto

lemma length_remove_first:
  "x \<in> set xs \<Longrightarrow> P x \<Longrightarrow> length (remove_first P xs) = length xs - 1"
proof (induction xs)
  case Nil
  then show ?case by simp
next
  case (Cons y ys)
  then show ?case by (cases ys) auto
qed

lemma mset_remove_first:
  "find P xs = Some x \<Longrightarrow> mset (remove_first P xs) = mset xs - {#x#}"
proof (induction xs)
  case Nil
  then show ?case by simp
next
  case (Cons y ys)
  show ?case
  proof (cases "P y")
    case True
    with Cons show ?thesis by simp
  next
    case False
    with Cons have f: "find P ys = Some x" by simp
    then have "x \<in># mset ys" using find_Some_in by fastforce
    moreover have "mset (remove_first P ys) = mset ys - {#x#}" using f by (rule Cons.IH)
    ultimately show ?thesis using False by simp
  qed
qed

lemma remove_first_map:
  "map f (remove_first (\<lambda>x. P (f x)) xs) = remove_first P (map f xs)"
  by (induction xs) auto

lemma distinct_map_remove_first:
  "distinct (map f xs) \<Longrightarrow> distinct (map f (remove_first P xs))"
  using set_remove_first_subset by (induction xs) fastforce+

lemma length_update_first [simp]: "length (update_first P g xs) = length xs"
  by (induction xs) auto

lemma map_update_first:
  "(\<And>x. P x \<Longrightarrow> f (g x) = f x) \<Longrightarrow> map f (update_first P g xs) = map f xs"
  by (induction xs) auto

section \<open>Runs of operations\<close>

text \<open>
  A client calls operations one after the other: of a specification that always answers, of one
  that is silent where the code promises nothing, and of code that may fault.
\<close>

fun run_calls :: "('c \<Rightarrow> 's \<Rightarrow> 'r \<times> 's) \<Rightarrow> 'c list \<Rightarrow> 's \<Rightarrow> 'r list \<times> 's" where
  "run_calls f [] s = ([], s)"
| "run_calls f (c # cs) s = (let (r, s1) = f c s; (rs, s2) = run_calls f cs s1 in (r # rs, s2))"

fun run_spec :: "('c \<Rightarrow> 's \<Rightarrow> ('r \<times> 's) option) \<Rightarrow> 'c list \<Rightarrow> 's \<Rightarrow> ('r list \<times> 's) option" where
  "run_spec f [] s = Some ([], s)"
| "run_spec f (c # cs) s = (case f c s of None \<Rightarrow> None | Some (r, s1) \<Rightarrow>
     (case run_spec f cs s1 of None \<Rightarrow> None | Some (rs, s2) \<Rightarrow> Some (r # rs, s2)))"

fun run_ops :: "('c \<Rightarrow> 's \<Rightarrow> ('r \<times> 's) outcome) \<Rightarrow> 'c list \<Rightarrow> 's \<Rightarrow> ('r list \<times> 's) outcome" where
  "run_ops f [] s = Inr ([], s)"
| "run_ops f (c # cs) s = bindE (f c s) (\<lambda>(r, s1).
     bindE (run_ops f cs s1) (\<lambda>(rs, s2). Inr (r # rs, s2)))"

lemma run_ops_calls:
  assumes "\<And>c s t. R s t \<Longrightarrow> \<exists>s'. f c s = Inr (fst (g c t), s') \<and> R s' (snd (g c t))" and "R s t"
  shows "\<exists>s'. run_ops f cs s = Inr (fst (run_calls g cs t), s') \<and> R s' (snd (run_calls g cs t))"
  using assms(2)
proof (induction cs arbitrary: s t)
  case Nil
  then show ?case by simp
next
  case (Cons c cs)
  obtain s1 where 1: "f c s = Inr (fst (g c t), s1)" "R s1 (snd (g c t))"
    using assms(1) [OF Cons.prems] by blast
  with Cons.IH [OF 1(2)] show ?case by (auto split: prod.splits)
qed

lemma run_ops_spec:
  assumes "\<And>c s t r t'. R s t \<Longrightarrow> g c t = Some (r, t') \<Longrightarrow> \<exists>s'. f c s = Inr (r, s') \<and> R s' t'"
    and "R s t" "run_spec g cs t = Some (rs, t')"
  shows "\<exists>s'. run_ops f cs s = Inr (rs, s') \<and> R s' t'"
  using assms(2,3)
proof (induction cs arbitrary: s t rs)
  case Nil
  then show ?case by auto
next
  case (Cons c cs)
  from Cons.prems(2) obtain r t1 rs1 where
    1: "g c t = Some (r, t1)" "run_spec g cs t1 = Some (rs1, t')" "rs = r # rs1"
    by (auto split: option.splits)
  obtain s1 where "f c s = Inr (r, s1)" "R s1 t1"
    using assms(1) [OF Cons.prems(1) 1(1)] by blast
  with Cons.IH [OF this(2) 1(2)] 1(3) show ?case by auto
qed

lemma run_ops_append: "run_ops f (cs @ ds) s = bindE (run_ops f cs s) (\<lambda>(rs, s).
    bindE (run_ops f ds s) (\<lambda>(rs', s). Inr (rs @ rs', s)))"
proof (induction cs arbitrary: s)
  case Nil
  then show ?case by (cases "run_ops f ds s") auto
next
  case (Cons c cs)
  show ?case
  proof (cases "f c s")
    case (Inr rs)
    obtain r s1 where rs: "rs = (r, s1)" by (cases rs)
    show ?thesis
    proof (cases "run_ops f cs s1")
      case (Inr rs1)
      then show ?thesis using \<open>f c s = Inr rs\<close> rs Cons.IH [of s1]
        by (cases rs1; cases "run_ops f ds (snd rs1)") auto
    qed (use Inr rs Cons.IH [of s1] in simp)
  qed simp
qed

end
