(* ===== verification/CQueue.thy ===== *)
theory CQueue
  imports Prelude
begin

text \<open>
  The packed circular queue of \<open>utility/Queue/Queue.c\<close>. Elements are pushed at
  \<open>head\<close> and popped at \<open>tail\<close>; the array is doubled when it is full. The record
  is the struct \<open>_Queue\<close>; its array is a list of \<open>void*\<close> cells of length
  \<open>space\<close>. \<open>queue_list\<close> reads the stored sequence and every operation is shown
  to act on it as the plain list operation it stands for, for any queue that satisfies the
  invariant \<open>queue_ok\<close>. The locale \<open>fifo\<close> is the interface other components use.
\<close>

section \<open>State\<close>

record 'a queue =
  q_elements :: "'a ptr list"
  q_length :: nat
  q_space :: nat
  q_head :: nat
  q_tail :: nat

definition INITIAL_QUEUE_SPACE :: nat where
  "INITIAL_QUEUE_SPACE = 10"

definition queue_new :: "'a queue" where
  "queue_new = \<lparr>q_elements = malloc_cells INITIAL_QUEUE_SPACE, q_length = 0,
     q_space = INITIAL_QUEUE_SPACE, q_head = 0, q_tail = 0\<rparr>"

definition default_search_function :: "'a ptr \<Rightarrow> 'a ptr \<Rightarrow> bool" where
  "default_search_function elementp keyp = (elementp = keyp)"

definition queue_length :: "'a queue \<Rightarrow> nat" where
  "queue_length q = q_length q"

section \<open>Operations\<close>

text \<open>
  \<open>(i - 1 + tail + space) % space\<close> is written \<open>(i + tail + space - 1) mod space\<close>,
  the same number: \<open>space\<close> is positive, so the sum is.
\<close>

definition queue_shiftleft :: "'a queue \<Rightarrow> nat \<Rightarrow> 'a queue" where
  "queue_shiftleft q index = q\<lparr>q_elements :=
     fold (\<lambda>i e. e[(i + q_tail q + q_space q - 1) mod q_space q :=
                      e ! ((i + q_tail q) mod q_space q)])
       [index..<q_length q] (q_elements q)\<rparr>"

text \<open>\<open>index\<close> may be \<open>-1\<close>: the loop \<open>for (i = index; i >= 0; i--)\<close> is then empty.\<close>

definition queue_shiftright :: "'a queue \<Rightarrow> int \<Rightarrow> 'a queue" where
  "queue_shiftright q index = q\<lparr>q_elements :=
     fold (\<lambda>i e. e[(i + 1 + q_tail q) mod q_space q := e ! ((i + q_tail q) mod q_space q)])
       (rev [0..<nat (index + 1)]) (q_elements q)\<rparr>"

definition queue_grow :: "'a queue \<Rightarrow> 'a queue" where
  "queue_grow q = q\<lparr>q_space := 2 * q_space q,
     q_elements := fold (\<lambda>i ne. ne[i := q_elements q ! ((i + q_tail q) mod q_length q)])
       [0..<q_length q] (malloc_cells (2 * q_space q)),
     q_tail := 0,
     q_head := q_length q\<rparr>"

definition queue_push :: "'a queue \<Rightarrow> 'a ptr \<Rightarrow> 'a queue" where
  "queue_push q elementp =
     (let q1 = (if q_length q = q_space q then queue_grow q else q)
      in q1\<lparr>q_elements := (q_elements q1)[q_head q1 := elementp],
            q_head := (q_head q1 + 1) mod q_space q1,
            q_length := q_length q1 + 1\<rparr>)"

definition queue_spop :: "'a queue \<Rightarrow> 'a ptr \<times> 'a queue" where
  "queue_spop q =
     (if q_length q = 0 then (None, q)
      else let h = (q_head q + q_space q - 1) mod q_space q
           in (q_elements q ! h, q\<lparr>q_length := q_length q - 1, q_head := h\<rparr>))"

definition queue_speek :: "'a queue \<Rightarrow> 'a ptr \<times> 'a queue" where
  "queue_speek q =
     (let (element, q1) = queue_spop q
      in case element of None \<Rightarrow> (None, q1) | Some x \<Rightarrow> (element, queue_push q1 element))"

definition queue_pop :: "'a queue \<Rightarrow> 'a ptr \<times> 'a queue" where
  "queue_pop q =
     (if q_length q = 0 then (None, q)
      else (q_elements q ! q_tail q,
            q\<lparr>q_tail := (q_tail q + 1) mod q_space q, q_length := q_length q - 1\<rparr>))"

text \<open>
  An index is an \<open>int\<close> and \<open>%\<close> keeps the sign of the dividend: a negative
  remainder indexes the array out of its bounds.
\<close>

definition queue_cell :: "'a queue \<Rightarrow> int \<Rightarrow> nat outcome" where
  "queue_cell q index =
     (let k = (index + int (q_tail q)) smod int (q_space q)
      in if k < 0 then Inl OutOfBounds else Inr (nat k))"

definition queue_get :: "'a queue \<Rightarrow> int \<Rightarrow> 'a ptr outcome" where
  "queue_get q index = bindE (queue_cell q index) (\<lambda>k. Inr (q_elements q ! k))"

definition queue_set :: "'a queue \<Rightarrow> 'a ptr \<Rightarrow> int \<Rightarrow> 'a queue outcome" where
  "queue_set q element index =
     bindE (queue_cell q index) (\<lambda>k. Inr (q\<lparr>q_elements := (q_elements q)[k := element]\<rparr>))"

definition queue_swap :: "'a queue \<Rightarrow> int \<Rightarrow> int \<Rightarrow> 'a queue outcome" where
  "queue_swap q i j =
     bindE (queue_get q i) (\<lambda>tmp.
     bindE (queue_get q j) (\<lambda>ej.
     bindE (queue_set q ej i) (\<lambda>q1. queue_set q1 tmp j)))"

text \<open>
  \<open>rand()\<close> is the library's generator: a step \<open>rnd\<close> on a hidden state that returns
  a nonnegative number. The loop runs \<open>i\<close> from \<open>length - 1\<close> down to 1.
\<close>

fun shuffle_loop :: "('s \<Rightarrow> nat \<times> 's) \<Rightarrow> nat \<Rightarrow> 'a queue \<times> 's \<Rightarrow> ('a queue \<times> 's) outcome" where
  "shuffle_loop rnd 0 (q, s) = Inr (q, s)"
| "shuffle_loop rnd (Suc i) (q, s) =
     (let (r, s1) = rnd s; j = r mod Suc i
      in bindE (queue_swap q (int (Suc i)) (int j)) (\<lambda>q1. shuffle_loop rnd i (q1, s1)))"

definition queue_shuffle :: "('s \<Rightarrow> nat \<times> 's) \<Rightarrow> 's \<Rightarrow> 'a queue \<Rightarrow> ('a queue \<times> 's) outcome" where
  "queue_shuffle rnd s q = shuffle_loop rnd (queue_length q - 1) (q, s)"

text \<open>The callback of \<open>queue_apply\<close> acts on the caller's state \<open>s\<close>.\<close>

definition queue_apply :: "'a queue \<Rightarrow> ('a ptr \<Rightarrow> 's \<Rightarrow> 's) \<Rightarrow> 's \<Rightarrow> 's" where
  "queue_apply q af s =
     fold (\<lambda>i. af (q_elements q ! ((i + q_tail q) mod q_space q))) [0..<q_length q] s"

definition queue_filter :: "'a queue \<Rightarrow> ('a ptr \<Rightarrow> 'u \<Rightarrow> bool) \<Rightarrow> 'u \<Rightarrow> 'a queue" where
  "queue_filter q flt userData =
     fold (\<lambda>i filtered.
        let element = q_elements q ! ((i + q_tail q) mod q_space q)
        in if flt element userData then queue_push filtered element else filtered)
       [0..<q_length q] queue_new"

definition queue_map :: "'a queue \<Rightarrow> ('a ptr \<Rightarrow> 'b ptr) \<Rightarrow> 'b queue" where
  "queue_map q mapf =
     fold (\<lambda>i mapped. queue_push mapped (mapf (q_elements q ! ((i + q_tail q) mod q_space q))))
       [0..<q_length q] queue_new"

text \<open>The search function is called with the key first and the element second.\<close>

fun qsearchi_from :: "'a queue \<Rightarrow> ('k \<Rightarrow> 'a ptr \<Rightarrow> bool) \<Rightarrow> 'k \<Rightarrow> nat list \<Rightarrow> int" where
  "qsearchi_from q searchfn skeyp [] = -1"
| "qsearchi_from q searchfn skeyp (i # is) =
     (if searchfn skeyp (q_elements q ! ((i + q_tail q) mod q_space q)) then int i
      else qsearchi_from q searchfn skeyp is)"

definition qsearchi :: "'a queue \<Rightarrow> ('k \<Rightarrow> 'a ptr \<Rightarrow> bool) \<Rightarrow> 'k \<Rightarrow> int" where
  "qsearchi q searchfn skeyp = qsearchi_from q searchfn skeyp [0..<q_length q]"

definition queue_search :: "'a queue \<Rightarrow> ('k \<Rightarrow> 'a ptr \<Rightarrow> bool) \<Rightarrow> 'k \<Rightarrow> 'a ptr outcome" where
  "queue_search q sf skeyp =
     (let index = qsearchi q sf skeyp
      in if index = -1 then Inr None else queue_get q index)"

definition queue_remove_sf ::
    "'a queue \<Rightarrow> ('k \<Rightarrow> 'a ptr \<Rightarrow> bool) \<Rightarrow> 'k \<Rightarrow> ('a ptr \<times> 'a queue) outcome" where
  "queue_remove_sf q sf skeyp =
     (let index = qsearchi q sf skeyp
      in if index = -1 then Inr (None, q)
         else bindE (queue_get q index) (\<lambda>element.
           let q1 = (if index > int (q_length q div 2)
                     then (queue_shiftleft q (nat (index + 1)))
                            \<lparr>q_head := (q_head q + q_space q - 1) mod q_space q\<rparr>
                     else (queue_shiftright q (index - 1))
                            \<lparr>q_tail := (q_tail q + 1) mod q_space q\<rparr>)
           in Inr (element, q1\<lparr>q_length := q_length q - 1\<rparr>)))"

definition queue_remove ::
    "'a queue \<Rightarrow> ('a ptr \<Rightarrow> 'a ptr \<Rightarrow> bool) option \<Rightarrow> 'a ptr \<Rightarrow> ('a ptr \<times> 'a queue) outcome" where
  "queue_remove q sf skeyp =
     queue_remove_sf q (case sf of None \<Rightarrow> default_search_function | Some f \<Rightarrow> f) skeyp"

lemma queue_pop_length: "queue_pop q = (Some x, q') \<Longrightarrow> q_length q' < q_length q"
  by (auto simp: queue_pop_def split: if_splits)

function queue_concat :: "'a queue \<Rightarrow> 'a queue \<Rightarrow> 'a queue \<times> 'a queue" where
  "queue_concat q1 q2 =
     (case queue_pop q2 of
        (None, q2') \<Rightarrow> (q1, q2')
      | (Some x, q2') \<Rightarrow> queue_concat (queue_push q1 (Some x)) q2')"
  by pat_completeness auto
termination
  by (relation "measure (\<lambda>(q1, q2). q_length q2)") (auto dest: queue_pop_length sym)

declare queue_concat.simps [simp del]

section \<open>Abstraction and invariant\<close>

definition queue_list :: "'a queue \<Rightarrow> 'a ptr list" where
  "queue_list q = map (\<lambda>i. q_elements q ! ((i + q_tail q) mod q_space q)) [0..<q_length q]"

definition queue_ok :: "'a queue \<Rightarrow> bool" where
  "queue_ok q \<longleftrightarrow> 0 < q_space q \<and> length (q_elements q) = q_space q
     \<and> q_length q \<le> q_space q \<and> q_tail q < q_space q
     \<and> q_head q = (q_tail q + q_length q) mod q_space q"

lemma length_queue_list [simp]: "length (queue_list q) = q_length q"
  by (simp add: queue_list_def)

lemma nth_queue_list:
  "i < q_length q \<Longrightarrow> queue_list q ! i = q_elements q ! ((i + q_tail q) mod q_space q)"
  by (simp add: queue_list_def)

lemma queue_list_eqI:
  assumes "q_length q = length xs"
    and "\<And>i. i < length xs \<Longrightarrow> q_elements q ! ((i + q_tail q) mod q_space q) = xs ! i"
  shows "queue_list q = xs"
  by (rule nth_equalityI) (use assms in \<open>auto simp: nth_queue_list\<close>)

lemma queue_length_list: "queue_length q = length (queue_list q)"
  by (simp add: queue_length_def)

lemma queue_new_ok [simp]: "queue_ok queue_new"
  by (simp add: queue_ok_def queue_new_def INITIAL_QUEUE_SPACE_def)

lemma queue_new_list [simp]: "queue_list queue_new = []"
  by (simp add: queue_list_def queue_new_def)


section \<open>Refinement: push, pop, peek\<close>

lemma queue_grow_elements:
  "queue_ok q \<Longrightarrow> q_length q = q_space q \<Longrightarrow>
    q_elements (queue_grow q) = queue_list q @ drop (q_length q) (malloc_cells (2 * q_space q))"
  by (simp add: queue_grow_def fold_fill queue_list_def)

lemma queue_grow_ok:
  assumes "queue_ok q" "q_length q = q_space q"
  shows "queue_ok (queue_grow q)" "queue_list (queue_grow q) = queue_list q"
    "q_length (queue_grow q) < q_space (queue_grow q)"
proof -
  have e: "q_elements (queue_grow q)
      = queue_list q @ drop (q_length q) (malloc_cells (2 * q_space q))"
    using assms by (rule queue_grow_elements)
  show "queue_ok (queue_grow q)"
    using assms e by (auto simp: queue_ok_def) (auto simp: queue_grow_def)
  show "queue_list (queue_grow q) = queue_list q"
    by (rule queue_list_eqI) (use assms e in \<open>auto simp: queue_grow_def nth_append queue_ok_def\<close>)
  show "q_length (queue_grow q) < q_space (queue_grow q)"
    using assms by (simp add: queue_grow_def queue_ok_def)
qed

definition queue_store :: "'a queue \<Rightarrow> 'a ptr \<Rightarrow> 'a queue" where
  "queue_store q x = q\<lparr>q_elements := (q_elements q)[q_head q := x],
     q_head := (q_head q + 1) mod q_space q, q_length := q_length q + 1\<rparr>"

lemma queue_push_store:
  "queue_push q x = queue_store (if q_length q = q_space q then queue_grow q else q) x"
  by (simp add: queue_push_def queue_store_def Let_def)

lemma queue_store_ok:
  assumes "queue_ok q" "q_length q < q_space q"
  shows "queue_ok (queue_store q x)" "queue_list (queue_store q x) = queue_list q @ [x]"
proof -
  show "queue_ok (queue_store q x)"
    using assms by (auto simp: queue_ok_def queue_store_def mod_simps)
  show "queue_list (queue_store q x) = queue_list q @ [x]"
  proof (rule queue_list_eqI)
    show "q_length (queue_store q x) = length (queue_list q @ [x])"
      by (simp add: queue_store_def)
    fix i assume "i < length (queue_list q @ [x])"
    then have i: "i \<le> q_length q" by simp
    show "q_elements (queue_store q x) ! ((i + q_tail (queue_store q x)) mod q_space (queue_store q x))
        = (queue_list q @ [x]) ! i"
    proof (cases "i = q_length q")
      case True
      with assms show ?thesis
        by (simp add: queue_store_def queue_ok_def nth_append add.commute)
    next
      case False
      with i have "i < q_length q" by simp
      moreover from this have "(i + q_tail q) mod q_space q \<noteq> (q_length q + q_tail q) mod q_space q"
        using assms by (intro mod_shift_neq) auto
      ultimately show ?thesis
        using assms by (simp add: queue_store_def queue_ok_def nth_append nth_queue_list add.commute)
    qed
  qed
qed

lemma queue_push_ok [simp]: "queue_ok q \<Longrightarrow> queue_ok (queue_push q x)"
  using queue_grow_ok [of q] queue_store_ok [of q] queue_store_ok [of "queue_grow q"]
  by (auto simp: queue_push_store queue_ok_def)

lemma queue_push_list [simp]: "queue_ok q \<Longrightarrow> queue_list (queue_push q x) = queue_list q @ [x]"
proof -
  assume ok: "queue_ok q"
  show ?thesis
  proof (cases "q_length q = q_space q")
    case True
    with ok show ?thesis
      using queue_grow_ok [of q] queue_store_ok [of "queue_grow q"] by (simp add: queue_push_store)
  next
    case False
    with ok have "q_length q < q_space q" by (simp add: queue_ok_def)
    with ok False show ?thesis
      using queue_store_ok [of q] by (simp add: queue_push_store)
  qed
qed

lemma queue_fold_push [simp]:
  "queue_ok q \<Longrightarrow> queue_ok (fold (\<lambda>x q. queue_push q x) xs q)
     \<and> queue_list (fold (\<lambda>x q. queue_push q x) xs q) = queue_list q @ xs"
  by (induction xs arbitrary: q) auto

lemma queue_list_Nil: "queue_list q = [] \<longleftrightarrow> q_length q = 0"
  by (simp add: queue_list_def)

lemma queue_pop_ok:
  assumes "queue_ok q" "queue_pop q = (p, q')"
  shows "queue_ok q'"
    "queue_list q = [] \<Longrightarrow> p = None \<and> q' = q"
    "queue_list q \<noteq> [] \<Longrightarrow> queue_list q = p # queue_list q'"
proof -
  show "queue_ok q'"
  proof (cases "q_length q")
    case 0
    with assms show ?thesis by (simp add: queue_pop_def)
  next
    case (Suc l)
    with assms show ?thesis by (auto simp: queue_pop_def queue_ok_def mod_simps)
  qed
  show "queue_list q = [] \<Longrightarrow> p = None \<and> q' = q"
    using assms by (simp add: queue_list_Nil queue_pop_def)
  assume ne: "queue_list q \<noteq> []"
  then have q': "q' = q\<lparr>q_tail := (q_tail q + 1) mod q_space q, q_length := q_length q - 1\<rparr>"
    and p: "p = q_elements q ! q_tail q" and l: "0 < q_length q"
    using assms(2) by (auto simp: queue_pop_def queue_list_Nil)
  show "queue_list q = p # queue_list q'"
  proof (rule queue_list_eqI)
    show "q_length q = length (p # queue_list q')" using q' l by simp
    fix i assume "i < length (p # queue_list q')"
    then show "q_elements q ! ((i + q_tail q) mod q_space q) = (p # queue_list q') ! i"
      using q' p l assms(1)
      by (cases i) (auto simp: nth_queue_list queue_ok_def mod_simps)
  qed
qed

lemma queue_pop_Nil: "queue_list q = [] \<Longrightarrow> queue_pop q = (None, q)"
  by (simp add: queue_list_Nil queue_pop_def)

lemma queue_spop_ok:
  assumes "queue_ok q" "queue_spop q = (p, q')"
  shows "queue_ok q'"
    "queue_list q = [] \<Longrightarrow> p = None \<and> q' = q"
    "queue_list q \<noteq> [] \<Longrightarrow> queue_list q = queue_list q' @ [p]"
proof -
  have h: "(q_head q + q_space q - 1) mod q_space q = (q_tail q + (q_length q - 1)) mod q_space q"
    if "0 < q_length q"
  proof -
    have "(q_head q + q_space q - 1) mod q_space q = (q_head q + (q_space q - 1)) mod q_space q"
      using assms(1) by (simp add: queue_ok_def)
    also have "\<dots> = (q_tail q + q_length q + (q_space q - 1)) mod q_space q"
      using assms(1) mod_add_left_eq [of "q_tail q + q_length q" "q_space q" "q_space q - 1"]
      by (simp add: queue_ok_def)
    also have "q_tail q + q_length q + (q_space q - 1) = q_tail q + (q_length q - 1) + q_space q"
      using assms(1) that by (simp add: queue_ok_def)
    finally show ?thesis by simp
  qed
  show "queue_ok q'"
    using assms h by (auto simp: queue_spop_def queue_ok_def Let_def split: if_splits)
  show "queue_list q = [] \<Longrightarrow> p = None \<and> q' = q"
    using assms by (simp add: queue_list_Nil queue_spop_def)
  assume "queue_list q \<noteq> []"
  then have l: "0 < q_length q" by (simp add: queue_list_Nil)
  with assms h have p: "p = q_elements q ! ((q_tail q + (q_length q - 1)) mod q_space q)"
    and q': "q_elements q' = q_elements q" "q_tail q' = q_tail q" "q_space q' = q_space q"
      "q_length q' = q_length q - 1"
    by (auto simp: queue_spop_def Let_def)
  show "queue_list q = queue_list q' @ [p]"
    by (rule queue_list_eqI) (use p q' l in \<open>auto simp: nth_append nth_queue_list
        less_Suc_eq add.commute dest!: less_antisym\<close>)
qed

lemma queue_speek_ok:
  assumes "queue_ok q" "queue_speek q = (p, q')"
  shows "queue_ok q'"
    "queue_list q' = (if queue_list q \<noteq> [] \<and> p = None then butlast (queue_list q) else queue_list q)"
    "p = (if queue_list q = [] then None else last (queue_list q))"
proof -
  obtain r q1 where r: "queue_spop q = (r, q1)" by force
  note sp = queue_spop_ok [OF assms(1) r]
  from assms(2) r have "p = r" "q' = (case r of None \<Rightarrow> q1 | Some x \<Rightarrow> queue_push q1 r)"
    by (auto simp: queue_speek_def split: option.splits)
  with sp show "queue_ok q'"
    "queue_list q' = (if queue_list q \<noteq> [] \<and> p = None then butlast (queue_list q) else queue_list q)"
    "p = (if queue_list q = [] then None else last (queue_list q))"
    by (cases "queue_list q = []"; auto split: option.splits)+
qed


section \<open>Refinement: indexed access, traversal and search\<close>

lemma smod_nonneg: "0 \<le> a \<Longrightarrow> 0 \<le> b \<Longrightarrow> a smod b = a mod (b :: int)"
  by (cases "a = 0") (auto simp: smod_int_alt_def sgn_if)

lemma mod_nonneg_int: "0 \<le> a \<Longrightarrow> 0 \<le> b \<Longrightarrow> 0 \<le> a mod (b :: int)"
  by (cases "b = 0") auto

lemma queue_cell_nonneg:
  "0 \<le> i \<Longrightarrow> queue_cell q i = Inr ((nat i + q_tail q) mod q_space q)"
  using mod_nonneg_int [of "i + int (q_tail q)" "int (q_space q)"]
  by (simp add: queue_cell_def smod_nonneg Let_def nat_mod_distrib nat_add_distrib)

lemma queue_get_nth [simp]:
  "0 \<le> i \<Longrightarrow> nat i < q_length q \<Longrightarrow> queue_get q i = Inr (queue_list q ! nat i)"
  by (simp add: queue_get_def queue_cell_nonneg nth_queue_list)

lemma queue_set_nth:
  assumes "queue_ok q" "0 \<le> i" "nat i < q_length q"
  shows "\<exists>q'. queue_set q x i = Inr q' \<and> queue_ok q' \<and> queue_list q' = (queue_list q)[nat i := x]"
proof -
  let ?k = "(nat i + q_tail q) mod q_space q"
  let ?q = "q\<lparr>q_elements := (q_elements q)[?k := x]\<rparr>"
  have "queue_ok ?q" using assms(1) by (simp add: queue_ok_def)
  moreover have "queue_list ?q = (queue_list q)[nat i := x]"
  proof (rule queue_list_eqI)
    show "q_length ?q = length ((queue_list q)[nat i := x])" by simp
    fix j assume "j < length ((queue_list q)[nat i := x])"
    then have j: "j < q_length q" by simp
    show "q_elements ?q ! ((j + q_tail ?q) mod q_space ?q) = (queue_list q)[nat i := x] ! j"
    proof (cases "j = nat i")
      case True
      with assms show ?thesis by (simp add: queue_ok_def)
    next
      case False
      have "(j + q_tail q) mod q_space q \<noteq> ?k"
        using j assms False by (intro mod_shift_neq) (auto simp: queue_ok_def)
      with False j show ?thesis by (simp add: nth_queue_list)
    qed
  qed
  ultimately show ?thesis
    using assms(2) by (simp add: queue_set_def queue_cell_nonneg)
qed

lemma fold_upt_map: "fold (\<lambda>i. g (h i)) [0..<n] s = fold g (map h [0..<n]) s"
  by (simp add: fold_map o_def)

lemma queue_apply_list: "queue_apply q af s = fold af (queue_list q) s"
  unfolding queue_apply_def queue_list_def by (rule fold_upt_map)

lemma fold_push_filter:
  "queue_ok f \<Longrightarrow>
    queue_ok (fold (\<lambda>x f. if P x then queue_push f x else f) xs f) \<and>
    queue_list (fold (\<lambda>x f. if P x then queue_push f x else f) xs f) = queue_list f @ filter P xs"
  by (induction xs arbitrary: f) auto

lemma queue_filter_list:
  "queue_ok (queue_filter q flt u) \<and> queue_list (queue_filter q flt u) = filter (\<lambda>x. flt x u) (queue_list q)"
proof -
  have "queue_filter q flt u
      = fold (\<lambda>x f. if flt x u then queue_push f x else f) (queue_list q) queue_new"
    unfolding queue_filter_def queue_list_def Let_def by (rule fold_upt_map)
  then show ?thesis
    using fold_push_filter [OF queue_new_ok, of "\<lambda>x. flt x u" "queue_list q"] by simp
qed

lemma queue_map_list:
  "queue_ok (queue_map q g) \<and> queue_list (queue_map q g) = map g (queue_list q)"
proof -
  have "queue_map q g = fold (\<lambda>x m. queue_push m (g x)) (queue_list q) queue_new"
    unfolding queue_map_def queue_list_def by (rule fold_upt_map)
  also have "\<dots> = fold (\<lambda>x m. queue_push m x) (map g (queue_list q)) queue_new"
    by (simp add: fold_map o_def)
  finally show ?thesis using queue_fold_push [OF queue_new_ok] by simp
qed

lemma qsearchi_from_index:
  "qsearchi_from q sf k [m..<n]
    = (case first_index (sf k) (map (\<lambda>i. q_elements q ! ((i + q_tail q) mod q_space q)) [m..<n])
       of None \<Rightarrow> -1 | Some i \<Rightarrow> int (m + i))"
proof (induction "n - m" arbitrary: m)
  case 0
  then show ?case by simp
next
  case (Suc d)
  then have "m < n" by simp
  then have "[m..<n] = m # [Suc m..<n]" by (simp add: upt_conv_Cons)
  moreover have "d = n - Suc m" using Suc.hyps(2) by simp
  ultimately show ?case
    using Suc.hyps(1) [of "Suc m"] by (simp split: option.splits)
qed

lemma qsearchi_index:
  "qsearchi q sf k = (case first_index (sf k) (queue_list q) of None \<Rightarrow> -1 | Some i \<Rightarrow> int i)"
  using qsearchi_from_index [of q sf k 0 "q_length q"]
  by (simp add: qsearchi_def queue_list_def split: option.splits)

lemma queue_search_list:
  "queue_search q sf k = Inr (case find (sf k) (queue_list q) of None \<Rightarrow> None | Some x \<Rightarrow> x)"
proof (cases "first_index (sf k) (queue_list q)")
  case None
  then show ?thesis
    by (auto simp: queue_search_def qsearchi_index find_first_index)
next
  case (Some i)
  then show ?thesis
    using first_index_Some [OF Some]
    by (simp add: queue_search_def qsearchi_index find_first_index Let_def)
qed

section \<open>Refinement: removal from the middle\<close>

lemma shiftleft_nth:
  assumes "0 < a" "b \<le> n" "length e = n" "0 < n" "j < n"
  shows "fold (\<lambda>i e. e[(i + t + n - 1) mod n := e ! ((i + t) mod n)]) [a..<b] e ! ((j + t) mod n)
    = (if a \<le> Suc j \<and> Suc j < b then e ! ((Suc j + t) mod n) else e ! ((j + t) mod n))"
  using assms(2,5)
proof (induction b arbitrary: j)
  case 0
  then show ?case by simp
next
  case (Suc b)
  let ?f = "\<lambda>i e. e[(i + t + n - 1) mod n := e ! ((i + t) mod n)]"
  let ?e = "fold ?f [a..<b] e"
  have len: "length (fold ?f xs e) = n" for xs
    using assms(3) by (induction xs arbitrary: e) auto
  show ?case
  proof (cases "a \<le> b")
    case False
    then show ?thesis by auto
  next
    case True
    then have step: "fold ?f [a..<Suc b] e = ?e[(b + t + n - 1) mod n := ?e ! ((b + t) mod n)]"
      by simp
    have b: "b < n" "0 < b" using Suc.prems True assms(1) by auto
    have slot: "(b + t + n - 1) mod n = ((b - 1) + t) mod n"
    proof -
      have "b + t + n - 1 = (b - 1) + t + n" using b by simp
      then show ?thesis by simp
    qed
    have cell: "?e ! ((b + t) mod n) = e ! ((b + t) mod n)"
      using Suc.IH [of b] Suc.prems b by simp
    show ?thesis
    proof (cases "j = b - 1")
      case True
      with step slot cell len b \<open>a \<le> b\<close> show ?thesis by simp
    next
      case False
      then have "(j + t) mod n \<noteq> ((b - 1) + t) mod n"
        using Suc.prems b by (intro mod_shift_neq) auto
      then have "fold ?f [a..<Suc b] e ! ((j + t) mod n) = ?e ! ((j + t) mod n)"
        using step slot by simp
      also have "\<dots> = (if a \<le> Suc j \<and> Suc j < b then e ! ((Suc j + t) mod n) else e ! ((j + t) mod n))"
        using Suc.IH [of j] Suc.prems by simp
      finally show ?thesis using False b by auto
    qed
  qed
qed

lemma shiftright_nth:
  assumes "length e = n" "m < n" "j < n"
  shows "fold (\<lambda>i e. e[(i + 1 + t) mod n := e ! ((i + t) mod n)]) (rev [0..<m]) e ! ((j + t) mod n)
    = (if 1 \<le> j \<and> j \<le> m then e ! ((j - 1 + t) mod n) else e ! ((j + t) mod n))"
  using assms
proof (induction m arbitrary: e)
  case 0
  then show ?case by simp
next
  case (Suc m)
  let ?e = "e[(Suc m + t) mod n := e ! ((m + t) mod n)]"
  have upd: "?e ! ((k + t) mod n) = (if k = Suc m then e ! ((m + t) mod n) else e ! ((k + t) mod n))"
    if "k < n" for k
    using Suc.prems that mod_shift_neq [of k n "Suc m" t] by (cases "k = Suc m") auto
  have "fold (\<lambda>i e. e[(i + 1 + t) mod n := e ! ((i + t) mod n)]) (rev [0..<Suc m]) e ! ((j + t) mod n)
      = (if 1 \<le> j \<and> j \<le> m then ?e ! ((j - 1 + t) mod n) else ?e ! ((j + t) mod n))"
    using Suc.IH [of ?e] Suc.prems by simp
  also have "\<dots> = (if 1 \<le> j \<and> j \<le> Suc m then e ! ((j - 1 + t) mod n) else e ! ((j + t) mod n))"
    using upd [of "j - 1"] upd [of j] Suc.prems by auto
  finally show ?case .
qed


lemma queue_cell_int [simp]: "queue_cell q (int i) = Inr ((i + q_tail q) mod q_space q)"
  by (simp add: queue_cell_nonneg)

lemma q_elements_shiftleft: "q_elements (queue_shiftleft q index) =
    fold (\<lambda>i e. e[(i + q_tail q + q_space q - 1) mod q_space q := e ! ((i + q_tail q) mod q_space q)])
      [index..<q_length q] (q_elements q)"
  by (simp add: queue_shiftleft_def)

lemma q_elements_shiftright: "q_elements (queue_shiftright q index) =
    fold (\<lambda>i e. e[(i + 1 + q_tail q) mod q_space q := e ! ((i + q_tail q) mod q_space q)])
      (rev [0..<nat (index + 1)]) (q_elements q)"
  by (simp add: queue_shiftright_def)

text \<open>The queue after the left or the right part has moved over the removed cell.\<close>

lemma queue_shift_down:
  assumes ok: "queue_ok q" and i: "i < q_length q"
  shows "let q' = (queue_shiftleft q (i + 1))\<lparr>q_head := (q_head q + q_space q - 1) mod q_space q,
              q_length := q_length q - 1\<rparr>
    in queue_ok q' \<and> queue_list q' = take i (queue_list q) @ drop (Suc i) (queue_list q)"
proof -
  let ?n = "q_space q" and ?t = "q_tail q" and ?l = "q_length q"
  let ?q = "(queue_shiftleft q (i + 1))\<lparr>q_head := (q_head q + ?n - 1) mod ?n, q_length := ?l - 1\<rparr>"
  have sp: "queue_spop q = (q_elements q ! ((q_head q + ?n - 1) mod ?n),
      q\<lparr>q_length := ?l - 1, q_head := (q_head q + ?n - 1) mod ?n\<rparr>)"
    using i by (simp add: queue_spop_def Let_def)
  have len: "length (fold (\<lambda>i e. e[f i := g i e]) xs e) = length e" for f g xs and e :: "'a ptr list"
    by (induction xs arbitrary: e) auto
  have "queue_ok ?q"
    using queue_spop_ok(1) [OF ok sp] ok
    by (simp add: queue_ok_def queue_shiftleft_def len)
  moreover have "queue_list ?q = take i (queue_list q) @ drop (Suc i) (queue_list q)"
  proof (rule queue_list_eqI)
    show "q_length ?q = length (take i (queue_list q) @ drop (Suc i) (queue_list q))"
      using i by simp
    fix j assume "j < length (take i (queue_list q) @ drop (Suc i) (queue_list q))"
    then have j: "j < ?l - 1" using i by simp
    have cell: "q_elements (queue_shiftleft q (i + 1)) ! ((j + ?t) mod ?n)
        = (if i + 1 \<le> Suc j \<and> Suc j < ?l then q_elements q ! ((Suc j + ?t) mod ?n)
           else q_elements q ! ((j + ?t) mod ?n))"
      unfolding q_elements_shiftleft
      by (rule shiftleft_nth) (use ok j in \<open>auto simp: queue_ok_def\<close>)
    show "q_elements ?q ! ((j + q_tail ?q) mod q_space ?q)
        = (take i (queue_list q) @ drop (Suc i) (queue_list q)) ! j"
      using cell j i by (auto simp: queue_shiftleft_def nth_append nth_queue_list)
  qed
  ultimately show ?thesis by (simp add: Let_def)
qed

lemma queue_shift_up:
  assumes ok: "queue_ok q" and i: "i < q_length q"
  shows "let q' = (queue_shiftright q (int i - 1))\<lparr>q_tail := (q_tail q + 1) mod q_space q,
              q_length := q_length q - 1\<rparr>
    in queue_ok q' \<and> queue_list q' = take i (queue_list q) @ drop (Suc i) (queue_list q)"
proof -
  let ?n = "q_space q" and ?t = "q_tail q" and ?l = "q_length q"
  let ?q = "(queue_shiftright q (int i - 1))\<lparr>q_tail := (?t + 1) mod ?n, q_length := ?l - 1\<rparr>"
  have len: "length (fold (\<lambda>i e. e[f i := g i e]) xs e) = length e" for f g xs and e :: "'a ptr list"
    by (induction xs arbitrary: e) auto
  have pop: "queue_pop q = (q_elements q ! ?t, q\<lparr>q_tail := (?t + 1) mod ?n, q_length := ?l - 1\<rparr>)"
    using i by (simp add: queue_pop_def)
  have "queue_ok ?q"
    using queue_pop_ok(1) [OF ok pop] ok by (simp add: queue_ok_def queue_shiftright_def len)
  moreover have "queue_list ?q = take i (queue_list q) @ drop (Suc i) (queue_list q)"
  proof (rule queue_list_eqI)
    show "q_length ?q = length (take i (queue_list q) @ drop (Suc i) (queue_list q))"
      using i by simp
    fix j assume "j < length (take i (queue_list q) @ drop (Suc i) (queue_list q))"
    then have j: "Suc j < ?l" using i by simp
    have cell: "q_elements (queue_shiftright q (int i - 1)) ! ((Suc j + ?t) mod ?n)
        = (if 1 \<le> Suc j \<and> Suc j \<le> i then q_elements q ! ((Suc j - 1 + ?t) mod ?n)
           else q_elements q ! ((Suc j + ?t) mod ?n))"
      unfolding q_elements_shiftright
      by (subst shiftright_nth) (use ok j i in \<open>auto simp: queue_ok_def\<close>)
    have "(j + (?t + 1) mod ?n) mod ?n = (Suc j + ?t) mod ?n"
      by (simp add: mod_simps)
    then show "q_elements ?q ! ((j + q_tail ?q) mod q_space ?q)
        = (take i (queue_list q) @ drop (Suc i) (queue_list q)) ! j"
      using cell j i by (auto simp: queue_shiftright_def nth_append nth_queue_list)
  qed
  ultimately show ?thesis by (simp add: Let_def)
qed

lemma queue_remove_sf_list:
  assumes ok: "queue_ok q"
  shows "\<exists>q'. queue_remove_sf q sf k
      = Inr (case find (sf k) (queue_list q) of None \<Rightarrow> None | Some x \<Rightarrow> x, q')
    \<and> queue_ok q' \<and> queue_list q' = remove_first (sf k) (queue_list q)"
proof (cases "first_index (sf k) (queue_list q)")
  case None
  then have "\<forall>x \<in> set (queue_list q). \<not> sf k x" by (simp add: first_index_None)
  with None ok show ?thesis
    by (simp add: queue_remove_sf_def qsearchi_index find_first_index)
next
  case (Some i)
  note fi = first_index_Some [OF Some]
  then have i: "i < q_length q" by simp
  have rem: "remove_first (sf k) (queue_list q) = take i (queue_list q) @ drop (Suc i) (queue_list q)"
    by (rule remove_first_index [OF Some])
  have get: "queue_get q (int i) = Inr (queue_list q ! i)" using i by simp
  have swap: "q\<lparr>q_length := b, q_head := a\<rparr> = q\<lparr>q_head := a, q_length := b\<rparr>"
    "q\<lparr>q_length := b, q_tail := a\<rparr> = q\<lparr>q_tail := a, q_length := b\<rparr>" for q :: "'a queue" and a b
    by simp_all
  show ?thesis
    using queue_shift_down [OF ok i] queue_shift_up [OF ok i] Some get rem
    by (cases "int i > int (q_length q div 2)")
      (simp_all add: queue_remove_sf_def qsearchi_index find_first_index Let_def nat_add_distrib)
qed

section \<open>Concatenation\<close>

lemma queue_concat_list:
  assumes "queue_ok q1" "queue_ok q2" "queue_concat q1 q2 = (r1, r2)"
  shows "queue_ok r1 \<and> queue_ok r2
    \<and> queue_list r1 = queue_list q1 @ takeWhile (\<lambda>x. x \<noteq> None) (queue_list q2)
    \<and> queue_list r2 = tl (dropWhile (\<lambda>x. x \<noteq> None) (queue_list q2))"
  using assms
proof (induction q1 q2 rule: queue_concat.induct)
  case (1 q1 q2)
  obtain p q2' where pop: "queue_pop q2 = (p, q2')" by force
  note po = queue_pop_ok [OF 1(3) pop]
  show ?case
  proof (cases p)
    case None
    with 1(2,4) pop po show ?thesis
      by (cases "queue_list q2 = []") (auto simp: queue_concat.simps [of q1 q2])
  next
    case (Some x)
    then have "queue_list q2 = Some x # queue_list q2'" using po by auto
    moreover have "queue_concat (queue_push q1 (Some x)) q2' = (r1, r2)"
      using 1(4) pop Some by (simp add: queue_concat.simps [of q1 q2])
    ultimately show ?thesis
      using 1(1) [OF pop [symmetric] Some] 1(2) po(1) by simp
  qed
qed

section \<open>Shuffling\<close>

definition swap_list :: "'a list \<Rightarrow> nat \<Rightarrow> nat \<Rightarrow> 'a list" where
  "swap_list xs i j = xs[i := xs ! j, j := xs ! i]"

fun sattolo :: "('s \<Rightarrow> nat \<times> 's) \<Rightarrow> nat \<Rightarrow> 'a list \<Rightarrow> 's \<Rightarrow> 'a list" where
  "sattolo rnd 0 xs s = xs"
| "sattolo rnd (Suc i) xs s =
     (let (r, s1) = rnd s in sattolo rnd i (swap_list xs (Suc i) (r mod Suc i)) s1)"

lemma length_swap_list [simp]: "length (swap_list xs i j) = length xs"
  by (simp add: swap_list_def)

lemma length_sattolo [simp]: "length (sattolo rnd i xs s) = length xs"
  by (induction i arbitrary: xs s) (auto simp: Let_def split: prod.splits)

lemma mset_swap_list: "i < length xs \<Longrightarrow> j < length xs \<Longrightarrow> mset (swap_list xs i j) = mset xs"
  by (simp add: swap_list_def mset_swap)

lemma mset_sattolo: "i < length xs \<Longrightarrow> mset (sattolo rnd i xs s) = mset xs"
proof (induction i arbitrary: xs s)
  case 0
  then show ?case by simp
next
  case (Suc i)
  have "r mod Suc i < length xs" for r
    using Suc.prems mod_less_divisor [of "Suc i" r] by linarith
  with Suc show ?case by (simp add: Let_def mset_swap_list split: prod.splits)
qed

lemma sattolo_above: "i < k \<Longrightarrow> k < length xs \<Longrightarrow> sattolo rnd i xs s ! k = xs ! k"
proof (induction i arbitrary: xs s)
  case 0
  then show ?case by simp
next
  case (Suc i)
  have "r mod Suc i < Suc i" for r by simp
  then have "r mod Suc i \<noteq> k" for r using Suc.prems by (metis not_less_iff_gr_or_eq less_trans)
  with Suc show ?case by (auto simp: swap_list_def split: prod.splits)
qed

lemma sattolo_moves:
  assumes "distinct xs" "i < length xs" "0 < i" "p \<le> i"
  shows "sattolo rnd i xs s ! p \<noteq> xs ! p"
  using assms
proof (induction i arbitrary: xs s p)
  case 0
  then show ?case by simp
next
  case (Suc i)
  obtain r s1 where rs: "rnd s = (r, s1)" by force
  let ?j = "r mod Suc i" and ?ys = "swap_list xs (Suc i) (r mod Suc i)"
  let ?zs = "sattolo rnd i ?ys s1"
  have j: "?j < Suc i" by simp
  have jl: "?j < length xs" using j Suc.prems(2) by linarith
  have zs: "sattolo rnd (Suc i) xs s = ?zs" using rs by simp
  have m: "mset ?zs = mset xs"
    using mset_sattolo [of i ?ys] mset_swap_list [of "Suc i" xs ?j] Suc.prems(2) jl by simp
  then have dz: "distinct ?zs" using Suc.prems(1) by (metis mset_eq_imp_distinct_iff)
  have top: "?zs ! Suc i = xs ! ?j"
    using sattolo_above [of i "Suc i" ?ys] Suc.prems(2) j jl by (simp add: swap_list_def)
  have dy: "distinct ?ys"
    using mset_swap_list [of "Suc i" xs ?j] Suc.prems(1,2) jl by (metis mset_eq_imp_distinct_iff)
  consider "p = Suc i" | "p < Suc i" "p = ?j" | "p < Suc i" "p \<noteq> ?j"
    using Suc.prems(4) by linarith
  then show ?case
  proof cases
    case 1
    with top zs j jl Suc.prems show ?thesis
      by (metis less_irrefl nth_eq_iff_index_eq)
  next
    case 2
    have "?zs ! p \<noteq> ?zs ! Suc i"
      using dz 2 j jl Suc.prems(2)
      by (metis length_sattolo length_swap_list less_irrefl nth_eq_iff_index_eq)
    with top 2 zs show ?thesis by simp
  next
    case 3
    then have "?ys ! p = xs ! p" by (simp add: swap_list_def)
    moreover have "0 < i" using 3 by (cases i) auto
    ultimately show ?thesis
      using Suc.IH [of ?ys p s1] dy Suc.prems(2) 3 zs by simp
  qed
qed

lemma queue_swap_list:
  assumes "queue_ok q" "i < q_length q" "j < q_length q"
  shows "\<exists>q'. queue_swap q (int i) (int j) = Inr q' \<and> queue_ok q'
    \<and> queue_list q' = swap_list (queue_list q) i j"
proof -
  obtain q1 where q1: "queue_set q (queue_list q ! j) (int i) = Inr q1" "queue_ok q1"
    "queue_list q1 = (queue_list q)[i := queue_list q ! j]"
    using queue_set_nth [OF assms(1), of "int i" "queue_list q ! j"] assms(2) by auto
  then have "q_length q1 = q_length q" by (metis length_list_update length_queue_list)
  then obtain q2 where q2: "queue_set q1 (queue_list q ! i) (int j) = Inr q2" "queue_ok q2"
    "queue_list q2 = (queue_list q1)[j := queue_list q ! i]"
    using queue_set_nth [OF q1(2), of "int j" "queue_list q ! i"] assms(3) by auto
  with q1 assms show ?thesis by (simp add: queue_swap_def swap_list_def)
qed

lemma shuffle_loop_list:
  assumes "queue_ok q" "i = 0 \<or> i < q_length q"
  shows "\<exists>q' s'. shuffle_loop rnd i (q, s) = Inr (q', s') \<and> queue_ok q'
    \<and> queue_list q' = sattolo rnd i (queue_list q) s"
  using assms
proof (induction i arbitrary: q s)
  case 0
  then show ?case by simp
next
  case (Suc i)
  obtain r s1 where rs: "rnd s = (r, s1)" by force
  have "r mod Suc i < Suc i" by simp
  then have "r mod Suc i < q_length q" using Suc.prems(2) by linarith
  then obtain q1 where q1: "queue_swap q (int (Suc i)) (int (r mod Suc i)) = Inr q1" "queue_ok q1"
    "queue_list q1 = swap_list (queue_list q) (Suc i) (r mod Suc i)"
    using queue_swap_list [of q "Suc i" "r mod Suc i"] Suc.prems by auto
  then have "q_length q1 = q_length q" by (metis length_queue_list length_swap_list)
  then obtain q' s' where "shuffle_loop rnd i (q1, s1) = Inr (q', s')" "queue_ok q'"
    "queue_list q' = sattolo rnd i (queue_list q1) s1"
    using Suc.IH [of q1 s1] q1(2) Suc.prems(2) by auto
  with rs q1 show ?case by (simp del: of_nat_Suc)
qed

lemma queue_shuffle_list:
  assumes "queue_ok q"
  shows "\<exists>q' s'. queue_shuffle rnd s q = Inr (q', s') \<and> queue_ok q'
    \<and> queue_list q' = sattolo rnd (q_length q - 1) (queue_list q) s"
  using shuffle_loop_list [OF assms, of "q_length q - 1" rnd s]
  by (cases "q_length q") (auto simp: queue_shuffle_def queue_length_def)

section \<open>The interface\<close>

text \<open>
  What a client of a queue relies on: pushing appends, popping takes the first element and
  returns NULL on an empty queue, and the length is the number of stored elements.
\<close>

locale fifo =
  fixes new :: 'q
    and push :: "'q \<Rightarrow> 'a ptr \<Rightarrow> 'q"
    and pop :: "'q \<Rightarrow> 'a ptr \<times> 'q"
    and len :: "'q \<Rightarrow> nat"
    and items :: "'q \<Rightarrow> 'a ptr list"
    and ok :: "'q \<Rightarrow> bool"
  assumes ok_new: "ok new"
    and items_new: "items new = []"
    and ok_push: "ok q \<Longrightarrow> ok (push q x)"
    and items_push: "ok q \<Longrightarrow> items (push q x) = items q @ [x]"
    and ok_pop: "ok q \<Longrightarrow> ok (snd (pop q))"
    and pop_empty: "ok q \<Longrightarrow> items q = [] \<Longrightarrow> pop q = (None, q)"
    and pop_items: "ok q \<Longrightarrow> items q = x # xs \<Longrightarrow> fst (pop q) = x \<and> items (snd (pop q)) = xs"
    and len_items: "ok q \<Longrightarrow> len q = length (items q)"
begin

lemma ok_push_all: "ok q \<Longrightarrow> ok (fold (\<lambda>x q. push q x) xs q)"
  by (induction xs arbitrary: q) (auto simp: ok_push)

lemma items_push_all: "ok q \<Longrightarrow> items (fold (\<lambda>x q. push q x) xs q) = items q @ xs"
  by (induction xs arbitrary: q) (auto simp: ok_push items_push)

lemma len_push: "ok q \<Longrightarrow> len (push q x) = Suc (len q)"
  by (simp add: len_items ok_push items_push)

lemma pop_shorter: "ok q \<Longrightarrow> pop q = (Some x, q') \<Longrightarrow> len q' < len q"
  by (cases "items q") (use ok_pop [of q] in \<open>auto simp: len_items pop_empty dest: pop_items\<close>)

lemma pop_Some: "ok q \<Longrightarrow> pop q = (Some x, q') \<Longrightarrow> ok q' \<and> items q = Some x # items q'"
  by (cases "items q") (use ok_pop [of q] in \<open>auto simp: pop_empty dest: pop_items\<close>)

lemma pop_None: "ok q \<Longrightarrow> pop q = (None, q') \<Longrightarrow> None \<notin> set (items q) \<Longrightarrow> items q = [] \<and> q' = q"
  by (cases "items q") (auto simp: pop_empty dest: pop_items)

text \<open>First in, first out: after any pushes, what was in front is popped first.\<close>

lemma push_pop_order:
  assumes "ok q" "items q = x # xs"
  shows "fst (pop (fold (\<lambda>x q. push q x) ys q)) = x
    \<and> items (snd (pop (fold (\<lambda>x q. push q x) ys q))) = xs @ ys"
  using assms pop_items [of "fold (\<lambda>x q. push q x) ys q"] by (simp add: ok_push_all items_push_all)

end

interpretation cq: fifo queue_new queue_push queue_pop queue_length queue_list queue_ok
proof unfold_locales
  fix q :: "'a queue" and x xs
  assume ok: "queue_ok q"
  obtain p q' where pop: "queue_pop q = (p, q')" by force
  note po = queue_pop_ok [OF ok pop]
  show "queue_ok (snd (queue_pop q))" using po pop by simp
  show "queue_list q = [] \<Longrightarrow> queue_pop q = (None, q)" by (rule queue_pop_Nil)
  show "queue_list q = x # xs \<Longrightarrow> fst (queue_pop q) = x \<and> queue_list (snd (queue_pop q)) = xs"
    using po pop by simp
qed (simp_all add: queue_length_list)


text \<open>A deque also takes elements off the end it pushes to.\<close>

locale deque = fifo new push pop len items ok
  for new :: 'q
    and push :: "'q \<Rightarrow> 'a ptr \<Rightarrow> 'q"
    and pop :: "'q \<Rightarrow> 'a ptr \<times> 'q"
    and len :: "'q \<Rightarrow> nat"
    and items :: "'q \<Rightarrow> 'a ptr list"
    and ok :: "'q \<Rightarrow> bool" +
  fixes spop :: "'q \<Rightarrow> 'a ptr \<times> 'q"
  assumes ok_spop: "ok q \<Longrightarrow> ok (snd (spop q))"
    and spop_empty: "ok q \<Longrightarrow> items q = [] \<Longrightarrow> spop q = (None, q)"
    and spop_items: "ok q \<Longrightarrow> items q = xs @ [x] \<Longrightarrow> fst (spop q) = x \<and> items (snd (spop q)) = xs"
begin

lemma spop_push: "ok q \<Longrightarrow> fst (spop (push q x)) = x \<and> items (snd (spop (push q x))) = items q"
  using spop_items [of "push q x" "items q" x] by (simp add: ok_push items_push)

end

interpretation cdq: deque queue_new queue_push queue_pop queue_length queue_list queue_ok queue_spop
proof unfold_locales
  fix q :: "'a queue" and x xs
  assume ok: "queue_ok q"
  obtain p q' where spop: "queue_spop q = (p, q')" by force
  note po = queue_spop_ok [OF ok spop]
  show "queue_ok (snd (queue_spop q))" using po spop by simp
  show "queue_list q = [] \<Longrightarrow> queue_spop q = (None, q)" using po spop by simp
  show "queue_list q = xs @ [x] \<Longrightarrow> fst (queue_spop q) = x \<and> queue_list (snd (queue_spop q)) = xs"
    using po spop by auto
qed

section \<open>Properties\<close>

text \<open>A client's calls, and what a plain list answers to them.\<close>

datatype 'a qcall = Push "'a ptr" | Pop | Spop | Length

datatype 'a qanswer = Element "'a ptr" | Count nat | Nothing

fun queue_call :: "'a qcall \<Rightarrow> 'a queue \<Rightarrow> 'a qanswer \<times> 'a queue" where
  "queue_call (Push x) q = (Nothing, queue_push q x)"
| "queue_call Pop q = (let (x, q') = queue_pop q in (Element x, q'))"
| "queue_call Spop q = (let (x, q') = queue_spop q in (Element x, q'))"
| "queue_call Length q = (Count (queue_length q), q)"

fun list_call :: "'a qcall \<Rightarrow> 'a ptr list \<Rightarrow> 'a qanswer \<times> 'a ptr list" where
  "list_call (Push x) xs = (Nothing, xs @ [x])"
| "list_call Pop xs = (case xs of [] \<Rightarrow> (Element None, []) | x # ys \<Rightarrow> (Element x, ys))"
| "list_call Spop xs = (if xs = [] then (Element None, []) else (Element (last xs), butlast xs))"
| "list_call Length xs = (Count (length xs), xs)"

lemma queue_call_list:
  assumes "queue_ok q"
  shows "queue_ok (snd (queue_call c q))"
    "fst (queue_call c q) = fst (list_call c (queue_list q))"
    "queue_list (snd (queue_call c q)) = snd (list_call c (queue_list q))"
proof -
  obtain p q' where pop: "queue_pop q = (p, q')" by force
  obtain r q'' where spop: "queue_spop q = (r, q'')" by force
  note po = queue_pop_ok [OF assms pop] and so = queue_spop_ok [OF assms spop]
  show "queue_ok (snd (queue_call c q))"
    "fst (queue_call c q) = fst (list_call c (queue_list q))"
    "queue_list (snd (queue_call c q)) = snd (list_call c (queue_list q))"
    using assms po so pop spop
    by (cases c; cases "queue_list q = []"; auto simp: queue_length_list split: list.splits)+
qed

lemma run_calls_list:
  "queue_ok q \<Longrightarrow> fst (run_calls queue_call cs q) = fst (run_calls list_call cs (queue_list q))
    \<and> queue_list (snd (run_calls queue_call cs q)) = snd (run_calls list_call cs (queue_list q))"
proof (induction cs arbitrary: q)
  case Nil
  then show ?case by simp
next
  case (Cons c cs)
  obtain r q1 where call: "queue_call c q = (r, q1)" by force
  then have "queue_ok q1" "list_call c (queue_list q) = (r, queue_list q1)"
    using queue_call_list [OF Cons.prems, of c] by (auto simp: prod_eq_iff)
  with call Cons.IH [of q1] show ?case
    by (auto split: prod.splits)
qed

text \<open>C30. Whatever sequence of pushes, pops from either end and length calls a client makes on
  a new queue, it gets the answers, and leaves the contents, that a plain unbounded list would
  give: the circular array, its wrap-around and its doubling are not observable.\<close>

theorem queue_refines_list:
  "fst (run_calls queue_call cs queue_new) = fst (run_calls list_call cs ([] :: 'a ptr list))
    \<and> queue_list (snd (run_calls queue_call cs (queue_new :: 'a queue))) = snd (run_calls list_call cs [])"
  using run_calls_list [OF queue_new_ok, of cs] by simp

text \<open>\<open>queue_remove\<close> takes out exactly the first element its search function accepts (called
  with the key first), closes the gap from whichever side it shifts, keeps the order of all
  others and the invariant, and returns NULL and changes nothing when no element is accepted.\<close>

theorem queue_remove_first:
  assumes "queue_ok q"
  shows "\<exists>q'. queue_remove q sf k
      = Inr (case find ((case sf of None \<Rightarrow> default_search_function | Some f \<Rightarrow> f) k) (queue_list q)
             of None \<Rightarrow> None | Some x \<Rightarrow> x, q')
    \<and> queue_ok q'
    \<and> queue_list q' = remove_first ((case sf of None \<Rightarrow> default_search_function | Some f \<Rightarrow> f) k) (queue_list q)"
  unfolding queue_remove_def by (rule queue_remove_sf_list [OF assms])

theorem queue_remove_first_witness:
  "\<exists>q'. queue_remove (queue_push (queue_push (queue_push queue_new (Some (5::int))) (Some 7)) (Some 9)) None (Some 7)
      = Inr (Some 7, q') \<and> queue_list q' = [Some 5, Some 9]"
  using queue_remove_first [of "queue_push (queue_push (queue_push queue_new (Some (5::int))) (Some 7)) (Some 9)"
      None "Some 7"]
  by (auto simp: default_search_function_def)

text \<open>C31. \<open>queue_shuffle\<close> permutes the queue, and whatever numbers \<open>rand()\<close> returns, no element of
  a queue of at least two distinct elements keeps its place: the loop takes \<open>rand() % i\<close> and so
  never swaps an element with itself.\<close>

theorem queue_shuffle_derangement:
  assumes "queue_ok q"
  shows "\<exists>q' s'. queue_shuffle rnd s q = Inr (q', s') \<and> queue_ok q'
    \<and> mset (queue_list q') = mset (queue_list q)
    \<and> (distinct (queue_list q) \<longrightarrow> 2 \<le> queue_length q \<longrightarrow>
        (\<forall>p < queue_length q. queue_list q' ! p \<noteq> queue_list q ! p))"
proof -
  obtain q' s' where q': "queue_shuffle rnd s q = Inr (q', s')" "queue_ok q'"
    "queue_list q' = sattolo rnd (q_length q - 1) (queue_list q) s"
    using queue_shuffle_list [OF assms, of rnd s] by metis
  have "mset (queue_list q') = mset (queue_list q)"
    by (cases "q_length q") (use q' in \<open>auto simp: mset_sattolo\<close>)
  moreover have "queue_list q' ! p \<noteq> queue_list q ! p"
    if "distinct (queue_list q)" "2 \<le> queue_length q" "p < queue_length q" for p
    using sattolo_moves [of "queue_list q" "q_length q - 1" p rnd s] that q'(3)
    by (simp add: queue_length_def)
  ultimately show ?thesis using q' by blast
qed

theorem queue_shuffle_derangement_witness:
  "\<exists>q' s'. queue_shuffle (\<lambda>s::nat. (s, s + 3)) 8 (queue_push (queue_push queue_new (Some (1::int))) (Some 2))
      = Inr (q', s') \<and> queue_list q' ! 0 \<noteq> Some 1"
  using queue_shuffle_derangement [of "queue_push (queue_push queue_new (Some (1::int))) (Some 2)" "\<lambda>s::nat. (s, s + 3)" 8]
  by (auto simp: queue_length_list)

text \<open>\<open>queue_concat\<close> moves the elements of the second queue behind those of the first up to
  the first stored NULL, which it drops; what follows that NULL stays in the second queue.\<close>

theorem queue_concat_until_null:
  assumes "queue_ok q1" "queue_ok q2"
  shows "\<exists>r1 r2. queue_concat q1 q2 = (r1, r2) \<and> queue_ok r1 \<and> queue_ok r2
    \<and> queue_list r1 = queue_list q1 @ takeWhile (\<lambda>x. x \<noteq> None) (queue_list q2)
    \<and> queue_list r2 = tl (dropWhile (\<lambda>x. x \<noteq> None) (queue_list q2))"
  using queue_concat_list [OF assms] by (metis surj_pair)

theorem queue_concat_until_null_witness:
  "\<exists>r1 r2. queue_concat (queue_push queue_new (Some (1::int)))
      (queue_push (queue_push (queue_push queue_new (Some 2)) None) (Some 3)) = (r1, r2)
    \<and> queue_list r1 = [Some 1, Some 2] \<and> queue_list r2 = [Some 3]"
  using queue_concat_until_null [of "queue_push queue_new (Some (1::int))"
      "queue_push (queue_push (queue_push queue_new (Some 2)) None) (Some 3)"]
  by auto

text \<open>\<open>queue_speek\<close>, documented not to remove the element it returns, leaves the queue as it was
  except when the element at the end is a stored NULL (for instance the integer 0): that
  element is taken out.\<close>

theorem queue_speek_keeps_unless_null:
  assumes "queue_ok q" "queue_list q = xs @ [x]"
  shows "fst (queue_speek q) = x
    \<and> queue_list (snd (queue_speek q)) = (if x = None then xs else xs @ [x])"
  using queue_speek_ok [OF assms(1), of "fst (queue_speek q)" "snd (queue_speek q)"] assms(2) by auto

theorem queue_speek_keeps_unless_null_witness:
  "queue_list (snd (queue_speek (queue_push (queue_push queue_new (Some (4::int))) (void_of_int 0)))) = [Some 4]"
  using queue_speek_keeps_unless_null [of "queue_push (queue_push queue_new (Some (4::int))) (void_of_int 0)" "[Some 4]" None]
  by (simp add: void_of_int_def)

end
