(* ===== verification/AsyncQ.thy ===== *)
theory AsyncQ
  imports CQueue
begin

text \<open>
  The queue shared by two threads, \<open>utility/AsyncQueue/AsyncQueue.c\<close>: a \<open>Queue\<close> and a
  mutex. Every operation is \<open>synchronize(lock, code)\<close>: lock, run the queue operation,
  unlock. Any number of threads call any operations; each call is split into the steps
  lock, read the queue, write the queue back, unlock, so that a missing lock would lose
  updates. The properties are mutual exclusion and linearisability: the answers are those
  of one sequential run on a plain list.
\<close>

section \<open>Calls\<close>

datatype 'a acall =
    AsyncLength
  | AsyncPush "'a ptr"
  | AsyncPop
  | AsyncApply
  | AsyncSearch "'a ptr \<Rightarrow> 'a ptr \<Rightarrow> bool" "'a ptr"
  | AsyncRemove "('a ptr \<Rightarrow> 'a ptr \<Rightarrow> bool) option" "'a ptr"

datatype 'a ares = IntRes nat | NoRes | PtrRes "'a ptr" | Visited "'a ptr list"

text \<open>
  The code each function runs while it holds the lock; the callback of
  \<open>asyncqueue_apply\<close> is represented by the elements it is called with, in order.
\<close>

fun async_body :: "'a acall \<Rightarrow> 'a queue \<Rightarrow> ('a ares \<times> 'a queue) outcome" where
  "async_body AsyncLength q = Inr (IntRes (queue_length q), q)"
| "async_body (AsyncPush elementp) q = Inr (NoRes, queue_push q elementp)"
| "async_body AsyncPop q = (let (element, q') = queue_pop q in Inr (PtrRes element, q'))"
| "async_body AsyncApply q = Inr (Visited (queue_apply q (\<lambda>x seen. seen @ [x]) []), q)"
| "async_body (AsyncSearch sf skeyp) q =
     bindE (queue_search q sf skeyp) (\<lambda>element. Inr (PtrRes element, q))"
| "async_body (AsyncRemove sf skeyp) q =
     bindE (queue_remove q sf skeyp) (\<lambda>(element, q'). Inr (PtrRes element, q'))"

text \<open>
  \<open>asyncqueue_concat\<close> locks both mutexes, which never ends when both arguments are the same queue, and
  then casts the first struct, a queue pointer and the mutex pointer \<open>lock\<close>, to a \<open>_Queue\<close>: the length
  \<open>queue_pop\<close> reads is the low half of the mutex pointer, and unless that is 0 the position it then
  reads is past the struct. The second queue is not looked at.
\<close>

definition asyncqueue_concat :: "bool \<Rightarrow> 64 word \<Rightarrow> unit outcome" where
  "asyncqueue_concat same_queue lock =
     (if same_queue then Inl NoReturn
      else if sint (ucast lock :: 32 word) = 0 then Inr ()
      else Inl OutOfBounds)"

section \<open>Threads\<close>

datatype 'a pc =
    Idle
  | Waiting "'a acall"
  | Locked "'a acall"
  | Loaded "'a acall" "'a queue"
  | Finished "'a ares"

record 'a async_state =
  aq_q :: "'a queue"
  aq_lock :: "nat option"
  aq_pc :: "nat \<Rightarrow> 'a pc"
  aq_log :: "('a acall \<times> 'a ares) list"

definition asyncqueue_new :: "'a async_state" where
  "asyncqueue_new = \<lparr>aq_q = queue_new, aq_lock = None, aq_pc = (\<lambda>_. Idle), aq_log = []\<rparr>"

text \<open>
  One thread moves: it starts a call, gets the free mutex, reads the shared queue, writes the
  result of the operation back, or unlocks and returns. The log records the calls in the
  order of their write steps.
\<close>

inductive async_step :: "'a async_state \<Rightarrow> 'a async_state \<Rightarrow> bool" where
  call: "aq_pc s t = Idle \<Longrightarrow>
     async_step s (s\<lparr>aq_pc := (aq_pc s)(t := Waiting c)\<rparr>)"
| lock: "aq_pc s t = Waiting c \<Longrightarrow> aq_lock s = None \<Longrightarrow>
     async_step s (s\<lparr>aq_pc := (aq_pc s)(t := Locked c), aq_lock := Some t\<rparr>)"
| load: "aq_pc s t = Locked c \<Longrightarrow>
     async_step s (s\<lparr>aq_pc := (aq_pc s)(t := Loaded c (aq_q s))\<rparr>)"
| store: "aq_pc s t = Loaded c q \<Longrightarrow> async_body c q = Inr (r, q') \<Longrightarrow>
     async_step s (s\<lparr>aq_pc := (aq_pc s)(t := Finished r), aq_q := q', aq_log := aq_log s @ [(c, r)]\<rparr>)"
| unlock: "aq_pc s t = Finished r \<Longrightarrow>
     async_step s (s\<lparr>aq_pc := (aq_pc s)(t := Idle), aq_lock := None\<rparr>)"

inductive async_reachable :: "'a async_state \<Rightarrow> bool" where
  start: "async_reachable asyncqueue_new"
| step: "async_reachable s \<Longrightarrow> async_step s s' \<Longrightarrow> async_reachable s'"

inductive_cases async_step_cases: "async_step s s'"

section \<open>The sequential specification\<close>

fun list_body :: "'a acall \<Rightarrow> 'a ptr list \<Rightarrow> 'a ares \<times> 'a ptr list" where
  "list_body AsyncLength xs = (IntRes (length xs), xs)"
| "list_body (AsyncPush x) xs = (NoRes, xs @ [x])"
| "list_body AsyncPop xs = (case xs of [] \<Rightarrow> (PtrRes None, []) | x # ys \<Rightarrow> (PtrRes x, ys))"
| "list_body AsyncApply xs = (Visited xs, xs)"
| "list_body (AsyncSearch sf k) xs =
     (PtrRes (case find (sf k) xs of None \<Rightarrow> None | Some x \<Rightarrow> x), xs)"
| "list_body (AsyncRemove sf k) xs =
     (let P = (case sf of None \<Rightarrow> default_search_function | Some f \<Rightarrow> f) k
      in (PtrRes (case find P xs of None \<Rightarrow> None | Some x \<Rightarrow> x), remove_first P xs))"

fun explains :: "('a acall \<times> 'a ares) list \<Rightarrow> 'a ptr list \<Rightarrow> 'a ptr list \<Rightarrow> bool" where
  "explains [] xs ys \<longleftrightarrow> xs = ys"
| "explains ((c, r) # log) xs ys \<longleftrightarrow> fst (list_body c xs) = r \<and> explains log (snd (list_body c xs)) ys"

lemma explains_snoc:
  "explains (log @ [(c, r)]) xs ys \<longleftrightarrow>
    (\<exists>zs. explains log xs zs \<and> list_body c zs = (r, ys))"
  by (induction log xs ys rule: explains.induct) (auto simp: prod_eq_iff)

lemma async_body_list:
  assumes "queue_ok q"
  shows "\<exists>r q'. async_body c q = Inr (r, q') \<and> queue_ok q' \<and> list_body c (queue_list q) = (r, queue_list q')"
proof (cases c)
  case AsyncPop
  obtain p q' where pop: "queue_pop q = (p, q')" by force
  show ?thesis
    using queue_pop_ok [OF assms pop] pop AsyncPop by (cases "queue_list q") auto
next
  case AsyncApply
  have "fold (\<lambda>x seen. seen @ [x]) xs ys = ys @ xs" for xs ys :: "'a ptr list"
    by (induction xs arbitrary: ys) auto
  with AsyncApply assms show ?thesis by (simp add: queue_apply_list)
next
  case (AsyncSearch sf k)
  with assms show ?thesis by (simp add: queue_search_list)
next
  case (AsyncRemove sf k)
  let ?f = "case sf of None \<Rightarrow> default_search_function | Some f \<Rightarrow> f"
  obtain q' where "queue_remove_sf q ?f k
      = Inr (case find (?f k) (queue_list q) of None \<Rightarrow> None | Some x \<Rightarrow> x, q')"
    "queue_ok q'" "queue_list q' = remove_first (?f k) (queue_list q)"
    using queue_remove_sf_list [OF assms, of ?f k] by metis
  with AsyncRemove show ?thesis by (simp add: queue_remove_def Let_def)
qed (use assms in \<open>auto simp: queue_length_list\<close>)

section \<open>The invariant\<close>

text \<open>
  A thread past \<open>lock\<close> and before \<open>unlock\<close> is the recorded holder, and what it has read
  is still the shared queue.
\<close>

fun holding :: "'a pc \<Rightarrow> bool" where
  "holding Idle = False"
| "holding (Waiting c) = False"
| "holding (Locked c) = True"
| "holding (Loaded c q) = True"
| "holding (Finished r) = True"

definition async_inv :: "'a async_state \<Rightarrow> bool" where
  "async_inv s \<longleftrightarrow> queue_ok (aq_q s)
     \<and> (\<forall>t. holding (aq_pc s t) \<longleftrightarrow> aq_lock s = Some t)
     \<and> (\<forall>t c q. aq_pc s t = Loaded c q \<longrightarrow> q = aq_q s)
     \<and> (\<forall>t r. aq_pc s t = Finished r \<longrightarrow> (\<exists>c. aq_log s \<noteq> [] \<and> last (aq_log s) = (c, r)))
     \<and> explains (aq_log s) [] (queue_list (aq_q s))"

lemma async_inv_start: "async_inv asyncqueue_new"
  by (simp add: async_inv_def asyncqueue_new_def)

lemma async_inv_loaded:
  "async_inv s \<Longrightarrow> aq_pc s t = Loaded c q \<Longrightarrow> q = aq_q s \<and> aq_lock s = Some t"
  unfolding async_inv_def by (metis holding.simps(4))

lemma async_step_inv:
  assumes "async_step s s'" "async_inv s"
  shows "async_inv s'"
  using assms
proof (cases rule: async_step.cases)
  case (store t c q r q')
  have q: "q = aq_q s" and l: "aq_lock s = Some t"
    using async_inv_loaded [OF assms(2) store(2)] by auto
  have ok: "queue_ok (aq_q s)" and ex: "explains (aq_log s) [] (queue_list (aq_q s))"
    and h: "\<And>u. holding (aq_pc s u) \<longleftrightarrow> u = t"
    using assms(2) l unfolding async_inv_def by auto
  have "queue_ok q'" "list_body c (queue_list (aq_q s)) = (r, queue_list q')"
    using async_body_list [OF ok, of c] store(3) q by auto
  moreover have "u = t" if "aq_pc s u = Loaded d p" for u d p
    using h [of u] that by simp
  moreover have "u = t" if "aq_pc s u = Finished f" for u f
    using h [of u] that by simp
  ultimately show ?thesis
    using store(1) ex h l by (auto simp: async_inv_def explains_snoc)
qed (auto simp: async_inv_def split: if_splits, metis holding.simps(1,3,5))

lemma async_reachable_inv: "async_reachable s \<Longrightarrow> async_inv s"
  by (induction rule: async_reachable.induct) (auto intro: async_inv_start async_step_inv)

text \<open>In an invariant state a thread that is inside a call, or the holder it waits for, can move.\<close>

lemma async_inv_progress:
  assumes "async_inv s" "aq_pc s t \<noteq> Idle"
  shows "\<exists>u s'. aq_pc s u \<noteq> Idle \<and> async_step s s' \<and> aq_pc s' u \<noteq> aq_pc s u"
proof -
  have move: "\<exists>s'. async_step s s' \<and> aq_pc s' u \<noteq> aq_pc s u" if h: "holding (aq_pc s u)" for u
  proof (cases "aq_pc s u")
    case (Locked c)
    from async_step.load [OF this] Locked show ?thesis by fastforce
  next
    case (Loaded c q)
    with assms(1) have "queue_ok q" by (auto simp: async_inv_def)
    then obtain r q' where "async_body c q = Inr (r, q')" using async_body_list by blast
    from async_step.store [OF Loaded this] Loaded show ?thesis by fastforce
  next
    case (Finished r)
    from async_step.unlock [OF this] Finished show ?thesis by fastforce
  qed (use h in auto)
  show ?thesis
  proof (cases "aq_lock s")
    case None
    with assms have "\<not> holding (aq_pc s t)" by (simp add: async_inv_def)
    with assms(2) obtain c where w: "aq_pc s t = Waiting c" by (cases "aq_pc s t") auto
    show ?thesis
      by (rule exI [of _ t], rule exI, intro conjI, rule assms(2), rule async_step.lock [OF w None])
        (simp add: w)
  next
    case (Some u)
    with assms(1) have "holding (aq_pc s u)" by (simp add: async_inv_def)
    with move [OF this] show ?thesis by (metis holding.simps(1))
  qed
qed

section \<open>Properties\<close>

text \<open>C24. Linearisability: however the steps of any number of threads interleave, the calls in the
  order of their write steps, with the answers the threads return, are a sequential run on a
  plain list that starts empty and ends with the contents of the shared queue.\<close>

theorem asyncqueue_linearisable:
  assumes "async_reachable s"
  shows "explains (aq_log s) [] (queue_list (aq_q s))
    \<and> (\<forall>t r. aq_pc s t = Finished r \<longrightarrow> (\<exists>c. last (aq_log s) = (c, r)))"
  using async_reachable_inv [OF assms] by (auto simp: async_inv_def)


text \<open>A run in which thread 1 has pushed and thread 2 waits while thread 3 holds the lock.\<close>

definition example_state :: "int async_state" where
  "example_state = \<lparr>aq_q = queue_push queue_new (Some 4), aq_lock = Some 3,
     aq_pc = (\<lambda>_. Idle)(1 := Idle, 2 := Waiting AsyncPop, 3 := Locked AsyncLength),
     aq_log = [(AsyncPush (Some 4), NoRes)]\<rparr>"

lemma example_state_reachable: "async_reachable example_state"
proof -
  define s1 :: "int async_state" where
    "s1 = asyncqueue_new\<lparr>aq_pc := (\<lambda>_. Idle)(1 := Waiting (AsyncPush (Some 4)))\<rparr>"
  define s2 where "s2 = s1\<lparr>aq_pc := (aq_pc s1)(1 := Locked (AsyncPush (Some 4))), aq_lock := Some 1\<rparr>"
  define s3 where "s3 = s2\<lparr>aq_pc := (aq_pc s2)(1 := Loaded (AsyncPush (Some 4)) (aq_q s2))\<rparr>"
  define s4 where "s4 = s3\<lparr>aq_pc := (aq_pc s3)(1 := Finished NoRes),
    aq_q := queue_push queue_new (Some 4), aq_log := aq_log s3 @ [(AsyncPush (Some 4), NoRes)]\<rparr>"
  define s5 where "s5 = s4\<lparr>aq_pc := (aq_pc s4)(1 := Idle), aq_lock := None\<rparr>"
  define s6 where "s6 = s5\<lparr>aq_pc := (aq_pc s5)(3 := Waiting AsyncLength)\<rparr>"
  define s7 where "s7 = s6\<lparr>aq_pc := (aq_pc s6)(2 := Waiting AsyncPop)\<rparr>"
  define s8 where "s8 = s7\<lparr>aq_pc := (aq_pc s7)(3 := Locked AsyncLength), aq_lock := Some 3\<rparr>"
  note d = s1_def s2_def s3_def s4_def s5_def s6_def s7_def s8_def asyncqueue_new_def
  have "async_step asyncqueue_new s1"
    using async_step.call [of asyncqueue_new 1 "AsyncPush (Some 4)"] by (simp add: d)
  moreover have "async_step s1 s2" unfolding s2_def by (rule async_step.lock) (simp_all add: d)
  moreover have "async_step s2 s3" unfolding s3_def by (rule async_step.load) (simp add: d)
  moreover have "async_step s3 s4"
    unfolding s4_def by (rule async_step.store [where q = queue_new]) (simp_all add: d)
  moreover have "async_step s4 s5" unfolding s5_def by (rule async_step.unlock) (simp add: d)
  moreover have "async_step s5 s6" unfolding s6_def by (rule async_step.call) (simp add: d)
  moreover have "async_step s6 s7" unfolding s7_def by (rule async_step.call) (simp add: d)
  moreover have "async_step s7 s8" unfolding s8_def by (rule async_step.lock) (simp_all add: d)
  ultimately have "async_reachable s8"
    by (meson async_reachable.intros)
  moreover have "s8 = example_state"
    by (simp add: d example_state_def fun_eq_iff)
  ultimately show ?thesis by simp
qed

theorem asyncqueue_linearisable_witness:
  "explains (aq_log example_state) [] (queue_list (aq_q example_state))"
  using asyncqueue_linearisable [OF example_state_reachable] by simp


end
