(* ===== verification/LinkedLst.thy ===== *)
theory LinkedLst
  imports Prelude
begin

text \<open>
  The doubly linked list of \<open>utility/LinkedList/LinkedList.c\<close> and its iterator. The nodes of a
  list live in an explicit heap, a map from addresses to the struct \<open>_LinkedNode\<close>;
  \<open>ll_brk\<close> is the first address \<open>malloc\<close> has not given out. Following NULL or a freed
  node is a fault. Loops and the recursive search run on fuel \<open>ll_brk\<close>: a list never has
  more nodes, so the fuel is never used up on a well-formed list. \<open>dseg\<close> says that a heap holds
  a doubly linked segment, \<open>iter_at\<close> that an iterator stands between two halves of a list.
\<close>

section \<open>Nodes\<close>

record 'a node =
  n_forward :: "nat option"
  n_back :: "nat option"
  n_element :: "'a ptr"

type_synonym 'a heap = "nat \<Rightarrow> 'a node option"

record 'a linkedlist =
  ll_heap :: "'a heap"
  ll_brk :: nat
  ll_root :: "nat option"
  ll_tail :: "nat option"
  ll_size :: int

fun deref :: "'a heap \<Rightarrow> nat option \<Rightarrow> 'a node outcome" where
  "deref h None = Inl NullDeref"
| "deref h (Some a) = (case h a of None \<Rightarrow> Inl WildDeref | Some n \<Rightarrow> Inr n)"

fun store :: "nat option \<Rightarrow> ('a node \<Rightarrow> 'a node) \<Rightarrow> 'a linkedlist \<Rightarrow> 'a linkedlist outcome" where
  "store None f ll = Inl NullDeref"
| "store (Some a) f ll = (case ll_heap ll a of
     None \<Rightarrow> Inl WildDeref
   | Some n \<Rightarrow> Inr (ll\<lparr>ll_heap := (ll_heap ll)(a \<mapsto> f n)\<rparr>))"

definition set_forward :: "nat option \<Rightarrow> nat option \<Rightarrow> 'a linkedlist \<Rightarrow> 'a linkedlist outcome" where
  "set_forward p v = store p (\<lambda>n. n\<lparr>n_forward := v\<rparr>)"

definition set_back :: "nat option \<Rightarrow> nat option \<Rightarrow> 'a linkedlist \<Rightarrow> 'a linkedlist outcome" where
  "set_back p v = store p (\<lambda>n. n\<lparr>n_back := v\<rparr>)"

definition default_search :: "'a ptr \<Rightarrow> 'a ptr \<Rightarrow> bool" where
  "default_search element key = (element = key)"

definition linkednode_new ::
    "nat option \<Rightarrow> nat option \<Rightarrow> 'a ptr \<Rightarrow> 'a linkedlist \<Rightarrow> nat \<times> 'a linkedlist" where
  "linkednode_new forward back element ll =
     (ll_brk ll, ll\<lparr>ll_heap := (ll_heap ll)(ll_brk ll \<mapsto>
        \<lparr>n_forward = forward, n_back = back, n_element = element\<rparr>), ll_brk := Suc (ll_brk ll)\<rparr>)"

definition linkednode_destroy :: "nat option \<Rightarrow> 'a linkedlist \<Rightarrow> 'a linkedlist outcome" where
  "linkednode_destroy p ll = (case p of
     None \<Rightarrow> Inr ll
   | Some a \<Rightarrow> if ll_heap ll a = None then Inl WildDeref
               else Inr (ll\<lparr>ll_heap := (ll_heap ll)(a := None)\<rparr>))"

fun linkednode_search ::
    "nat \<Rightarrow> 'a heap \<Rightarrow> nat option \<Rightarrow> ('a ptr \<Rightarrow> 'k \<Rightarrow> bool) \<Rightarrow> 'k \<Rightarrow> nat option outcome" where
  "linkednode_search 0 h n f key = Inl NoReturn"
| "linkednode_search (Suc k) h n f key =
     bindE (deref h n) (\<lambda>nd.
       if f (n_element nd) key then Inr n
       else if n_forward nd \<noteq> None then linkednode_search k h (n_forward nd) f key
       else Inr None)"

definition linkednode_unlink :: "nat option \<Rightarrow> 'a linkedlist \<Rightarrow> 'a linkedlist outcome" where
  "linkednode_unlink n ll =
     (if n = None then Inr ll
      else bindE (deref (ll_heap ll) n) (\<lambda>nd.
        if n_back nd = None \<and> n_forward nd = None then Inr ll
        else if n_back nd \<noteq> None \<and> n_forward nd \<noteq> None then
          bindE (set_forward (n_back nd) (n_forward nd) ll) (\<lambda>ll1.
          bindE (deref (ll_heap ll1) n) (\<lambda>nd1.
            set_back (n_forward nd1) (n_back nd1) ll1))
        else if n_back nd = None then set_back (n_forward nd) None ll
        else set_forward (n_back nd) None ll))"

definition linkednode_remove ::
    "nat option \<Rightarrow> ('a ptr \<Rightarrow> 'k \<Rightarrow> bool) \<Rightarrow> 'k \<Rightarrow> 'a linkedlist \<Rightarrow> (nat option \<times> 'a linkedlist) outcome" where
  "linkednode_remove root f element ll =
     bindE (linkednode_search (ll_brk ll) (ll_heap ll) root f element) (\<lambda>n.
     bindE (linkednode_unlink n ll) (\<lambda>ll1. Inr (n, ll1)))"

section \<open>List operations\<close>

text \<open>\<open>linkedlist_new\<close> does not initialise \<open>tail\<close>.\<close>

definition linkedlist_new :: "'a linkedlist" where
  "linkedlist_new = \<lparr>ll_heap = (\<lambda>_. None), ll_brk = 0, ll_root = None, ll_tail = undefined, ll_size = 0\<rparr>"

fun free_from :: "nat \<Rightarrow> nat option \<Rightarrow> 'a linkedlist \<Rightarrow> 'a linkedlist outcome" where
  "free_from k None ll = Inr ll"
| "free_from 0 (Some a) ll = Inl NoReturn"
| "free_from (Suc k) (Some a) ll =
     bindE (deref (ll_heap ll) (Some a)) (\<lambda>nd.
     bindE (linkednode_destroy (Some a) ll) (\<lambda>ll1. free_from k (n_forward nd) ll1))"

text \<open>What is left of the heap after \<open>linkedlist_destroy\<close>.\<close>

definition linkedlist_destroy :: "'a linkedlist \<Rightarrow> 'a heap outcome" where
  "linkedlist_destroy ll =
     (if ll_root ll \<noteq> None
      then bindE (free_from (ll_brk ll) (ll_root ll) ll) (\<lambda>ll1. Inr (ll_heap ll1))
      else Inr (ll_heap ll))"

definition linkedlist_append :: "'a linkedlist \<Rightarrow> 'a ptr \<Rightarrow> 'a linkedlist outcome" where
  "linkedlist_append ll element =
     (if ll_root ll = None then
        let (n, ll1) = linkednode_new None None element ll
        in Inr (ll1\<lparr>ll_root := Some n, ll_tail := Some n, ll_size := ll_size ll1 + 1\<rparr>)
      else
        let (n, ll1) = linkednode_new None (ll_tail ll) element ll
        in bindE (set_forward (ll_tail ll1) (Some n) ll1) (\<lambda>ll2.
             Inr (ll2\<lparr>ll_tail := Some n, ll_size := ll_size ll2 + 1\<rparr>)))"

definition linkedlist_remove_sf ::
    "'a linkedlist \<Rightarrow> ('a ptr \<Rightarrow> 'k \<Rightarrow> bool) \<Rightarrow> 'k \<Rightarrow> ('a ptr \<times> 'a linkedlist) outcome" where
  "linkedlist_remove_sf ll f element =
     (if ll_root ll = None then Inr (None, ll)
      else bindE (linkednode_remove (ll_root ll) f element ll) (\<lambda>(ln, ll1).
        if ln = None then Inr (None, ll1)
        else bindE (deref (ll_heap ll1) ln) (\<lambda>nd.
          let ll2 = (if n_back nd = None then ll1\<lparr>ll_root := n_forward nd\<rparr> else ll1);
              ll3 = (if n_forward nd = None then ll2\<lparr>ll_tail := n_back nd\<rparr> else ll2)
          in bindE (linkednode_destroy ln ll3) (\<lambda>ll4.
               Inr (n_element nd, ll4\<lparr>ll_size := ll_size ll4 - 1\<rparr>)))))"

definition linkedlist_remove ::
    "'a linkedlist \<Rightarrow> ('a ptr \<Rightarrow> 'a ptr \<Rightarrow> bool) option \<Rightarrow> 'a ptr \<Rightarrow> ('a ptr \<times> 'a linkedlist) outcome" where
  "linkedlist_remove ll f element =
     linkedlist_remove_sf ll (case f of None \<Rightarrow> default_search | Some g \<Rightarrow> g) element"

definition linkedlist_get_sf ::
    "'a linkedlist \<Rightarrow> ('a ptr \<Rightarrow> 'k \<Rightarrow> bool) \<Rightarrow> 'k \<Rightarrow> 'a ptr outcome" where
  "linkedlist_get_sf ll f element =
     (if ll_root ll = None then Inr None
      else bindE (linkednode_search (ll_brk ll) (ll_heap ll) (ll_root ll) f element) (\<lambda>ln.
        if ln = None then Inr None
        else bindE (deref (ll_heap ll) ln) (\<lambda>nd. Inr (n_element nd))))"

definition linkedlist_get ::
    "'a linkedlist \<Rightarrow> ('a ptr \<Rightarrow> 'a ptr \<Rightarrow> bool) option \<Rightarrow> 'a ptr \<Rightarrow> 'a ptr outcome" where
  "linkedlist_get ll f element =
     linkedlist_get_sf ll (case f of None \<Rightarrow> default_search | Some g \<Rightarrow> g) element"

definition linkedlist_length :: "'a linkedlist \<Rightarrow> int" where
  "linkedlist_length ll = ll_size ll"

fun apply_from :: "nat \<Rightarrow> 'a heap \<Rightarrow> nat option \<Rightarrow> ('a ptr \<Rightarrow> 's \<Rightarrow> 's) \<Rightarrow> 's \<Rightarrow> 's outcome" where
  "apply_from k h None func s = Inr s"
| "apply_from 0 h (Some a) func s = Inl NoReturn"
| "apply_from (Suc k) h (Some a) func s =
     bindE (deref h (Some a)) (\<lambda>nd. apply_from k h (n_forward nd) func (func (n_element nd) s))"

definition linkedlist_apply :: "'a linkedlist \<Rightarrow> ('a ptr \<Rightarrow> 's \<Rightarrow> 's) \<Rightarrow> 's \<Rightarrow> 's outcome" where
  "linkedlist_apply ll func s = apply_from (ll_brk ll) (ll_heap ll) (ll_root ll) func s"

definition linkedlist_remove_all :: "'a linkedlist \<Rightarrow> 'a linkedlist outcome" where
  "linkedlist_remove_all ll =
     bindE (free_from (ll_brk ll) (ll_root ll) ll) (\<lambda>ll1.
       Inr (ll1\<lparr>ll_root := None, ll_tail := None, ll_size := 0\<rparr>))"

section \<open>The iterator\<close>

record list_iterator =
  it_ln :: "nat option"
  it_index :: int

definition linkedlistiterator_new :: list_iterator where
  "linkedlistiterator_new = \<lparr>it_ln = None, it_index = 0\<rparr>"

definition iter_element ::
    "'a linkedlist \<Rightarrow> list_iterator \<Rightarrow> ('a ptr \<times> list_iterator) outcome" where
  "iter_element ll it = bindE (deref (ll_heap ll) (it_ln it)) (\<lambda>nd. Inr (n_element nd, it))"

definition linkedlistiterator_next ::
    "'a linkedlist \<Rightarrow> list_iterator \<Rightarrow> ('a ptr \<times> list_iterator) outcome" where
  "linkedlistiterator_next ll it =
     (if it_ln it = None \<and> ll_root ll \<noteq> None
      then iter_element ll \<lparr>it_ln = ll_root ll, it_index = 0\<rparr>
      else if it_ln it \<noteq> None
      then bindE (deref (ll_heap ll) (it_ln it)) (\<lambda>nd.
             if n_forward nd \<noteq> None
             then iter_element ll \<lparr>it_ln = n_forward nd, it_index = it_index it + 1\<rparr>
             else Inr (None, it))
      else Inr (None, it))"

definition linkedlistiterator_current :: "'a linkedlist \<Rightarrow> list_iterator \<Rightarrow> 'a ptr outcome" where
  "linkedlistiterator_current ll it =
     (if it_ln it \<noteq> None then bindE (deref (ll_heap ll) (it_ln it)) (\<lambda>nd. Inr (n_element nd))
      else Inr None)"

definition linkedlistiterator_previous ::
    "'a linkedlist \<Rightarrow> list_iterator \<Rightarrow> ('a ptr \<times> list_iterator) outcome" where
  "linkedlistiterator_previous ll it =
     (if it_ln it = None \<and> ll_tail ll \<noteq> None
      then iter_element ll \<lparr>it_ln = ll_tail ll, it_index = ll_size ll - 1\<rparr>
      else bindE (deref (ll_heap ll) (it_ln it)) (\<lambda>nd.
             if n_back nd \<noteq> None
             then iter_element ll \<lparr>it_ln = n_back nd, it_index = it_index it - 1\<rparr>
             else Inr (None, it)))"

definition linkedlistiterator_insert_before ::
    "'a linkedlist \<Rightarrow> list_iterator \<Rightarrow> 'a ptr \<Rightarrow> (bool \<times> 'a linkedlist \<times> list_iterator) outcome" where
  "linkedlistiterator_insert_before ll it element =
     (if it_ln it \<noteq> None
      then bindE (deref (ll_heap ll) (it_ln it)) (\<lambda>nd.
        bindE (if n_back nd = None
               then let (n, ll1) = linkednode_new (it_ln it) None element ll
                    in bindE (set_back (it_ln it) (Some n) ll1) (\<lambda>ll2. Inr (ll2\<lparr>ll_root := Some n\<rparr>))
               else let (n, ll1) = linkednode_new (it_ln it) (n_back nd) element ll
                    in bindE (set_forward (n_back nd) (Some n) ll1) (\<lambda>ll2. set_back (it_ln it) (Some n) ll2))
          (\<lambda>ll3. Inr (True, ll3\<lparr>ll_size := ll_size ll3 + 1\<rparr>, it\<lparr>it_index := it_index it + 1\<rparr>)))
      else Inr (False, ll, it))"

definition linkedlistiterator_insert_after ::
    "'a linkedlist \<Rightarrow> list_iterator \<Rightarrow> 'a ptr \<Rightarrow> (bool \<times> 'a linkedlist \<times> list_iterator) outcome" where
  "linkedlistiterator_insert_after ll it element =
     (if it_ln it \<noteq> None
      then bindE (deref (ll_heap ll) (it_ln it)) (\<lambda>nd.
        bindE (if n_forward nd = None
               then let (n, ll1) = linkednode_new None (it_ln it) element ll
                    in bindE (set_forward (it_ln it) (Some n) ll1) (\<lambda>ll2. Inr (ll2\<lparr>ll_tail := Some n\<rparr>))
               else let (n, ll1) = linkednode_new (n_forward nd) (it_ln it) element ll
                    in bindE (set_back (n_forward nd) (Some n) ll1) (\<lambda>ll2. set_forward (it_ln it) (Some n) ll2))
          (\<lambda>ll3. Inr (True, ll3\<lparr>ll_size := ll_size ll3 + 1\<rparr>, it)))
      else Inr (False, ll, it))"

definition linkedlistiterator_remove ::
    "'a linkedlist \<Rightarrow> list_iterator \<Rightarrow> ('a ptr \<times> 'a linkedlist \<times> list_iterator) outcome" where
  "linkedlistiterator_remove ll it =
     (if it_ln it \<noteq> None
      then bindE (deref (ll_heap ll) (it_ln it)) (\<lambda>toRemove.
        bindE (linkednode_unlink (it_ln it) ll) (\<lambda>ll1.
        bindE (deref (ll_heap ll1) (it_ln it)) (\<lambda>nd.
          let ll2 = (if n_back nd = None then ll1\<lparr>ll_root := n_forward nd\<rparr> else ll1);
              ll3 = (if n_forward nd = None then ll2\<lparr>ll_tail := n_back nd\<rparr> else ll2)
          in bindE (linkednode_destroy (it_ln it) ll3) (\<lambda>ll4.
               Inr (n_element nd, ll4\<lparr>ll_size := ll_size ll4 - 1\<rparr>,
                    it\<lparr>it_ln := n_back toRemove, it_index := it_index it - 1\<rparr>)))))
      else Inr (None, ll, it))"

definition linkedlistiterator_index :: "list_iterator \<Rightarrow> int" where
  "linkedlistiterator_index it = it_index it"

definition linkedlistiterator_reset :: "list_iterator \<Rightarrow> list_iterator" where
  "linkedlistiterator_reset it = it\<lparr>it_ln := None\<rparr>"

section \<open>Segments of the heap\<close>

fun first_of :: "nat list \<Rightarrow> nat option \<Rightarrow> nat option" where
  "first_of [] f = f"
| "first_of (a # as) f = Some a"

fun last_of :: "nat option \<Rightarrow> nat list \<Rightarrow> nat option" where
  "last_of b [] = b"
| "last_of b (a # as) = last_of (Some a) as"

fun dseg :: "'a heap \<Rightarrow> nat option \<Rightarrow> nat list \<Rightarrow> 'a ptr list \<Rightarrow> nat option \<Rightarrow> bool" where
  "dseg h b [] [] f \<longleftrightarrow> True"
| "dseg h b (a # as) (x # xs) f \<longleftrightarrow>
     h a = Some \<lparr>n_forward = first_of as f, n_back = b, n_element = x\<rparr> \<and> dseg h (Some a) as xs f"
| "dseg h b _ _ f \<longleftrightarrow> False"

definition ll_rep :: "'a linkedlist \<Rightarrow> nat list \<Rightarrow> 'a ptr list \<Rightarrow> bool" where
  "ll_rep ll as xs \<longleftrightarrow> dseg (ll_heap ll) None as xs None
     \<and> ll_root ll = first_of as None \<and> (as \<noteq> [] \<longrightarrow> ll_tail ll = last_of None as)
     \<and> ll_size ll = int (length xs) \<and> distinct as \<and> dom (ll_heap ll) = set as
     \<and> (\<forall>a \<in> set as. a < ll_brk ll)"

definition linkedlist_ok :: "'a linkedlist \<Rightarrow> bool" where
  "linkedlist_ok ll \<longleftrightarrow> (\<exists>as xs. ll_rep ll as xs)"

text \<open>The contents are what \<open>linkedlist_apply\<close> visits.\<close>

definition linkedlist_elems :: "'a linkedlist \<Rightarrow> 'a ptr list" where
  "linkedlist_elems ll = (case linkedlist_apply ll (\<lambda>x xs. xs @ [x]) [] of Inl e \<Rightarrow> [] | Inr xs \<Rightarrow> xs)"

lemma last_of_append [simp]: "last_of b (as @ bs) = last_of (last_of b as) bs"
  by (induction as arbitrary: b) auto

lemma first_of_append [simp]: "first_of (as @ bs) f = first_of as (first_of bs f)"
  by (cases as) auto

lemma first_of_None [simp]: "first_of as f = None \<longleftrightarrow> as = [] \<and> f = None"
  by (cases as) auto

lemma last_of_None [simp]: "last_of b as = None \<longleftrightarrow> as = [] \<and> b = None"
  by (induction as arbitrary: b) auto

lemma dseg_length: "dseg h b as xs f \<Longrightarrow> length as = length xs"
  by (induction h b as xs f rule: dseg.induct) auto

lemma dseg_append [simp]:
  "length as = length xs \<Longrightarrow> dseg h b (as @ bs) (xs @ ys) f
    \<longleftrightarrow> dseg h b as xs (first_of bs f) \<and> dseg h (last_of b as) bs ys f"
  by (induction as xs arbitrary: b rule: list_induct2) auto

lemma dseg_upd [simp]: "a \<notin> set as \<Longrightarrow> dseg (h(a := v)) b as xs f = dseg h b as xs f"
  by (induction h b as xs f rule: dseg.induct) auto

lemma ll_rep_fuel: "ll_rep ll as xs \<Longrightarrow> length as \<le> ll_brk ll"
proof -
  assume r: "ll_rep ll as xs"
  then have "set as \<subseteq> {..<ll_brk ll}" by (auto simp: ll_rep_def)
  then have "card (set as) \<le> ll_brk ll" by (metis card_lessThan card_mono finite_lessThan)
  with r show ?thesis by (simp add: ll_rep_def distinct_card)
qed

lemma apply_from_dseg:
  "dseg h b as xs None \<Longrightarrow> length as \<le> k \<Longrightarrow>
    apply_from k h (first_of as None) func s = Inr (fold func xs s)"
proof (induction as arbitrary: b xs k s)
  case Nil
  then show ?case by (cases xs) auto
next
  case (Cons a as)
  then obtain x ys k' where [simp]: "xs = x # ys" "k = Suc k'" by (cases xs; cases k) auto
  from Cons.prems Cons.IH [of "Some a" ys k'] show ?case by simp
qed

lemma linkedlist_apply_rep:
  "ll_rep ll as xs \<Longrightarrow> linkedlist_apply ll func s = Inr (fold func xs s)"
  using apply_from_dseg [of "ll_heap ll" None as xs "ll_brk ll" func s] ll_rep_fuel [of ll as xs]
  by (simp add: linkedlist_apply_def ll_rep_def)

lemma linkedlist_elems_rep: "ll_rep ll as xs \<Longrightarrow> linkedlist_elems ll = xs"
proof -
  have "fold (\<lambda>x xs. xs @ [x]) xs ys = ys @ xs" for xs ys :: "'a ptr list"
    by (induction xs arbitrary: ys) auto
  then show "ll_rep ll as xs \<Longrightarrow> linkedlist_elems ll = xs"
    by (simp add: linkedlist_elems_def linkedlist_apply_rep)
qed

lemma linkedlist_ok_rep: "linkedlist_ok ll \<Longrightarrow> \<exists>as. ll_rep ll as (linkedlist_elems ll)"
  by (auto simp: linkedlist_ok_def linkedlist_elems_rep)

lemma linkedlist_rep_ok: "ll_rep ll as xs \<Longrightarrow> linkedlist_ok ll \<and> linkedlist_elems ll = xs"
  by (auto simp: linkedlist_ok_def linkedlist_elems_rep)

section \<open>Every operation on a represented list\<close>

lemma ll_rep_node:
  "ll_rep ll (as @ a # bs) (xs @ x # ys) \<Longrightarrow> length as = length xs \<Longrightarrow>
    ll_heap ll a = Some \<lparr>n_forward = first_of bs None, n_back = last_of None as, n_element = x\<rparr>"
  by (simp add: ll_rep_def)

lemma ll_rep_new: "ll_rep linkedlist_new [] []"
  by (simp add: ll_rep_def linkedlist_new_def)

lemma ll_rep_length: "ll_rep ll as xs \<Longrightarrow> length as = length xs"
  by (auto simp: ll_rep_def dest: dseg_length)

lemma ll_rep_append:
  assumes "ll_rep ll as xs"
  shows "\<exists>ll'. linkedlist_append ll x = Inr ll' \<and> ll_rep ll' (as @ [ll_brk ll]) (xs @ [x])"
proof (cases as rule: rev_cases)
  case Nil
  with assms ll_rep_length [OF assms] show ?thesis
    by (simp add: ll_rep_def linkedlist_append_def linkednode_new_def)
next
  case (snoc bs b)
  with ll_rep_length [OF assms] obtain ys y where xs: "xs = ys @ [y]" "length bs = length ys"
    by (cases xs rule: rev_cases) auto
  have new: "ll_brk ll \<notin> set as" using assms by (auto simp: ll_rep_def)
  with snoc xs assms have "ll_heap ll b = Some \<lparr>n_forward = None, n_back = last_of None bs, n_element = y\<rparr>"
    "ll_root ll \<noteq> None" "ll_tail ll = Some b" "b \<noteq> ll_brk ll"
    by (simp_all add: ll_rep_def)
  then show ?thesis
    using snoc xs assms new
    by (auto simp: ll_rep_def linkedlist_append_def linkednode_new_def set_forward_def)
qed

lemma dom_upd_Some: "h a = Some n \<Longrightarrow> dom (h(a \<mapsto> v)) = dom h"
  by auto

lemma unlink_rep:
  assumes "ll_rep ll (as @ a # bs) (xs @ x # ys)" "length as = length xs"
  shows "\<exists>h. linkednode_unlink (Some a) ll = Inr (ll\<lparr>ll_heap := h\<rparr>)
    \<and> h a = ll_heap ll a \<and> dseg h None as xs (first_of bs None)
    \<and> dseg h (last_of None as) bs ys None \<and> dom h = set (as @ a # bs)"
proof -
  let ?H = "ll_heap ll"
  have len: "length bs = length ys" using ll_rep_length [OF assms(1)] assms(2) by simp
  have d: "dseg ?H None as xs (Some a)" "dseg ?H (Some a) bs ys None"
    "?H a = Some \<lparr>n_forward = first_of bs None, n_back = last_of None as, n_element = x\<rparr>"
    "dom ?H = set (as @ a # bs)" "distinct (as @ a # bs)"
    using assms by (simp_all add: ll_rep_def)
  show ?thesis
  proof (cases as rule: rev_cases)
    case Nil
    show ?thesis
    proof (cases bs)
      case Nil
      with \<open>as = []\<close> assms len d show ?thesis
        by (intro exI [of _ ?H]) (simp add: linkednode_unlink_def)
    next
      case (Cons b cs)
      with len obtain y zs where y: "ys = y # zs" by (cases ys) auto
      let ?n = "\<lparr>n_forward = first_of cs None, n_back = None, n_element = y\<rparr>"
      have b: "?H b = Some (?n\<lparr>n_back := Some a\<rparr>)" using d Cons y by simp
      with \<open>as = []\<close> Cons y assms d show ?thesis
        by (intro exI [of _ "?H(b \<mapsto> ?n)"])
          (simp add: linkednode_unlink_def set_back_def dom_upd_Some del: dom_fun_upd)
    qed
  next
    case (snoc cs c)
    with assms(2) obtain zs z where z: "xs = zs @ [z]" "length cs = length zs"
      by (cases xs rule: rev_cases) auto
    let ?m = "\<lparr>n_forward = first_of bs None, n_back = last_of None cs, n_element = z\<rparr>"
    have c: "?H c = Some (?m\<lparr>n_forward := Some a\<rparr>)" using d snoc z by simp
    show ?thesis
    proof (cases bs)
      case Nil
      with snoc z c assms len d show ?thesis
        by (intro exI [of _ "?H(c \<mapsto> ?m)"])
          (simp add: linkednode_unlink_def set_forward_def dom_upd_Some del: dom_fun_upd)
    next
      case (Cons b ds)
      with len obtain y us where y: "ys = y # us" by (cases ys) auto
      let ?n = "\<lparr>n_forward = first_of ds None, n_back = Some c, n_element = y\<rparr>"
      have b: "?H b = Some (?n\<lparr>n_back := Some a\<rparr>)" using d Cons y by simp
      have ne: "a \<noteq> c" "a \<noteq> b" "b \<noteq> c" using d Cons snoc by auto
      have dom: "dom (?H(c \<mapsto> ?m, b \<mapsto> ?n)) = set (as @ a # bs)"
        using d(4) b c ne by auto
      show ?thesis
        using snoc z Cons y b c ne d dom
        by (intro exI [of _ "?H(c \<mapsto> ?m, b \<mapsto> ?n)"])
          (simp add: linkednode_unlink_def set_forward_def set_back_def fun_upd_twist del: dom_fun_upd)
    qed
  qed
qed

lemma unlinked_rep:
  fixes as bs :: "nat list"
  assumes "ll_rep ll (as @ a # bs) (xs @ x # ys)" "length as = length xs"
    and "dseg h None as xs (first_of bs None)" "dseg h (last_of None as) bs ys None"
    and "dom h = set (as @ a # bs)"
  defines "ll1 \<equiv> ll\<lparr>ll_heap := h\<rparr>"
  defines "ll2 \<equiv> (if last_of None as = None then ll1\<lparr>ll_root := first_of bs None\<rparr> else ll1)"
  defines "ll3 \<equiv> (if first_of bs None = None then ll2\<lparr>ll_tail := last_of None as\<rparr> else ll2)"
  shows "\<exists>ll4. linkednode_destroy (Some a) ll3 = Inr ll4
    \<and> ll_rep (ll4\<lparr>ll_size := ll_size ll4 - 1\<rparr>) (as @ bs) (xs @ ys)"
proof -
  have heap: "ll_heap ll3 = h" by (simp add: ll3_def ll2_def ll1_def)
  moreover have "h a \<noteq> None" using assms(5) by auto
  ultimately have destroy: "linkednode_destroy (Some a) ll3 = Inr (ll3\<lparr>ll_heap := h(a := None)\<rparr>)"
    by (simp add: linkednode_destroy_def)
  have a: "a \<notin> set as" "a \<notin> set bs" "distinct (as @ bs)"
    using assms(1) by (auto simp: ll_rep_def)
  have "dseg (h(a := None)) None (as @ bs) (xs @ ys) None"
    using assms(2-4) a by simp
  moreover have "dom (h(a := None)) = set (as @ bs)"
    using a assms(5) by auto
  moreover have "ll_root ll3 = first_of (as @ bs) None"
    using assms(1) by (cases as) (simp_all add: ll3_def ll2_def ll1_def ll_rep_def)
  moreover have "as @ bs \<noteq> [] \<longrightarrow> ll_tail ll3 = last_of None (as @ bs)"
    using assms(1) by (cases bs) (simp_all add: ll3_def ll2_def ll1_def ll_rep_def)
  moreover have "ll_size ll3 - 1 = int (length (xs @ ys))" "\<forall>c \<in> set (as @ bs). c < ll_brk ll3"
    using assms(1) by (simp_all add: ll3_def ll2_def ll1_def ll_rep_def)
  ultimately show ?thesis using destroy a(3) by (simp add: ll_rep_def)
qed

lemma search_dseg:
  "dseg h b as xs None \<Longrightarrow> as \<noteq> [] \<Longrightarrow> length as \<le> k \<Longrightarrow>
    linkednode_search k h (first_of as None) f key
    = Inr (map_option (\<lambda>i. as ! i) (first_index (\<lambda>x. f x key) xs))"
proof (induction as arbitrary: b xs k)
  case Nil
  then show ?case by simp
next
  case (Cons a as)
  then obtain x ys k' where [simp]: "xs = x # ys" "k = Suc k'" by (cases xs; cases k) auto
  show ?case
  proof (cases as)
    case Nil
    with Cons.prems show ?thesis by (cases ys) auto
  next
    case (Cons c cs)
    with Cons.prems Cons.IH [of "Some a" ys k'] show ?thesis
      by (auto simp: option.map_comp o_def)
  qed
qed

lemma search_rep:
  "ll_rep ll as xs \<Longrightarrow> as \<noteq> [] \<Longrightarrow> linkednode_search (ll_brk ll) (ll_heap ll) (ll_root ll) f key
    = Inr (map_option (\<lambda>i. as ! i) (first_index (\<lambda>x. f x key) xs))"
  using search_dseg [of "ll_heap ll" None as xs "ll_brk ll" f key] ll_rep_fuel [of ll as xs]
  by (simp add: ll_rep_def)

text \<open>A position of the list splits the nodes and the elements alike.\<close>

lemma split_at:
  assumes "ll_rep ll as xs" "i < length xs"
  shows "\<exists>bs cs. as = bs @ as ! i # cs \<and> length bs = length (take i xs)
    \<and> ll_rep ll (bs @ as ! i # cs) (take i xs @ xs ! i # drop (Suc i) xs) \<and> bs = take i as \<and> cs = drop (Suc i) as"
proof -
  have len: "length as = length xs" by (rule ll_rep_length [OF assms(1)])
  have "as = take i as @ as ! i # drop (Suc i) as" "xs = take i xs @ xs ! i # drop (Suc i) xs"
    using assms(2) len by (simp_all add: id_take_nth_drop)
  with assms len show ?thesis by simp
qed

lemma ll_rep_remove:
  assumes "ll_rep ll as xs"
  shows "\<exists>ll' as'. linkedlist_remove_sf ll f key
      = Inr (case find (\<lambda>x. f x key) xs of None \<Rightarrow> None | Some x \<Rightarrow> x, ll')
    \<and> ll_rep ll' as' (remove_first (\<lambda>x. f x key) xs)"
proof (cases "as = []")
  case True
  moreover from this have "xs = []" using ll_rep_length [OF assms] by simp
  ultimately show ?thesis using assms
    by (auto simp: linkedlist_remove_sf_def ll_rep_def)
next
  case False
  then have root: "ll_root ll \<noteq> None" using assms by (simp add: ll_rep_def)
  show ?thesis
  proof (cases "first_index (\<lambda>x. f x key) xs")
    case None
    then have none: "\<forall>x \<in> set xs. \<not> f x key" by (simp add: first_index_None)
    have "find (\<lambda>x. f x key) xs = None" using none by (simp add: find_None_all)
    moreover have "linkedlist_remove_sf ll f key = Inr (None, ll)"
      using root search_rep [OF assms False, of f key] None
      by (simp add: linkedlist_remove_sf_def linkednode_remove_def linkednode_unlink_def)
    ultimately show ?thesis using assms none by auto
  next
    case (Some i)
    then have i: "i < length xs" by (auto dest: first_index_Some)
    from split_at [OF assms i] obtain bs cs where
      s: "as = bs @ as ! i # cs" "length bs = length (take i xs)"
      "ll_rep ll (bs @ as ! i # cs) (take i xs @ xs ! i # drop (Suc i) xs)" by metis
    from unlink_rep [OF s(3,2)] obtain h where
      h: "linkednode_unlink (Some (as ! i)) ll = Inr (ll\<lparr>ll_heap := h\<rparr>)"
      "h (as ! i) = ll_heap ll (as ! i)" "dseg h None bs (take i xs) (first_of cs None)"
      "dseg h (last_of None bs) cs (drop (Suc i) xs) None" "dom h = set (bs @ as ! i # cs)" by metis
    define ll2 where "ll2 = (if last_of None bs = None
      then ll\<lparr>ll_heap := h, ll_root := first_of cs None\<rparr> else ll\<lparr>ll_heap := h\<rparr>)"
    define ll3 where "ll3 = (if first_of cs None = None
      then ll2\<lparr>ll_tail := last_of None bs\<rparr> else ll2)"
    obtain ll4 where ll4: "linkednode_destroy (Some (as ! i)) ll3 = Inr ll4"
      "ll_rep (ll4\<lparr>ll_size := ll_size ll4 - 1\<rparr>) (bs @ cs) (take i xs @ drop (Suc i) xs)"
      using unlinked_rep [OF s(3,2) h(3,4,5)] unfolding ll3_def ll2_def by auto
    have "linkednode_remove (ll_root ll) f key ll = Inr (Some (as ! i), ll\<lparr>ll_heap := h\<rparr>)"
      using search_rep [OF assms False, of f key] Some h(1) by (simp add: linkednode_remove_def)
    then have "linkedlist_remove_sf ll f key = Inr (xs ! i, ll4\<lparr>ll_size := ll_size ll4 - 1\<rparr>)"
      using root h(2) ll_rep_node [OF s(3,2)] ll4(1) [unfolded ll3_def ll2_def]
      unfolding linkedlist_remove_sf_def Let_def
      by (cases "first_of cs None"; cases "last_of None bs") (auto simp del: first_of_None last_of_None)
    with ll4(2) Some show ?thesis
      by (auto simp: find_first_index remove_first_index)
  qed
qed

lemma linkedlist_get_rep:
  assumes "ll_rep ll as xs"
  shows "linkedlist_get_sf ll f key = Inr (case find (\<lambda>x. f x key) xs of None \<Rightarrow> None | Some x \<Rightarrow> x)"
proof (cases "as = []")
  case True
  with ll_rep_length [OF assms] assms show ?thesis
    by (simp add: linkedlist_get_sf_def ll_rep_def)
next
  case False
  then have root: "ll_root ll \<noteq> None" using assms by (simp add: ll_rep_def)
  show ?thesis
  proof (cases "first_index (\<lambda>x. f x key) xs")
    case None
    with root search_rep [OF assms False, of f key] show ?thesis
      by (simp add: linkedlist_get_sf_def find_first_index)
  next
    case (Some i)
    then have i: "i < length xs" by (auto dest: first_index_Some)
    from split_at [OF assms i] obtain bs cs where "length bs = length (take i xs)"
      "ll_rep ll (bs @ as ! i # cs) (take i xs @ xs ! i # drop (Suc i) xs)" by metis
    then have "ll_heap ll (as ! i)
        = Some \<lparr>n_forward = first_of cs None, n_back = last_of None bs, n_element = xs ! i\<rparr>"
      by (metis ll_rep_node)
    with root search_rep [OF assms False, of f key] Some show ?thesis
      by (auto simp: linkedlist_get_sf_def find_first_index)
  qed
qed

lemma free_from_dseg:
  "dseg (ll_heap ll) b as xs None \<Longrightarrow> distinct as \<Longrightarrow> length as \<le> k \<Longrightarrow>
    \<exists>ll'. free_from k (first_of as None) ll = Inr ll' \<and> ll_brk ll' = ll_brk ll
      \<and> ll_heap ll' = (\<lambda>a. if a \<in> set as then None else ll_heap ll a)"
proof (induction as arbitrary: ll b xs k)
  case Nil
  then show ?case by (cases xs) auto
next
  case (Cons a as)
  then obtain x ys k' where [simp]: "xs = x # ys" "k = Suc k'" by (cases xs; cases k) auto
  define ll1 where "ll1 = ll\<lparr>ll_heap := (ll_heap ll)(a := None)\<rparr>"
  have "dseg (ll_heap ll1) (Some a) as ys None"
    using Cons.prems by (simp add: ll1_def)
  with Cons.IH [of ll1 "Some a" ys k'] Cons.prems obtain ll' where
    "free_from k' (first_of as None) ll1 = Inr ll'" "ll_brk ll' = ll_brk ll1"
    "ll_heap ll' = (\<lambda>a. if a \<in> set as then None else ll_heap ll1 a)" by auto
  with Cons.prems show ?case
    by (auto simp: linkednode_destroy_def ll1_def fun_eq_iff)
qed

lemma free_rep:
  assumes "ll_rep ll as xs"
  shows "\<exists>ll'. free_from (ll_brk ll) (ll_root ll) ll = Inr ll' \<and> ll_brk ll' = ll_brk ll
    \<and> ll_heap ll' = (\<lambda>_. None)"
proof -
  have "\<exists>ll'. free_from (ll_brk ll) (first_of as None) ll = Inr ll' \<and> ll_brk ll' = ll_brk ll
      \<and> ll_heap ll' = (\<lambda>a. if a \<in> set as then None else ll_heap ll a)"
    by (rule free_from_dseg) (use assms ll_rep_fuel [OF assms] in \<open>auto simp: ll_rep_def\<close>)
  moreover have "(\<lambda>a. if a \<in> set as then None else ll_heap ll a) = (\<lambda>_. None)"
    using assms by (auto simp: ll_rep_def fun_eq_iff)
  ultimately show ?thesis using assms by (simp add: ll_rep_def)
qed

lemma ll_rep_remove_all:
  assumes "ll_rep ll as xs"
  shows "\<exists>ll'. linkedlist_remove_all ll = Inr ll' \<and> ll_rep ll' [] []"
proof -
  obtain ll' where "free_from (ll_brk ll) (ll_root ll) ll = Inr ll'" "ll_heap ll' = (\<lambda>_. None)"
    using free_rep [OF assms] by auto
  then show ?thesis by (simp add: linkedlist_remove_all_def ll_rep_def)
qed

lemma ll_rep_destroy:
  assumes "ll_rep ll as xs"
  shows "linkedlist_destroy ll = Inr (\<lambda>_. None)"
proof -
  obtain ll' where "free_from (ll_brk ll) (ll_root ll) ll = Inr ll'" "ll_heap ll' = (\<lambda>_. None)"
    using free_rep [OF assms] by auto
  moreover have "ll_heap ll = (\<lambda>_. None)" if "ll_root ll = None"
  proof -
    from that assms have "as = []" by (metis first_of_None ll_rep_def)
    with assms show ?thesis by (auto simp: ll_rep_def)
  qed
  ultimately show ?thesis by (auto simp: linkedlist_destroy_def)
qed

section \<open>The iterator between two halves of a list\<close>

text \<open>The elements \<open>ys\<close> have been passed, the last of them is current, \<open>zs\<close> are to come.\<close>

definition iter_at :: "'a linkedlist \<Rightarrow> list_iterator \<Rightarrow> 'a ptr list \<Rightarrow> 'a ptr list \<Rightarrow> bool" where
  "iter_at ll it ys zs \<longleftrightarrow> (\<exists>as bs. ll_rep ll (as @ bs) (ys @ zs) \<and> length as = length ys
     \<and> it_ln it = last_of None as \<and> (as \<noteq> [] \<longrightarrow> it_index it = int (length ys) - 1))"

lemma iter_at_new: "ll_rep ll as xs \<Longrightarrow> iter_at ll linkedlistiterator_new [] xs"
  unfolding iter_at_def by (rule exI [of _ "[]"]) (auto simp: linkedlistiterator_new_def)

lemma iter_at_reset: "iter_at ll it ys zs \<Longrightarrow> iter_at ll (linkedlistiterator_reset it) [] (ys @ zs)"
  unfolding iter_at_def linkedlistiterator_reset_def by fastforce

lemma iter_at_node:
  assumes "iter_at ll it (ys @ [y]) zs"
  obtains as a bs where "ll_rep ll (as @ a # bs) (ys @ y # zs)" "length as = length ys"
    "length bs = length zs" "it_ln it = Some a" "it_index it = int (length ys)"
    "ll_heap ll a = Some \<lparr>n_forward = first_of bs None, n_back = last_of None as, n_element = y\<rparr>"
proof -
  obtain cs bs where r: "ll_rep ll (cs @ bs) ((ys @ [y]) @ zs)" "length cs = length (ys @ [y])"
    "it_ln it = last_of None cs" "it_index it = int (length ys)"
    using assms by (auto simp: iter_at_def)
  moreover from r(2) obtain as a where "cs = as @ [a]" "length as = length ys"
    by (cases cs rule: rev_cases) auto
  ultimately show thesis
    using that [of as a bs] ll_rep_node [of ll as a bs ys y zs] ll_rep_length [OF r(1)] by simp
qed

lemma iter_at_start: "iter_at ll it [] zs \<Longrightarrow> it_ln it = None \<and> (\<exists>bs. ll_rep ll bs zs \<and> ll_root ll = first_of bs None)"
  by (auto simp: iter_at_def ll_rep_def)

lemma iter_at_current:
  "iter_at ll it ys zs \<Longrightarrow> linkedlistiterator_current ll it = Inr (if ys = [] then None else last ys)"
  by (cases ys rule: rev_cases)
    (auto simp: linkedlistiterator_current_def dest: iter_at_start elim!: iter_at_node)

lemma iter_at_next:
  assumes "iter_at ll it ys (z # zs)"
  shows "\<exists>it'. linkedlistiterator_next ll it = Inr (z, it') \<and> iter_at ll it' (ys @ [z]) zs"
proof -
  have next_rep: "iter_element ll \<lparr>it_ln = Some b, it_index = int (length ys)\<rparr>
        = Inr (z, \<lparr>it_ln = Some b, it_index = int (length ys)\<rparr>)
      \<and> iter_at ll \<lparr>it_ln = Some b, it_index = int (length ys)\<rparr> (ys @ [z]) zs"
    if "ll_rep ll (as @ b # bs) (ys @ z # zs)" "length as = length ys" for as b bs
  proof -
    have "iter_at ll \<lparr>it_ln = Some b, it_index = int (length ys)\<rparr> (ys @ [z]) zs"
      unfolding iter_at_def
      by (rule exI [of _ "as @ [b]"], rule exI [of _ bs]) (use that in simp)
    with ll_rep_node [OF that] show ?thesis by (simp add: iter_element_def)
  qed
  show ?thesis
  proof (cases ys rule: rev_cases)
    case Nil
    with assms obtain bs where r: "it_ln it = None" "ll_rep ll bs (z # zs)" "ll_root ll = first_of bs None"
      by (auto dest: iter_at_start)
    moreover from r(2) obtain b cs where "bs = b # cs"
      using ll_rep_length by (cases bs) force+
    ultimately show ?thesis
      using next_rep [of "[]" b cs] Nil by (simp add: linkedlistiterator_next_def)
  next
    case (snoc us u)
    with assms have "iter_at ll it (us @ [u]) (z # zs)" by simp
    then obtain as a bs where r: "ll_rep ll (as @ a # bs) (us @ u # z # zs)" "length as = length us"
      "length bs = length (z # zs)" "it_ln it = Some a" "it_index it = int (length us)"
      "ll_heap ll a = Some \<lparr>n_forward = first_of bs None, n_back = last_of None as, n_element = u\<rparr>"
      by (rule iter_at_node)
    moreover from r(3) obtain b cs where "bs = b # cs" by (cases bs) auto
    ultimately show ?thesis
      using next_rep [of "as @ [a]" b cs] snoc by (simp add: linkedlistiterator_next_def algebra_simps)
  qed
qed

lemma iter_at_end:
  assumes "iter_at ll it ys []"
  shows "linkedlistiterator_next ll it = Inr (None, it)"
proof (cases ys rule: rev_cases)
  case Nil
  with assms obtain bs where r: "it_ln it = None" "ll_rep ll bs []" "ll_root ll = first_of bs None"
    by (auto dest: iter_at_start)
  moreover from r(2) have "bs = []" using ll_rep_length by force
  ultimately show ?thesis by (simp add: linkedlistiterator_next_def)
next
  case (snoc us u)
  with assms have "iter_at ll it (us @ [u]) []" by simp
  then show ?thesis by (rule iter_at_node) (simp add: linkedlistiterator_next_def)
qed

lemma iter_at_previous:
  assumes "iter_at ll it (ys @ [y]) zs"
  shows "\<exists>it'. linkedlistiterator_previous ll it = Inr (if ys = [] then None else last ys, it')
    \<and> (if ys = [] then it' = it else iter_at ll it' ys (y # zs))"
proof -
  obtain as a bs where r: "ll_rep ll (as @ a # bs) (ys @ y # zs)" "length as = length ys"
    "length bs = length zs" "it_ln it = Some a" "it_index it = int (length ys)"
    "ll_heap ll a = Some \<lparr>n_forward = first_of bs None, n_back = last_of None as, n_element = y\<rparr>"
    using assms by (rule iter_at_node)
  show ?thesis
  proof (cases ys rule: rev_cases)
    case Nil
    with r show ?thesis by (simp add: linkedlistiterator_previous_def)
  next
    case (snoc us u)
    with r(2) obtain cs c where c: "as = cs @ [c]" "length cs = length us"
      by (cases as rule: rev_cases) auto
    let ?it = "\<lparr>it_ln = Some c, it_index = int (length us)\<rparr>"
    have "ll_rep ll (cs @ c # a # bs) (us @ u # y # zs)" using r(1) c snoc by simp
    then have "ll_heap ll c = Some \<lparr>n_forward = Some a, n_back = last_of None cs, n_element = u\<rparr>"
      using ll_rep_node [of ll cs c "a # bs" us u "y # zs"] c(2) by simp
    moreover have "iter_at ll ?it ys (y # zs)"
      unfolding iter_at_def
      by (rule exI [of _ as], rule exI [of _ "a # bs"]) (use r snoc c in simp)
    ultimately show ?thesis
      using r c snoc by (simp add: linkedlistiterator_previous_def iter_element_def)
  qed
qed

lemma iter_at_remove:
  assumes "iter_at ll it (ys @ [y]) zs"
  shows "\<exists>ll' it'. linkedlistiterator_remove ll it = Inr (y, ll', it') \<and> iter_at ll' it' ys zs"
proof -
  obtain as a bs where r: "ll_rep ll (as @ a # bs) (ys @ y # zs)" "length as = length ys"
    "length bs = length zs" "it_ln it = Some a" "it_index it = int (length ys)"
    "ll_heap ll a = Some \<lparr>n_forward = first_of bs None, n_back = last_of None as, n_element = y\<rparr>"
    using assms by (rule iter_at_node)
  from unlink_rep [OF r(1,2)] obtain h where
    h: "linkednode_unlink (Some a) ll = Inr (ll\<lparr>ll_heap := h\<rparr>)" "h a = ll_heap ll a"
    "dseg h None as ys (first_of bs None)" "dseg h (last_of None as) bs zs None" "dom h = set (as @ a # bs)"
    by metis
  define ll2 where "ll2 = (if last_of None as = None
    then ll\<lparr>ll_heap := h, ll_root := first_of bs None\<rparr> else ll\<lparr>ll_heap := h\<rparr>)"
  define ll3 where "ll3 = (if first_of bs None = None
    then ll2\<lparr>ll_tail := last_of None as\<rparr> else ll2)"
  obtain ll4 where ll4: "linkednode_destroy (Some a) ll3 = Inr ll4"
    "ll_rep (ll4\<lparr>ll_size := ll_size ll4 - 1\<rparr>) (as @ bs) (ys @ zs)"
    using unlinked_rep [OF r(1,2) h(3,4,5)] unfolding ll3_def ll2_def by auto
  let ?it = "it\<lparr>it_ln := last_of None as, it_index := it_index it - 1\<rparr>"
  have "linkedlistiterator_remove ll it = Inr (y, ll4\<lparr>ll_size := ll_size ll4 - 1\<rparr>, ?it)"
    using r(4,6) h(1,2) ll4(1) [unfolded ll3_def ll2_def]
    unfolding linkedlistiterator_remove_def Let_def
    by (cases "first_of bs None"; cases "last_of None as") (auto simp del: first_of_None last_of_None)
  moreover have "iter_at (ll4\<lparr>ll_size := ll_size ll4 - 1\<rparr>) ?it ys zs"
    unfolding iter_at_def by (rule exI [of _ as], rule exI [of _ bs]) (use r ll4(2) in simp)
  ultimately show ?thesis by blast
qed

lemma iter_at_insert_after:
  assumes "iter_at ll it (ys @ [y]) zs"
  shows "\<exists>ll'. linkedlistiterator_insert_after ll it x = Inr (True, ll', it) \<and> iter_at ll' it (ys @ [y]) (x # zs)"
proof -
  obtain as a bs where r: "ll_rep ll (as @ a # bs) (ys @ y # zs)" "length as = length ys"
    "length bs = length zs" "it_ln it = Some a" "it_index it = int (length ys)"
    "ll_heap ll a = Some \<lparr>n_forward = first_of bs None, n_back = last_of None as, n_element = y\<rparr>"
    using assms by (rule iter_at_node)
  let ?n = "ll_brk ll"
  have new: "?n \<noteq> a" "?n \<notin> set as" "?n \<notin> set bs" using r(1) by (auto simp: ll_rep_def)
  have "\<exists>ll'. linkedlistiterator_insert_after ll it x = Inr (True, ll', it)
    \<and> ll_rep ll' (as @ a # ?n # bs) (ys @ y # x # zs)"
  proof (cases bs)
    case Nil
    with r new show ?thesis
      by (auto simp: linkedlistiterator_insert_after_def linkednode_new_def set_forward_def ll_rep_def)
  next
    case (Cons b cs)
    with r(3) obtain z ws where "zs = z # ws" by (cases zs) auto
    moreover from this Cons r have "ll_heap ll b = Some \<lparr>n_forward = first_of cs None, n_back = Some a, n_element = z\<rparr>"
      by (simp add: ll_rep_def)
    moreover have "a \<noteq> b" "a \<notin> set as" "a \<notin> set cs" "b \<notin> set as" "b \<notin> set cs"
      using r(1) Cons by (auto simp: ll_rep_def)
    ultimately show ?thesis
      using r new Cons
      by (auto simp: linkedlistiterator_insert_after_def linkednode_new_def set_forward_def set_back_def
          ll_rep_def intro: less_SucI)
  qed
  then obtain ll' where l: "linkedlistiterator_insert_after ll it x = Inr (True, ll', it)"
    "ll_rep ll' (as @ a # ?n # bs) (ys @ y # x # zs)" by blast
  have "iter_at ll' it (ys @ [y]) (x # zs)"
    unfolding iter_at_def by (rule exI [of _ "as @ [a]"], rule exI [of _ "?n # bs"]) (use r l(2) in simp)
  with l(1) show ?thesis by blast
qed

lemma iter_at_insert_before:
  assumes "iter_at ll it (ys @ [y]) zs"
  shows "\<exists>ll' it'. linkedlistiterator_insert_before ll it x = Inr (True, ll', it') \<and> iter_at ll' it' (ys @ [x, y]) zs"
proof -
  obtain as a bs where r: "ll_rep ll (as @ a # bs) (ys @ y # zs)" "length as = length ys"
    "length bs = length zs" "it_ln it = Some a" "it_index it = int (length ys)"
    "ll_heap ll a = Some \<lparr>n_forward = first_of bs None, n_back = last_of None as, n_element = y\<rparr>"
    using assms by (rule iter_at_node)
  let ?n = "ll_brk ll" and ?it = "it\<lparr>it_index := it_index it + 1\<rparr>"
  have new: "?n \<noteq> a" "?n \<notin> set as" "?n \<notin> set bs" "a \<notin> set as" "a \<notin> set bs"
    using r(1) by (auto simp: ll_rep_def)
  have "\<exists>ll'. linkedlistiterator_insert_before ll it x = Inr (True, ll', ?it)
    \<and> ll_rep ll' (as @ ?n # a # bs) (ys @ x # y # zs)"
  proof (cases as rule: rev_cases)
    case Nil
    with r new show ?thesis
      by (auto simp: linkedlistiterator_insert_before_def linkednode_new_def set_back_def ll_rep_def)
  next
    case (snoc cs c)
    with r(2) obtain us u where "ys = us @ [u]" "length cs = length us" by (cases ys rule: rev_cases) auto
    moreover from this snoc r have "ll_heap ll c = Some \<lparr>n_forward = Some a, n_back = last_of None cs, n_element = u\<rparr>"
      by (simp add: ll_rep_def)
    moreover have "c \<notin> set cs" "c \<notin> set bs" "c \<noteq> a"
      using r(1) snoc by (auto simp: ll_rep_def)
    ultimately show ?thesis
      using r new snoc
      by (auto simp: linkedlistiterator_insert_before_def linkednode_new_def set_forward_def set_back_def
          ll_rep_def intro: less_SucI)
  qed
  then obtain ll' where l: "linkedlistiterator_insert_before ll it x = Inr (True, ll', ?it)"
    "ll_rep ll' (as @ ?n # a # bs) (ys @ x # y # zs)" by blast
  have "iter_at ll' ?it (ys @ [x, y]) zs"
    unfolding iter_at_def by (rule exI [of _ "as @ [?n, a]"], rule exI [of _ bs]) (use r l(2) in simp)
  with l(1) show ?thesis by blast
qed

lemma iter_at_previous_start:
  assumes "iter_at ll it [] zs" "zs \<noteq> []"
  shows "\<exists>it'. linkedlistiterator_previous ll it = Inr (last zs, it') \<and> iter_at ll it' zs []"
proof -
  obtain bs where r: "it_ln it = None" "ll_rep ll bs zs"
    using assms(1) by (auto dest: iter_at_start)
  from assms(2) obtain us u where u: "zs = us @ [u]" by (cases zs rule: rev_cases) auto
  with ll_rep_length [OF r(2)] obtain as a where a: "bs = as @ [a]" "length as = length us"
    by (cases bs rule: rev_cases) auto
  let ?it = "\<lparr>it_ln = Some a, it_index = ll_size ll - 1\<rparr>"
  have "ll_heap ll a = Some \<lparr>n_forward = None, n_back = last_of None as, n_element = u\<rparr>"
    using ll_rep_node [of ll as a "[]" us u "[]"] r(2) u a by simp
  moreover have "ll_tail ll = Some a" "ll_size ll = int (length zs)"
    using r(2) a by (simp_all add: ll_rep_def)
  moreover have "iter_at ll ?it zs []"
    unfolding iter_at_def
    by (rule exI [of _ bs], rule exI [of _ "[]"]) (use r(2) a u in \<open>simp add: ll_rep_def\<close>)
  ultimately show ?thesis
    using r(1) u by (simp add: linkedlistiterator_previous_def iter_element_def)
qed

section \<open>Writing through a stored pointer\<close>

text \<open>
  A client that looks an element up holds a pointer to it and may write through it. The list
  then holds the changed element: \<open>linkedlist_poke\<close> finds the node as \<open>linkedlist_get\<close> does
  and replaces what its element points to.
\<close>

definition linkedlist_poke ::
    "'a linkedlist \<Rightarrow> ('a ptr \<Rightarrow> 'k \<Rightarrow> bool) \<Rightarrow> 'k \<Rightarrow> ('a ptr \<Rightarrow> 'a ptr) \<Rightarrow> 'a linkedlist outcome" where
  "linkedlist_poke ll f key g =
     (if ll_root ll = None then Inr ll
      else bindE (linkednode_search (ll_brk ll) (ll_heap ll) (ll_root ll) f key) (\<lambda>ln.
        if ln = None then Inr ll else store ln (\<lambda>n. n\<lparr>n_element := g (n_element n)\<rparr>) ll))"

lemma update_first_index:
  "first_index P xs = Some i \<Longrightarrow> update_first P g xs = take i xs @ g (xs ! i) # drop (Suc i) xs"
  by (induction xs arbitrary: i) (auto split: if_splits)

lemma ll_rep_poke:
  assumes "ll_rep ll as xs"
  shows "\<exists>ll'. linkedlist_poke ll f key g = Inr ll' \<and> ll_rep ll' as (update_first (\<lambda>x. f x key) g xs)"
proof (cases "as = []")
  case True
  with ll_rep_length [OF assms] assms show ?thesis
    by (auto simp: linkedlist_poke_def ll_rep_def)
next
  case False
  then have root: "ll_root ll \<noteq> None" using assms by (simp add: ll_rep_def)
  show ?thesis
  proof (cases "first_index (\<lambda>x. f x key) xs")
    case None
    then have "\<forall>x \<in> set xs. \<not> f x key" by (simp add: first_index_None)
    with root search_rep [OF assms False, of f key] None assms show ?thesis
      by (simp add: linkedlist_poke_def)
  next
    case (Some i)
    then have i: "i < length xs" by (auto dest: first_index_Some)
    from split_at [OF assms i] obtain bs cs where
      s: "as = bs @ as ! i # cs" "length bs = length (take i xs)"
      "ll_rep ll (bs @ as ! i # cs) (take i xs @ xs ! i # drop (Suc i) xs)" by metis
    let ?h = "(ll_heap ll)(as ! i \<mapsto>
      \<lparr>n_forward = first_of cs None, n_back = last_of None bs, n_element = g (xs ! i)\<rparr>)"
    have p: "linkedlist_poke ll f key g = Inr (ll\<lparr>ll_heap := ?h\<rparr>)"
      using root search_rep [OF assms False, of f key] Some ll_rep_node [OF s(3,2)]
      by (auto simp: linkedlist_poke_def)
    have "dom ?h = dom (ll_heap ll)"
      using ll_rep_node [OF s(3,2)] by auto
    then have "ll_rep (ll\<lparr>ll_heap := ?h\<rparr>) (bs @ as ! i # cs) (take i xs @ g (xs ! i) # drop (Suc i) xs)"
      using s(2,3) by (simp add: ll_rep_def del: dom_fun_upd)
    with p Some s(1) show ?thesis by (metis update_first_index)
  qed
qed

text \<open>A client that iterates over the list writes through the pointer to every element.\<close>

definition linkedlist_poke_all :: "('a ptr \<Rightarrow> 'a ptr) \<Rightarrow> 'a linkedlist \<Rightarrow> 'a linkedlist" where
  "linkedlist_poke_all g ll =
     ll\<lparr>ll_heap := \<lambda>a. map_option (\<lambda>n. n\<lparr>n_element := g (n_element n)\<rparr>) (ll_heap ll a)\<rparr>"

lemma ll_rep_poke_all: "ll_rep ll as xs \<Longrightarrow> ll_rep (linkedlist_poke_all g ll) as (map g xs)"
proof -
  assume ll: "ll_rep ll as xs"
  let ?h = "\<lambda>a. map_option (\<lambda>n. n\<lparr>n_element := g (n_element n)\<rparr>) (ll_heap ll a)"
  have "dseg (ll_heap ll) b cs ys f \<Longrightarrow> dseg ?h b cs (map g ys) f" for b cs ys f
    by (induction "ll_heap ll" b cs ys f rule: dseg.induct) auto
  moreover have "dom ?h = dom (ll_heap ll)" by (auto simp: dom_def)
  ultimately show ?thesis using ll by (simp add: ll_rep_def linkedlist_poke_all_def)
qed

lemma linkedlist_poke_all_ok:
  "linkedlist_ok ll \<Longrightarrow> linkedlist_ok (linkedlist_poke_all g ll)
    \<and> linkedlist_elems (linkedlist_poke_all g ll) = map g (linkedlist_elems ll)"
  unfolding linkedlist_ok_def using ll_rep_poke_all linkedlist_elems_rep by blast

lemma linkedlist_length_elems:
  "linkedlist_ok ll \<Longrightarrow> linkedlist_length ll = int (length (linkedlist_elems ll))"
  using linkedlist_ok_rep by (force simp: linkedlist_length_def ll_rep_def)

lemma linkedlist_apply_elems:
  "linkedlist_ok ll \<Longrightarrow> linkedlist_apply ll func s = Inr (fold func (linkedlist_elems ll) s)"
proof -
  assume "linkedlist_ok ll"
  then obtain as where "ll_rep ll as (linkedlist_elems ll)" using linkedlist_ok_rep by blast
  then show ?thesis by (rule linkedlist_apply_rep)
qed

lemma linkedlist_remove_all_ok:
  "linkedlist_ok ll \<Longrightarrow> \<exists>ll'. linkedlist_remove_all ll = Inr ll' \<and> linkedlist_ok ll' \<and> linkedlist_elems ll' = []"
  using linkedlist_ok_rep ll_rep_remove_all linkedlist_rep_ok by blast

lemma linkedlist_destroy_ok: "linkedlist_ok ll \<Longrightarrow> linkedlist_destroy ll = Inr (\<lambda>_. None)"
  using linkedlist_ok_rep ll_rep_destroy by blast

lemma linkedlist_iter_new: "linkedlist_ok ll \<Longrightarrow> iter_at ll linkedlistiterator_new [] (linkedlist_elems ll)"
  using linkedlist_ok_rep iter_at_new by blast

section \<open>The interface\<close>

text \<open>
  What the hash table relies on in its buckets: no operation faults on a good list, and each
  acts on the sequence of elements as stated.
\<close>

locale bucket =
  fixes new :: "'l"
    and append :: "'l \<Rightarrow> 'a ptr \<Rightarrow> 'l outcome"
    and get :: "'l \<Rightarrow> ('a ptr \<Rightarrow> 'k \<Rightarrow> bool) \<Rightarrow> 'k \<Rightarrow> 'a ptr outcome"
    and remove :: "'l \<Rightarrow> ('a ptr \<Rightarrow> 'k \<Rightarrow> bool) \<Rightarrow> 'k \<Rightarrow> ('a ptr \<times> 'l) outcome"
    and poke :: "'l \<Rightarrow> ('a ptr \<Rightarrow> 'k \<Rightarrow> bool) \<Rightarrow> 'k \<Rightarrow> ('a ptr \<Rightarrow> 'a ptr) \<Rightarrow> 'l outcome"
    and elems :: "'l \<Rightarrow> 'a ptr list"
    and ok :: "'l \<Rightarrow> bool"
  assumes new_ok: "ok new" "elems new = []"
    and append_ok: "ok l \<Longrightarrow> \<exists>l'. append l x = Inr l' \<and> ok l' \<and> elems l' = elems l @ [x]"
    and get_ok: "ok l \<Longrightarrow> get l f k = Inr (case find (\<lambda>x. f x k) (elems l) of None \<Rightarrow> None | Some x \<Rightarrow> x)"
    and remove_ok: "ok l \<Longrightarrow> \<exists>l'. remove l f k
      = Inr (case find (\<lambda>x. f x k) (elems l) of None \<Rightarrow> None | Some x \<Rightarrow> x, l')
      \<and> ok l' \<and> elems l' = remove_first (\<lambda>x. f x k) (elems l)"
    and poke_ok: "ok l \<Longrightarrow> \<exists>l'. poke l f k g = Inr l' \<and> ok l' \<and> elems l' = update_first (\<lambda>x. f x k) g (elems l)"
begin

lemma append_get:
  assumes "ok l" "append l (Some x) = Inr l'" "\<forall>y \<in> set (elems l). \<not> f y k"
  shows "get l' f k = Inr (if f (Some x) k then Some x else None)"
proof -
  obtain l1 where "append l (Some x) = Inr l1" "ok l1" "elems l1 = elems l @ [Some x]"
    using append_ok [OF assms(1)] by blast
  moreover have "find (\<lambda>y. f y k) (elems l @ [Some x]) = (if f (Some x) k then Some (Some x) else None)"
    using assms(3) by (simp add: find_append find_None_all [THEN iffD2])
  ultimately show ?thesis using assms(2) by (auto simp: get_ok)
qed

lemma append_all_ok:
  "ok l \<Longrightarrow> \<exists>l'. foldE (\<lambda>x l. append l x) xs l = Inr l' \<and> ok l' \<and> elems l' = elems l @ xs"
proof (induction xs arbitrary: l)
  case Nil
  then show ?case by simp
next
  case (Cons x xs)
  obtain l1 where "append l x = Inr l1" "ok l1" "elems l1 = elems l @ [x]"
    using append_ok [OF Cons.prems] by blast
  with Cons.IH [of l1] show ?case by auto
qed

end

interpretation ll: bucket linkedlist_new linkedlist_append linkedlist_get_sf linkedlist_remove_sf
  linkedlist_poke linkedlist_elems linkedlist_ok
proof unfold_locales
  fix l :: "'a linkedlist" and x :: "'a ptr" and f :: "'a ptr \<Rightarrow> 'k \<Rightarrow> bool" and k g
  show "linkedlist_ok (linkedlist_new :: 'a linkedlist)" "linkedlist_elems (linkedlist_new :: 'a linkedlist) = []"
    using linkedlist_rep_ok [OF ll_rep_new] by auto
  assume "linkedlist_ok l"
  then obtain as where rep: "ll_rep l as (linkedlist_elems l)" using linkedlist_ok_rep by blast
  show "\<exists>l'. linkedlist_append l x = Inr l' \<and> linkedlist_ok l' \<and> linkedlist_elems l' = linkedlist_elems l @ [x]"
    using ll_rep_append [OF rep] linkedlist_rep_ok by blast
  show "linkedlist_get_sf l f k = Inr (case find (\<lambda>x. f x k) (linkedlist_elems l) of None \<Rightarrow> None | Some x \<Rightarrow> x)"
    by (rule linkedlist_get_rep [OF rep])
  show "\<exists>l'. linkedlist_remove_sf l f k
      = Inr (case find (\<lambda>x. f x k) (linkedlist_elems l) of None \<Rightarrow> None | Some x \<Rightarrow> x, l')
      \<and> linkedlist_ok l' \<and> linkedlist_elems l' = remove_first (\<lambda>x. f x k) (linkedlist_elems l)"
    using ll_rep_remove [OF rep, of f k] linkedlist_rep_ok by blast
  show "\<exists>l'. linkedlist_poke l f k g = Inr l' \<and> linkedlist_ok l'
      \<and> linkedlist_elems l' = update_first (\<lambda>x. f x k) g (linkedlist_elems l)"
    using ll_rep_poke [OF rep, of f k g] linkedlist_rep_ok by blast
qed

section \<open>Properties\<close>

datatype 'a list_op =
    Append "'a ptr"
  | Remove "('a ptr \<Rightarrow> 'a ptr \<Rightarrow> bool) option" "'a ptr"
  | Get "('a ptr \<Rightarrow> 'a ptr \<Rightarrow> bool) option" "'a ptr"
  | Size
  | Visit
  | RemoveAll

datatype 'a list_answer = Elem "'a ptr" | Num int | Seen "'a ptr list" | Unit

fun linked_call :: "'a list_op \<Rightarrow> 'a linkedlist \<Rightarrow> ('a list_answer \<times> 'a linkedlist) outcome" where
  "linked_call (Append x) ll = bindE (linkedlist_append ll x) (\<lambda>ll'. Inr (Unit, ll'))"
| "linked_call (Remove f k) ll = bindE (linkedlist_remove ll f k) (\<lambda>(e, ll'). Inr (Elem e, ll'))"
| "linked_call (Get f k) ll = bindE (linkedlist_get ll f k) (\<lambda>e. Inr (Elem e, ll))"
| "linked_call Size ll = Inr (Num (linkedlist_length ll), ll)"
| "linked_call Visit ll = bindE (linkedlist_apply ll (\<lambda>x xs. xs @ [x]) []) (\<lambda>xs. Inr (Seen xs, ll))"
| "linked_call RemoveAll ll = bindE (linkedlist_remove_all ll) (\<lambda>ll'. Inr (Unit, ll'))"

fun searcher :: "('a ptr \<Rightarrow> 'a ptr \<Rightarrow> bool) option \<Rightarrow> 'a ptr \<Rightarrow> 'a ptr \<Rightarrow> bool" where
  "searcher None k = (\<lambda>x. x = k)"
| "searcher (Some f) k = (\<lambda>x. f x k)"

fun plain_call :: "'a list_op \<Rightarrow> 'a ptr list \<Rightarrow> 'a list_answer \<times> 'a ptr list" where
  "plain_call (Append x) xs = (Unit, xs @ [x])"
| "plain_call (Remove f k) xs =
     (Elem (case find (searcher f k) xs of None \<Rightarrow> None | Some x \<Rightarrow> x), remove_first (searcher f k) xs)"
| "plain_call (Get f k) xs = (Elem (case find (searcher f k) xs of None \<Rightarrow> None | Some x \<Rightarrow> x), xs)"
| "plain_call Size xs = (Num (int (length xs)), xs)"
| "plain_call Visit xs = (Seen xs, xs)"
| "plain_call RemoveAll xs = (Unit, [])"

lemma searcher_case: "(\<lambda>x. (case f of None \<Rightarrow> default_search | Some g \<Rightarrow> g) x k) = searcher f k"
  by (cases f) (auto simp: default_search_def fun_eq_iff)

lemma linked_call_rep:
  assumes "ll_rep ll as xs"
  shows "\<exists>ll' as'. linked_call c ll = Inr (fst (plain_call c xs), ll') \<and> ll_rep ll' as' (snd (plain_call c xs))"
proof (cases c)
  case (Append x)
  with ll_rep_append [OF assms, of x] show ?thesis by auto
next
  case (Remove f k)
  obtain ll' as' where "linkedlist_remove_sf ll (case f of None \<Rightarrow> default_search | Some g \<Rightarrow> g) k
      = Inr (case find (searcher f k) xs of None \<Rightarrow> None | Some x \<Rightarrow> x, ll')"
    "ll_rep ll' as' (remove_first (searcher f k) xs)"
    using ll_rep_remove [OF assms, of "case f of None \<Rightarrow> default_search | Some g \<Rightarrow> g" k]
    unfolding searcher_case by blast
  with Remove show ?thesis by (auto simp: linkedlist_remove_def)
next
  case (Get f k)
  with linkedlist_get_rep [OF assms, of "case f of None \<Rightarrow> default_search | Some g \<Rightarrow> g" k] assms
  show ?thesis unfolding searcher_case by (auto simp: linkedlist_get_def)
next
  case Size
  with assms show ?thesis by (auto simp: linkedlist_length_def ll_rep_def)
next
  case Visit
  have "fold (\<lambda>x xs. xs @ [x]) xs ys = ys @ xs" for ys
    by (induction xs arbitrary: ys) auto
  with Visit assms show ?thesis by (auto simp: linkedlist_apply_rep [OF assms])
next
  case RemoveAll
  with ll_rep_remove_all [OF assms] show ?thesis by auto
qed

lemma run_linked_rep:
  "ll_rep ll as xs \<Longrightarrow> \<exists>ll'. run_ops linked_call cs ll = Inr (fst (run_calls plain_call cs xs), ll')
    \<and> (\<exists>as'. ll_rep ll' as' (snd (run_calls plain_call cs xs)))"
  by (rule run_ops_calls [where R = "\<lambda>ll xs. \<exists>as. ll_rep ll as xs"])
    (use linked_call_rep in blast)+

text \<open>C28. Whatever sequence of appends, removals, lookups, visits and clears a client runs on a new
  list, no NULL or freed node is ever followed and no search or loop fails to end, the answers
  and the contents are those of a plain list, and destroying the list afterwards frees every
  node exactly once: nothing leaks and nothing is freed twice.\<close>

theorem linkedlist_refines_list:
  "\<exists>ll. run_ops linked_call cs linkedlist_new = Inr (fst (run_calls plain_call cs []), ll)
    \<and> linkedlist_elems ll = snd (run_calls plain_call cs []) \<and> linkedlist_destroy ll = Inr (\<lambda>_. None)"
  using run_linked_rep [OF ll_rep_new, of cs] ll_rep_destroy linkedlist_elems_rep by blast

text \<open>An iterator seen as a pair of lists: what it has passed and what is to come.\<close>

datatype 'a iter_op = Next | Previous | Current | InsertBefore "'a ptr" | InsertAfter "'a ptr" | Delete | Index | Reset

fun iter_call :: "'a iter_op \<Rightarrow> 'a linkedlist \<times> list_iterator
    \<Rightarrow> ('a list_answer \<times> 'a linkedlist \<times> list_iterator) outcome" where
  "iter_call Next (ll, it) = bindE (linkedlistiterator_next ll it) (\<lambda>(e, it'). Inr (Elem e, ll, it'))"
| "iter_call Previous (ll, it) = bindE (linkedlistiterator_previous ll it) (\<lambda>(e, it'). Inr (Elem e, ll, it'))"
| "iter_call Current (ll, it) = bindE (linkedlistiterator_current ll it) (\<lambda>e. Inr (Elem e, ll, it))"
| "iter_call (InsertBefore x) (ll, it) = bindE (linkedlistiterator_insert_before ll it x)
     (\<lambda>(b, ll', it'). Inr (Num (of_bool b), ll', it'))"
| "iter_call (InsertAfter x) (ll, it) = bindE (linkedlistiterator_insert_after ll it x)
     (\<lambda>(b, ll', it'). Inr (Num (of_bool b), ll', it'))"
| "iter_call Delete (ll, it) = bindE (linkedlistiterator_remove ll it) (\<lambda>(e, ll', it'). Inr (Elem e, ll', it'))"
| "iter_call Index (ll, it) = Inr (Num (linkedlistiterator_index it), ll, it)"
| "iter_call Reset (ll, it) = Inr (Unit, ll, linkedlistiterator_reset it)"

text \<open>
  \<open>None\<close> where the code gives no guarantee: stepping back in an empty list, and the index of
  an iterator that stands on no element.
\<close>

fun zip_call :: "'a iter_op \<Rightarrow> 'a ptr list \<times> 'a ptr list
    \<Rightarrow> ('a list_answer \<times> 'a ptr list \<times> 'a ptr list) option" where
  "zip_call Next (ys, zs) = (case zs of [] \<Rightarrow> Some (Elem None, ys, zs) | z # zs' \<Rightarrow> Some (Elem z, ys @ [z], zs'))"
| "zip_call Previous (ys, zs) =
     (if ys = [] then (if zs = [] then None else Some (Elem (last zs), zs, []))
      else if butlast ys = [] then Some (Elem None, ys, zs)
      else Some (Elem (last (butlast ys)), butlast ys, last ys # zs))"
| "zip_call Current (ys, zs) = Some (Elem (if ys = [] then None else last ys), ys, zs)"
| "zip_call (InsertBefore x) (ys, zs) =
     (if ys = [] then Some (Num 0, ys, zs) else Some (Num 1, butlast ys @ [x, last ys], zs))"
| "zip_call (InsertAfter x) (ys, zs) =
     (if ys = [] then Some (Num 0, ys, zs) else Some (Num 1, ys, x # zs))"
| "zip_call Delete (ys, zs) =
     (if ys = [] then Some (Elem None, ys, zs) else Some (Elem (last ys), butlast ys, zs))"
| "zip_call Index (ys, zs) = (if ys = [] then None else Some (Num (int (length ys) - 1), ys, zs))"
| "zip_call Reset (ys, zs) = Some (Unit, [], ys @ zs)"

lemma iter_at_snoc:
  "iter_at ll it ys zs \<Longrightarrow> ys \<noteq> [] \<Longrightarrow> iter_at ll it (butlast ys @ [last ys]) zs"
  by simp

lemma iter_call_start:
  assumes "iter_at ll it [] zs"
  shows "linkedlistiterator_insert_before ll it x = Inr (False, ll, it)"
    "linkedlistiterator_insert_after ll it x = Inr (False, ll, it)"
    "linkedlistiterator_remove ll it = Inr (None, ll, it)"
  using iter_at_start [OF assms]
  by (simp_all add: linkedlistiterator_insert_before_def linkedlistiterator_insert_after_def
      linkedlistiterator_remove_def)

lemma iter_call_zip:
  assumes at: "iter_at ll it ys zs" and zip: "zip_call c (ys, zs) = Some (r, ys', zs')"
  shows "\<exists>ll' it'. iter_call c (ll, it) = Inr (r, ll', it') \<and> iter_at ll' it' ys' zs'"
proof (cases c)
  case Next
  show ?thesis
  proof (cases zs)
    case Nil
    with Next at zip iter_at_end [of ll it ys] show ?thesis by auto
  next
    case (Cons u us)
    with Next at zip iter_at_next [of ll it ys u us] show ?thesis by auto
  qed
next
  case Previous
  show ?thesis
  proof (cases "ys = []")
    case True
    with Previous zip at iter_at_previous_start [of ll it zs] show ?thesis by (auto split: if_splits)
  next
    case False
    with iter_at_previous [OF iter_at_snoc [OF at False]] Previous zip at show ?thesis
      by (auto split: if_splits)
  qed
next
  case Current
  with zip at iter_at_current [OF at] show ?thesis by auto
next
  case (InsertBefore x)
  show ?thesis
  proof (cases "ys = []")
    case True
    with InsertBefore zip at iter_call_start(1) [of ll it zs x] show ?thesis by auto
  next
    case False
    with iter_at_insert_before [OF iter_at_snoc [OF at False], of x] InsertBefore zip show ?thesis by auto
  qed
next
  case (InsertAfter x)
  show ?thesis
  proof (cases "ys = []")
    case True
    with InsertAfter zip at iter_call_start(2) [of ll it zs x] show ?thesis by auto
  next
    case False
    with iter_at_insert_after [OF iter_at_snoc [OF at False], of x] InsertAfter zip show ?thesis by auto
  qed
next
  case Delete
  show ?thesis
  proof (cases "ys = []")
    case True
    with Delete zip at iter_call_start(3) [of ll it zs] show ?thesis by auto
  next
    case False
    with iter_at_remove [OF iter_at_snoc [OF at False]] Delete zip show ?thesis by auto
  qed
next
  case Index
  with zip at show ?thesis
    by (auto simp: linkedlistiterator_index_def iter_at_def split: if_splits)
next
  case Reset
  with zip at iter_at_reset [OF at] show ?thesis by auto
qed

lemma run_iter_zip:
  "iter_at ll it ys zs \<Longrightarrow> run_spec zip_call cs (ys, zs) = Some (rs, ys', zs') \<Longrightarrow>
    \<exists>ll' it'. run_ops iter_call cs (ll, it) = Inr (rs, ll', it') \<and> iter_at ll' it' ys' zs'"
  using run_ops_spec [where R = "\<lambda>(ll, it) (ys, zs). iter_at ll it ys zs" and s = "(ll, it)"
      and t = "(ys, zs)" and f = iter_call and g = zip_call and t' = "(ys', zs')"] iter_call_zip
  by fastforce

lemma iter_at_elems: "iter_at ll it ys zs \<Longrightarrow> linkedlist_ok ll \<and> linkedlist_elems ll = ys @ zs"
  unfolding iter_at_def using linkedlist_rep_ok by blast

text \<open>C29. An iterator started on a list behaves, under any sequence of steps forward and back,
  insertions, deletions of the current element and resets, as a pair of lists, the elements
  passed and those to come, whose concatenation the list holds afterwards; the links of the
  nodes stay right throughout. Only stepping back in an empty list is left out.\<close>

theorem linkedlistiterator_zipper:
  assumes "linkedlist_ok ll" "run_spec zip_call cs ([], linkedlist_elems ll) = Some (rs, ys, zs)"
  shows "\<exists>ll' it'. run_ops iter_call cs (ll, linkedlistiterator_new) = Inr (rs, ll', it')
    \<and> linkedlist_ok ll' \<and> linkedlist_elems ll' = ys @ zs"
proof -
  obtain as where "ll_rep ll as (linkedlist_elems ll)" using linkedlist_ok_rep [OF assms(1)] by blast
  then show ?thesis
    using run_iter_zip [OF iter_at_new assms(2)] iter_at_elems by blast
qed

theorem linkedlistiterator_zipper_witness:
  "\<exists>ll ll' it'. run_ops linked_call [Append (Some (1::int)), Append (Some 2)] linkedlist_new = Inr ([Unit, Unit], ll)
    \<and> run_ops iter_call [Next, InsertBefore (Some 7), Next, Delete, Index, InsertAfter (Some 9), Next]
        (ll, linkedlistiterator_new)
      = Inr ([Elem (Some 1), Num 1, Elem (Some 2), Elem (Some 2), Num 1, Num 1, Elem (Some 9)], ll', it')
    \<and> linkedlist_elems ll' = [Some 7, Some 1, Some 9]"
proof -
  obtain ll as where l: "run_ops linked_call [Append (Some (1::int)), Append (Some 2)] linkedlist_new = Inr ([Unit, Unit], ll)"
    "ll_rep ll as [Some 1, Some 2]"
    using run_linked_rep [OF ll_rep_new, of "[Append (Some (1::int)), Append (Some 2)]"] by auto
  with linkedlist_rep_ok have "linkedlist_ok ll" "linkedlist_elems ll = [Some 1, Some 2]" by auto
  with l(1) linkedlistiterator_zipper [of ll
      "[Next, InsertBefore (Some 7), Next, Delete, Index, InsertAfter (Some 9), Next]"
      "[Elem (Some 1), Num 1, Elem (Some 2), Elem (Some 2), Num 1, Num 1, Elem (Some 9)]"
      "[Some 7, Some 1, Some 9]" "[]"]
  show ?thesis by auto
qed

end
