(* ===== verification/HashTab.thy ===== *)
theory HashTab
  imports LinkedLst
begin

text \<open>
  The chained hash table of \<open>utility/HashTable/HashTable.c\<close>: 1023 linked lists and the two
  callbacks of the client. A bucket is chosen by \<open>hash(e) % tablesize\<close>, which is negative for a
  negative hash. The locale \<open>keyed\<close> states what the table needs of the callbacks and proves the
  operations against a view of the table by keys; the components that store records in a
  table interpret it.
\<close>

section \<open>State and operations\<close>

definition INITIAL_TABLE_SIZE :: nat where
  "INITIAL_TABLE_SIZE = 1023"

record 'a hashtable =
  ht_table :: "'a linkedlist list"
  ht_tablesize :: int
  ht_hash :: "'a ptr \<Rightarrow> int"
  ht_equals :: "'a ptr \<Rightarrow> 'a ptr \<Rightarrow> bool"

record 'a bucket_search =
  bs_hash :: "'a ptr \<Rightarrow> int"
  bs_equals :: "'a ptr \<Rightarrow> 'a ptr \<Rightarrow> bool"
  bs_key :: "'a ptr"

text \<open>\<open>(int)(long)element\<close> for the numeric value \<open>addr element\<close> of the pointer.\<close>

definition default_hash_function :: "('a ptr \<Rightarrow> int) \<Rightarrow> 'a ptr \<Rightarrow> int" where
  "default_hash_function addr element = sint (word_of_int (addr element) :: 32 word)"

definition bucket_search_function :: "'a ptr \<Rightarrow> 'a bucket_search \<Rightarrow> bool" where
  "bucket_search_function element search \<longleftrightarrow>
     bs_hash search element = bs_hash search (bs_key search)
     \<and> bs_equals search element (bs_key search)"

definition hashtable_new ::
    "('a ptr \<Rightarrow> int) \<Rightarrow> ('a ptr \<Rightarrow> int) option \<Rightarrow> ('a ptr \<Rightarrow> 'a ptr \<Rightarrow> bool) \<Rightarrow> 'a hashtable" where
  "hashtable_new addr hashfunc equals =
     \<lparr>ht_table = map (\<lambda>i. linkedlist_new) [0..<INITIAL_TABLE_SIZE],
      ht_tablesize = int INITIAL_TABLE_SIZE,
      ht_hash = (case hashfunc of None \<Rightarrow> default_hash_function addr | Some h \<Rightarrow> h),
      ht_equals = equals\<rparr>"

definition hashtable_destroy :: "'a hashtable \<Rightarrow> unit outcome" where
  "hashtable_destroy ht =
     foldE (\<lambda>i u. bindE (linkedlist_destroy (ht_table ht ! i)) (\<lambda>h. Inr u)) [0..<nat (ht_tablesize ht)] ()"

definition bucket_index :: "'a hashtable \<Rightarrow> 'a ptr \<Rightarrow> nat outcome" where
  "bucket_index ht e =
     (let k = ht_hash ht e smod ht_tablesize ht in if k < 0 then Inl OutOfBounds else Inr (nat k))"

definition search_for :: "'a hashtable \<Rightarrow> 'a ptr \<Rightarrow> 'a bucket_search" where
  "search_for ht e = \<lparr>bs_hash = ht_hash ht, bs_equals = ht_equals ht, bs_key = e\<rparr>"

definition hashtable_get_element :: "'a hashtable \<Rightarrow> 'a ptr \<Rightarrow> 'a ptr outcome" where
  "hashtable_get_element ht e =
     bindE (bucket_index ht e) (\<lambda>i.
       linkedlist_get_sf (ht_table ht ! i) bucket_search_function (search_for ht e))"

definition hashtable_remove_element :: "'a hashtable \<Rightarrow> 'a ptr \<Rightarrow> ('a ptr \<times> 'a hashtable) outcome" where
  "hashtable_remove_element ht e =
     bindE (bucket_index ht e) (\<lambda>i.
     bindE (linkedlist_remove_sf (ht_table ht ! i) bucket_search_function (search_for ht e)) (\<lambda>(element, ll).
       Inr (element, ht\<lparr>ht_table := (ht_table ht)[i := ll]\<rparr>)))"

definition hashtable_add :: "'a hashtable \<Rightarrow> 'a ptr \<Rightarrow> 'a hashtable outcome" where
  "hashtable_add ht element =
     bindE (bucket_index ht element) (\<lambda>i.
     bindE (linkedlist_append (ht_table ht ! i) element) (\<lambda>ll.
       Inr (ht\<lparr>ht_table := (ht_table ht)[i := ll]\<rparr>)))"

definition hashtable_apply :: "'a hashtable \<Rightarrow> ('a ptr \<Rightarrow> 's \<Rightarrow> 's) \<Rightarrow> 's \<Rightarrow> 's outcome" where
  "hashtable_apply ht func s =
     foldE (\<lambda>i s. linkedlist_apply (ht_table ht ! i) func s) [0..<nat (ht_tablesize ht)] s"

definition hashtable_remove_all :: "'a hashtable \<Rightarrow> 'a hashtable outcome" where
  "hashtable_remove_all ht =
     foldE (\<lambda>i ht. bindE (linkedlist_remove_all (ht_table ht ! i)) (\<lambda>ll.
              Inr (ht\<lparr>ht_table := (ht_table ht)[i := ll]\<rparr>)))
       [0..<nat (ht_tablesize ht)] ht"

text \<open>A client writes through the pointer \<open>hashtable_get_element\<close> returned.\<close>

definition hashtable_poke :: "'a hashtable \<Rightarrow> 'a ptr \<Rightarrow> ('a ptr \<Rightarrow> 'a ptr) \<Rightarrow> 'a hashtable outcome" where
  "hashtable_poke ht e g =
     bindE (bucket_index ht e) (\<lambda>i.
     bindE (linkedlist_poke (ht_table ht ! i) bucket_search_function (search_for ht e) g) (\<lambda>ll.
       Inr (ht\<lparr>ht_table := (ht_table ht)[i := ll]\<rparr>)))"

text \<open>A client that iterates over the table writes through the pointer to every element.\<close>

definition hashtable_poke_all :: "('a ptr \<Rightarrow> 'a ptr) \<Rightarrow> 'a hashtable \<Rightarrow> 'a hashtable" where
  "hashtable_poke_all g ht = ht\<lparr>ht_table := map (linkedlist_poke_all g) (ht_table ht)\<rparr>"

section \<open>The iterator\<close>

record hash_iterator =
  hti_iterator :: list_iterator
  hti_index :: nat

definition hashtableiterator_new :: "'a hashtable \<Rightarrow> hash_iterator option" where
  "hashtableiterator_new ht =
     map_option (\<lambda>i. \<lparr>hti_iterator = linkedlistiterator_new, hti_index = i\<rparr>)
       (find (\<lambda>i. linkedlist_length (ht_table ht ! i) > 0) [0..<nat (ht_tablesize ht)])"

definition hashtableiterator_next :: "'a hashtable \<Rightarrow> hash_iterator \<Rightarrow> ('a ptr \<times> hash_iterator) outcome" where
  "hashtableiterator_next ht hti =
     bindE (linkedlistiterator_next (ht_table ht ! hti_index hti) (hti_iterator hti)) (\<lambda>(element, it).
       if element \<noteq> None then Inr (element, hti\<lparr>hti_iterator := it\<rparr>)
       else case find (\<lambda>i. linkedlist_length (ht_table ht ! i) > 0)
                   [hti_index hti + 1..<nat (ht_tablesize ht)] of
              None \<Rightarrow> Inr (None, hti\<lparr>hti_iterator := it\<rparr>)
            | Some i \<Rightarrow>
                bindE (linkedlistiterator_next (ht_table ht ! i) linkedlistiterator_new) (\<lambda>(element, it).
                  Inr (element, \<lparr>hti_iterator = it, hti_index = i\<rparr>)))"

section \<open>Contents\<close>

text \<open>The elements in the order of the buckets.\<close>

definition hashtable_items :: "'a hashtable \<Rightarrow> 'a ptr list" where
  "hashtable_items ht = concat (map linkedlist_elems (ht_table ht))"

definition hashtable_ok :: "'a hashtable \<Rightarrow> bool" where
  "hashtable_ok ht \<longleftrightarrow> length (ht_table ht) = INITIAL_TABLE_SIZE
     \<and> ht_tablesize ht = int INITIAL_TABLE_SIZE
     \<and> (\<forall>i < INITIAL_TABLE_SIZE. linkedlist_ok (ht_table ht ! i)
          \<and> (\<forall>x \<in> set (linkedlist_elems (ht_table ht ! i)). x \<noteq> None \<and> bucket_index ht x = Inr i))"

text \<open>All elements with a key, in the order they were added.\<close>

definition with_key :: "('a \<Rightarrow> 'k) \<Rightarrow> 'a hashtable \<Rightarrow> 'k \<Rightarrow> 'a list" where
  "with_key key ht k = filter (\<lambda>x. key x = k) (map the (hashtable_items ht))"

lemma bucket_index_upd [simp]: "bucket_index (ht\<lparr>ht_table := t\<rparr>) = bucket_index ht"
  by (simp add: bucket_index_def fun_eq_iff)

lemma search_for_upd [simp]: "search_for (ht\<lparr>ht_table := t\<rparr>) = search_for ht"
  by (simp add: search_for_def fun_eq_iff)

lemma hashtable_new_ok: "hashtable_ok (hashtable_new addr h e)"
  by (simp add: hashtable_ok_def hashtable_new_def ll.new_ok)

lemma hashtable_new_items: "hashtable_items (hashtable_new addr h e) = []"
  by (simp add: hashtable_items_def hashtable_new_def ll.new_ok o_def)

lemma ok_tablesize: "hashtable_ok ht \<Longrightarrow> ht_tablesize ht = 1023"
  by (simp add: hashtable_ok_def INITIAL_TABLE_SIZE_def)

lemma smod_1023: "(k :: int) smod 1023 < 1023"
  "0 \<le> k \<Longrightarrow> k smod 1023 = k mod 1023"
  "k < 0 \<Longrightarrow> \<not> 1023 dvd k \<Longrightarrow> k smod 1023 < 0"
proof -
  have b: "\<bar>k\<bar> mod 1023 < 1023" "0 \<le> \<bar>k\<bar> mod 1023" by simp_all
  then show "k smod 1023 < 1023"
    by (auto simp: signed_modulo_int_def sgn_if)
  show "0 \<le> k \<Longrightarrow> k smod 1023 = k mod 1023"
    by (simp add: signed_modulo_int_def sgn_if)
  assume "k < 0" "\<not> 1023 dvd k"
  then have "\<bar>k\<bar> mod 1023 \<noteq> 0" by (simp add: mod_eq_0_iff_dvd)
  with b(2) \<open>k < 0\<close> show "k smod 1023 < 0"
    by (simp add: signed_modulo_int_def sgn_if)
qed

lemma bucket_index_bound:
  assumes "hashtable_ok ht" "bucket_index ht e = Inr i"
  shows "i < INITIAL_TABLE_SIZE"
  using assms(2) smod_1023(1) [of "ht_hash ht e"]
  by (auto simp: bucket_index_def Let_def INITIAL_TABLE_SIZE_def ok_tablesize [OF assms(1)] split: if_splits)

lemma bucket_index_nonneg:
  "hashtable_ok ht \<Longrightarrow> 0 \<le> ht_hash ht e \<Longrightarrow> bucket_index ht e = Inr (nat (ht_hash ht e mod 1023))"
  by (simp add: bucket_index_def Let_def ok_tablesize smod_1023(2))

lemma bucket_index_negative:
  "hashtable_ok ht \<Longrightarrow> ht_hash ht e < 0 \<Longrightarrow> \<not> 1023 dvd ht_hash ht e \<Longrightarrow> bucket_index ht e = Inl OutOfBounds"
  by (simp add: bucket_index_def Let_def ok_tablesize smod_1023(3))

section \<open>Buckets and contents\<close>

lemma with_key_buckets:
  "with_key key ht k = concat (map (\<lambda>l. filter (\<lambda>x. key x = k) (map the (linkedlist_elems l))) (ht_table ht))"
  by (simp add: with_key_def hashtable_items_def map_concat filter_concat o_def)

lemma concat_single:
  "i < length xss \<Longrightarrow> (\<And>j. j < length xss \<Longrightarrow> j \<noteq> i \<Longrightarrow> xss ! j = []) \<Longrightarrow> concat xss = xss ! i"
proof (induction xss arbitrary: i)
  case Nil
  then show ?case by simp
next
  case (Cons xs xss)
  show ?case
  proof (cases i)
    case 0
    have "xss ! j = []" if "j < length xss" for j
      using Cons.prems(2) [of "Suc j"] that 0 by simp
    then have "concat xss = []" by (auto simp: in_set_conv_nth)
    with 0 show ?thesis by simp
  next
    case (Suc k)
    have "xs = []" using Cons.prems(2) [of 0] Suc by simp
    moreover have "concat xss = xss ! k"
      by (rule Cons.IH) (use Cons.prems Suc in force)+
    ultimately show ?thesis using Suc by simp
  qed
qed

lemma hashtable_ok_bucket:
  "hashtable_ok ht \<Longrightarrow> i < INITIAL_TABLE_SIZE \<Longrightarrow> linkedlist_ok (ht_table ht ! i)"
  by (simp add: hashtable_ok_def)

lemma hashtable_ok_elem:
  "hashtable_ok ht \<Longrightarrow> i < INITIAL_TABLE_SIZE \<Longrightarrow> x \<in> set (linkedlist_elems (ht_table ht ! i)) \<Longrightarrow>
    x \<noteq> None \<and> bucket_index ht x = Inr i"
  by (simp add: hashtable_ok_def)

lemma hashtable_ok_upd:
  assumes "hashtable_ok ht" "i < INITIAL_TABLE_SIZE" "linkedlist_ok l"
    and "\<And>x. x \<in> set (linkedlist_elems l) \<Longrightarrow> x \<noteq> None \<and> bucket_index ht x = Inr i"
  shows "hashtable_ok (ht\<lparr>ht_table := (ht_table ht)[i := l]\<rparr>)"
  using assms by (auto simp: hashtable_ok_def nth_list_update)

lemma hashtable_items_some: "hashtable_ok ht \<Longrightarrow> x \<in> set (hashtable_items ht) \<Longrightarrow> x \<noteq> None"
proof -
  assume ok: "hashtable_ok ht" and "x \<in> set (hashtable_items ht)"
  then obtain l where "l \<in> set (ht_table ht)" "x \<in> set (linkedlist_elems l)"
    by (auto simp: hashtable_items_def)
  with ok show "x \<noteq> None" unfolding hashtable_ok_def by (metis in_set_conv_nth)
qed

lemma hashtable_apply_items:
  assumes "hashtable_ok ht"
  shows "hashtable_apply ht func s = Inr (fold func (hashtable_items ht) s)"
proof -
  have "foldE (\<lambda>i s. linkedlist_apply (ht_table ht ! i) func s) [0..<n] s
      = Inr (fold func (concat (map (\<lambda>i. linkedlist_elems (ht_table ht ! i)) [0..<n])) s)"
    if "n \<le> INITIAL_TABLE_SIZE" for n
    using that
    by (induction n) (auto simp: foldE_append linkedlist_apply_elems hashtable_ok_bucket [OF assms])
  moreover have "map (\<lambda>i. linkedlist_elems (ht_table ht ! i)) [0..<INITIAL_TABLE_SIZE] = map linkedlist_elems (ht_table ht)"
    using assms by (auto simp: hashtable_ok_def intro: nth_equalityI)
  ultimately show ?thesis
    using assms by (simp add: hashtable_apply_def hashtable_items_def hashtable_ok_def)
qed

lemma hashtable_remove_all_ok:
  assumes "hashtable_ok ht"
  shows "\<exists>ht'. hashtable_remove_all ht = Inr ht' \<and> hashtable_ok ht' \<and> hashtable_items ht' = []"
proof -
  have "\<exists>ht'. foldE (\<lambda>i ht. bindE (linkedlist_remove_all (ht_table ht ! i)) (\<lambda>ll.
              Inr (ht\<lparr>ht_table := (ht_table ht)[i := ll]\<rparr>))) [0..<n] ht = Inr ht'
      \<and> hashtable_ok ht' \<and> (\<forall>i < n. linkedlist_elems (ht_table ht' ! i) = [])"
    if "n \<le> INITIAL_TABLE_SIZE" for n
    using that
  proof (induction n)
    case 0
    with assms show ?case by simp
  next
    case (Suc n)
    then obtain h where h: "foldE (\<lambda>i ht. bindE (linkedlist_remove_all (ht_table ht ! i)) (\<lambda>ll.
              Inr (ht\<lparr>ht_table := (ht_table ht)[i := ll]\<rparr>))) [0..<n] ht = Inr h"
      "hashtable_ok h" "\<forall>i < n. linkedlist_elems (ht_table h ! i) = []" by auto
    obtain l where l: "linkedlist_remove_all (ht_table h ! n) = Inr l" "linkedlist_ok l" "linkedlist_elems l = []"
      using linkedlist_remove_all_ok hashtable_ok_bucket [OF h(2)] Suc.prems by (metis Suc_le_lessD)
    have "hashtable_ok (h\<lparr>ht_table := (ht_table h)[n := l]\<rparr>)"
      by (rule hashtable_ok_upd) (use h l Suc.prems in auto)
    with h l Suc.prems show ?case
      by (auto simp: foldE_append less_Suc_eq nth_list_update hashtable_ok_def)
  qed
  from this [of INITIAL_TABLE_SIZE] assms show ?thesis
    by (auto simp: hashtable_remove_all_def hashtable_items_def hashtable_ok_def in_set_conv_nth)
qed

lemma hashtable_destroy_ok: "hashtable_ok ht \<Longrightarrow> hashtable_destroy ht = Inr ()"
proof -
  assume ok: "hashtable_ok ht"
  have "foldE (\<lambda>i u. bindE (linkedlist_destroy (ht_table ht ! i)) (\<lambda>h. Inr u)) is u = Inr u"
    if "\<forall>i \<in> set is. linkedlist_destroy (ht_table ht ! i) = Inr (\<lambda>_. None)" for "is" and u :: unit
    using that by (induction "is") (simp_all only: foldE.simps bindE.simps list.simps ball_simps simp_thms, blast)
  moreover have "\<forall>i \<in> set [0..<INITIAL_TABLE_SIZE]. linkedlist_destroy (ht_table ht ! i) = Inr (\<lambda>_. None)"
    by (simp add: linkedlist_destroy_ok hashtable_ok_bucket [OF ok])
  moreover have "nat (ht_tablesize ht) = INITIAL_TABLE_SIZE"
    using ok by (simp add: hashtable_ok_def)
  ultimately show ?thesis unfolding hashtable_destroy_def by metis
qed

section \<open>The table by keys\<close>

text \<open>Looking up, removing and replacing by key in a bucket.\<close>

abbreviation key_filter :: "('a \<Rightarrow> 'k) \<Rightarrow> 'k \<Rightarrow> 'a ptr list \<Rightarrow> 'a list" where
  "key_filter key k es \<equiv> filter (\<lambda>x. key x = k) (map the es)"

fun head_ptr :: "'a list \<Rightarrow> 'a ptr" where
  "head_ptr [] = None"
| "head_ptr (x # xs) = Some x"

fun map_head :: "('a \<Rightarrow> 'a) \<Rightarrow> 'a list \<Rightarrow> 'a list" where
  "map_head g [] = []"
| "map_head g (x # xs) = g x # xs"

lemma key_filter_find:
  "\<forall>x \<in> set es. x \<noteq> None \<and> (P x \<longleftrightarrow> key (the x) = k) \<Longrightarrow>
    (case find P es of None \<Rightarrow> None | Some x \<Rightarrow> x) = head_ptr (key_filter key k es)"
  by (induction es) auto

lemma key_filter_remove:
  "\<forall>x \<in> set es. x \<noteq> None \<and> (P x \<longleftrightarrow> key (the x) = k) \<Longrightarrow>
    key_filter key j (remove_first P es) = (if j = k then tl (key_filter key k es) else key_filter key j es)"
  by (induction es) auto

lemma key_filter_update:
  "\<forall>x \<in> set es. x \<noteq> None \<and> (P x \<longleftrightarrow> key (the x) = k) \<Longrightarrow> (\<And>x. key (g x) = key x) \<Longrightarrow>
    key_filter key j (update_first P (map_option g) es)
      = (if j = k then map_head g (key_filter key k es) else key_filter key j es)"
  by (induction es) auto

lemma with_key_update:
  assumes "i < length (ht_table ht)"
    and "key_filter key k (linkedlist_elems l) = key_filter key k (linkedlist_elems (ht_table ht ! i))"
  shows "with_key key (ht\<lparr>ht_table := (ht_table ht)[i := l]\<rparr>) k = with_key key ht k"
proof -
  let ?f = "\<lambda>l. key_filter key k (linkedlist_elems l)"
  have "(map ?f (ht_table ht))[i := map ?f (ht_table ht) ! i] = map ?f (ht_table ht)"
    by (rule list_update_id)
  with assms show ?thesis by (simp add: with_key_buckets map_update)
qed

definition keyed_ok :: "('a ptr \<Rightarrow> int) \<Rightarrow> ('a ptr \<Rightarrow> 'a ptr \<Rightarrow> bool) \<Rightarrow> 'a hashtable \<Rightarrow> bool" where
  "keyed_ok hash equals ht \<longleftrightarrow> hashtable_ok ht \<and> ht_hash ht = hash \<and> ht_equals ht = equals"

lemma keyed_ok_new: "keyed_ok hash equals (hashtable_new addr (Some hash) equals)"
  by (simp add: keyed_ok_def hashtable_new_ok) (simp add: hashtable_new_def)

text \<open>
  What a table needs of its callbacks: equality is equality of a key, the hash depends on the
  key only, and it is not negative for the keys in use. \<open>keyed\<close> is the case in which every key is.
\<close>

locale keyed_by =
  fixes hash :: "'a ptr \<Rightarrow> int"
    and equals :: "'a ptr \<Rightarrow> 'a ptr \<Rightarrow> bool"
    and key :: "'a \<Rightarrow> 'k"
    and good :: "'k \<Rightarrow> bool"
  assumes hash_nonneg: "good (key x) \<Longrightarrow> 0 \<le> hash (Some x)"
    and hash_key: "key x = key y \<Longrightarrow> hash (Some x) = hash (Some y)"
    and equals_key: "equals (Some x) (Some y) \<longleftrightarrow> key x = key y"
begin

lemma index_ok:
  assumes "keyed_ok hash equals ht" "good (key e)"
  obtains i where "i < INITIAL_TABLE_SIZE" "i < length (ht_table ht)" "bucket_index ht (Some e) = Inr i"
    "\<And>x. key x = key e \<Longrightarrow> bucket_index ht (Some x) = Inr i"
proof -
  have ok: "hashtable_ok ht" and h: "ht_hash ht = hash" using assms(1) by (auto simp: keyed_ok_def)
  have i: "bucket_index ht (Some x) = Inr (nat (hash (Some x) mod 1023))" if "key x = key e" for x
    using bucket_index_nonneg [OF ok, of "Some x"] h that assms(2) by (simp add: hash_nonneg)
  show thesis
  proof (rule that)
    show "nat (hash (Some e) mod 1023) < INITIAL_TABLE_SIZE" by (rule bucket_index_bound [OF ok i [OF refl]])
    then show "nat (hash (Some e) mod 1023) < length (ht_table ht)" using ok by (simp add: hashtable_ok_def)
    show "bucket_index ht (Some e) = Inr (nat (hash (Some e) mod 1023))" by (rule i [OF refl])
    show "bucket_index ht (Some x) = Inr (nat (hash (Some e) mod 1023))" if "key x = key e" for x
      using hash_key [OF that] i [OF that] by simp
  qed
qed

lemma bucket_search_key:
  assumes "keyed_ok hash equals ht" "i < INITIAL_TABLE_SIZE"
  shows "\<forall>x \<in> set (linkedlist_elems (ht_table ht ! i)). x \<noteq> None
    \<and> (bucket_search_function x (search_for ht (Some e)) \<longleftrightarrow> key (the x) = key e)"
proof
  fix x assume x: "x \<in> set (linkedlist_elems (ht_table ht ! i))"
  have ok: "hashtable_ok ht" and h: "ht_hash ht = hash" "ht_equals ht = equals"
    using assms(1) by (auto simp: keyed_ok_def)
  from hashtable_ok_elem [OF ok assms(2) x] obtain y where "x = Some y" by auto
  with h show "x \<noteq> None \<and> (bucket_search_function x (search_for ht (Some e)) \<longleftrightarrow> key (the x) = key e)"
    using equals_key [of y e] hash_key [of y e] by (auto simp: bucket_search_function_def search_for_def)
qed

lemma with_key_bucket:
  assumes "keyed_ok hash equals ht" "i < INITIAL_TABLE_SIZE" "\<And>x. key x = k \<Longrightarrow> bucket_index ht (Some x) = Inr i"
  shows "with_key key ht k = key_filter key k (linkedlist_elems (ht_table ht ! i))"
proof -
  let ?f = "\<lambda>l. key_filter key k (linkedlist_elems l)"
  have ok: "hashtable_ok ht" using assms(1) by (auto simp: keyed_ok_def)
  then have len: "length (ht_table ht) = INITIAL_TABLE_SIZE" by (simp add: hashtable_ok_def)
  have "concat (map ?f (ht_table ht)) = map ?f (ht_table ht) ! i"
  proof (rule concat_single)
    show "i < length (map ?f (ht_table ht))" using len assms(2) by simp
    fix j assume j: "j < length (map ?f (ht_table ht))" "j \<noteq> i"
    have "key (the x) \<noteq> k" if x: "x \<in> set (linkedlist_elems (ht_table ht ! j))" for x
      using hashtable_ok_elem [OF ok _ x] assms(3) [of "the x"] j len by fastforce
    with j show "map ?f (ht_table ht) ! j = []" by (simp add: filter_empty_conv)
  qed
  then show ?thesis using len assms(2) by (simp add: with_key_buckets)
qed

lemma get_ok:
  assumes "keyed_ok hash equals ht" "good (key e)"
  shows "hashtable_get_element ht (Some e) = Inr (head_ptr (with_key key ht (key e)))"
proof -
  obtain i where i: "i < INITIAL_TABLE_SIZE" "bucket_index ht (Some e) = Inr i"
    "\<And>x. key x = key e \<Longrightarrow> bucket_index ht (Some x) = Inr i"
    using index_ok [OF assms] by metis
  have "linkedlist_ok (ht_table ht ! i)"
    using assms(1) i(1) by (auto simp: keyed_ok_def intro: hashtable_ok_bucket)
  then have "linkedlist_get_sf (ht_table ht ! i) bucket_search_function (search_for ht (Some e))
      = Inr (head_ptr (key_filter key (key e) (linkedlist_elems (ht_table ht ! i))))"
    using key_filter_find [OF bucket_search_key [OF assms(1) i(1), of e]] by (simp add: ll.get_ok)
  with i(2) with_key_bucket [OF assms(1) i(1) i(3)] show ?thesis by (simp add: hashtable_get_element_def)
qed

lemma update_ok:
  assumes "keyed_ok hash equals ht" "i < INITIAL_TABLE_SIZE" "linkedlist_ok l"
    and "\<And>x. key x = k \<Longrightarrow> bucket_index ht (Some x) = Inr i"
    and "\<And>x. x \<in> set (linkedlist_elems l) \<Longrightarrow> x \<noteq> None \<and> bucket_index ht x = Inr i"
    and "\<And>j. j \<noteq> k \<Longrightarrow> key_filter key j (linkedlist_elems l) = key_filter key j (linkedlist_elems (ht_table ht ! i))"
  defines "ht' \<equiv> ht\<lparr>ht_table := (ht_table ht)[i := l]\<rparr>"
  shows "keyed_ok hash equals ht'"
    "with_key key ht' j = (if j = k then key_filter key k (linkedlist_elems l) else with_key key ht j)"
proof -
  have len: "i < length (ht_table ht)"
    using assms(1,2) by (auto simp: keyed_ok_def hashtable_ok_def)
  show ok: "keyed_ok hash equals ht'"
    using assms(1-3,5) hashtable_ok_upd [of ht i l] by (auto simp: keyed_ok_def ht'_def)
  have "with_key key ht' k = key_filter key k (linkedlist_elems l)"
    using with_key_bucket [OF ok assms(2), of k] assms(4) len by (simp add: ht'_def)
  then show "with_key key ht' j = (if j = k then key_filter key k (linkedlist_elems l) else with_key key ht j)"
    using with_key_update [OF len, of key j l] assms(6) by (auto simp: ht'_def)
qed

lemma add_ok:
  assumes "keyed_ok hash equals ht" "good (key e)"
  shows "\<exists>ht'. hashtable_add ht (Some e) = Inr ht' \<and> keyed_ok hash equals ht'
    \<and> with_key key ht' = (with_key key ht)(key e := with_key key ht (key e) @ [e])"
proof -
  obtain i where i: "i < INITIAL_TABLE_SIZE" "bucket_index ht (Some e) = Inr i"
    "\<And>x. key x = key e \<Longrightarrow> bucket_index ht (Some x) = Inr i"
    using index_ok [OF assms] by metis
  have ok: "hashtable_ok ht" using assms(1) by (simp add: keyed_ok_def)
  obtain l where l: "linkedlist_append (ht_table ht ! i) (Some e) = Inr l" "linkedlist_ok l"
    "linkedlist_elems l = linkedlist_elems (ht_table ht ! i) @ [Some e]"
    using ll.append_ok [OF hashtable_ok_bucket [OF ok i(1)]] by blast
  have "x \<noteq> None \<and> bucket_index ht x = Inr i" if "x \<in> set (linkedlist_elems l)" for x
    using that l(3) i(2) hashtable_ok_elem [OF ok i(1)] by auto
  note u = update_ok [where k = "key e", OF assms(1) i(1) l(2) i(3) this]
  have "with_key key (ht\<lparr>ht_table := (ht_table ht)[i := l]\<rparr>) j
      = ((with_key key ht)(key e := with_key key ht (key e) @ [e])) j" for j
    using u(2) [of j] l(3) with_key_bucket [OF assms(1) i(1), of "key e"] i(3) by auto
  with u(1) i(2) l(1) l(3) show ?thesis by (auto simp: hashtable_add_def fun_eq_iff)
qed

lemma remove_ok:
  assumes "keyed_ok hash equals ht" "good (key e)"
  shows "\<exists>ht'. hashtable_remove_element ht (Some e) = Inr (head_ptr (with_key key ht (key e)), ht')
    \<and> keyed_ok hash equals ht'
    \<and> with_key key ht' = (with_key key ht)(key e := tl (with_key key ht (key e)))"
proof -
  obtain i where i: "i < INITIAL_TABLE_SIZE" "bucket_index ht (Some e) = Inr i"
    "\<And>x. key x = key e \<Longrightarrow> bucket_index ht (Some x) = Inr i"
    using index_ok [OF assms] by metis
  have ok: "hashtable_ok ht" using assms(1) by (simp add: keyed_ok_def)
  let ?P = "\<lambda>x. bucket_search_function x (search_for ht (Some e))"
  note s = bucket_search_key [OF assms(1) i(1), of e]
  obtain l where l: "linkedlist_remove_sf (ht_table ht ! i) bucket_search_function (search_for ht (Some e))
      = Inr (head_ptr (key_filter key (key e) (linkedlist_elems (ht_table ht ! i))), l)"
    "linkedlist_ok l" "linkedlist_elems l = remove_first ?P (linkedlist_elems (ht_table ht ! i))"
    using ll.remove_ok [OF hashtable_ok_bucket [OF ok i(1)]] key_filter_find [OF s] by metis
  note f = key_filter_remove [OF s]
  have "x \<noteq> None \<and> bucket_index ht x = Inr i" if "x \<in> set (linkedlist_elems l)" for x
    using that l(3) set_remove_first_subset hashtable_ok_elem [OF ok i(1)] by fastforce
  note u = update_ok [where k = "key e", OF assms(1) i(1) l(2) i(3) this]
  have "with_key key (ht\<lparr>ht_table := (ht_table ht)[i := l]\<rparr>) j
      = ((with_key key ht)(key e := tl (with_key key ht (key e)))) j" for j
    using u(2) [of j] l(3) f with_key_bucket [OF assms(1) i(1), of "key e"] i(3) by auto
  with u(1) i(2,3) l(1,3) f with_key_bucket [OF assms(1) i(1), of "key e"] show ?thesis
    by (auto simp: hashtable_remove_element_def fun_eq_iff)
qed

lemma poke_ok:
  assumes "keyed_ok hash equals ht" "\<And>x. key (g x) = key x" "good (key e)"
  shows "\<exists>ht'. hashtable_poke ht (Some e) (map_option g) = Inr ht' \<and> keyed_ok hash equals ht'
    \<and> with_key key ht' = (with_key key ht)(key e := map_head g (with_key key ht (key e)))"
proof -
  obtain i where i: "i < INITIAL_TABLE_SIZE" "bucket_index ht (Some e) = Inr i"
    "\<And>x. key x = key e \<Longrightarrow> bucket_index ht (Some x) = Inr i"
    using index_ok [OF assms(1,3)] by metis
  have ok: "hashtable_ok ht" and h: "ht_hash ht = hash" using assms(1) by (auto simp: keyed_ok_def)
  let ?P = "\<lambda>x. bucket_search_function x (search_for ht (Some e))"
  note s = bucket_search_key [OF assms(1) i(1), of e]
  obtain l where l: "linkedlist_poke (ht_table ht ! i) bucket_search_function (search_for ht (Some e)) (map_option g) = Inr l"
    "linkedlist_ok l" "linkedlist_elems l = update_first ?P (map_option g) (linkedlist_elems (ht_table ht ! i))"
    using ll.poke_ok [OF hashtable_ok_bucket [OF ok i(1)],
        of bucket_search_function "search_for ht (Some e)" "map_option g"] by metis
  note f = key_filter_update [OF s assms(2)]
  have same: "bucket_index ht (Some (g y)) = bucket_index ht (Some y)" for y
    using hash_key [OF assms(2)] h by (simp add: bucket_index_def)
  have upd: "x \<in> set es \<or> (\<exists>y \<in> set es. x = map_option g y)"
    if "x \<in> set (update_first ?P (map_option g) es)" for x es
    using that by (induction es) (auto split: if_splits)
  have "x \<noteq> None \<and> bucket_index ht x = Inr i" if "x \<in> set (linkedlist_elems l)" for x
    using upd [of x "linkedlist_elems (ht_table ht ! i)"] that l(3) hashtable_ok_elem [OF ok i(1)] same
    by fastforce
  note u = update_ok [where k = "key e", OF assms(1) i(1) l(2) i(3) this]
  have "with_key key (ht\<lparr>ht_table := (ht_table ht)[i := l]\<rparr>) j
      = ((with_key key ht)(key e := map_head g (with_key key ht (key e)))) j" for j
    using u(2) [of j] l(3) f with_key_bucket [OF assms(1) i(1), of "key e"] i(3) by auto
  with u(1) i(2) l(1,3) f show ?thesis
    by (auto simp: hashtable_poke_def fun_eq_iff)
qed

lemma poke_all_ok:
  assumes "keyed_ok hash equals ht" "\<And>x. key (g x) = key x"
  shows "keyed_ok hash equals (hashtable_poke_all (map_option g) ht)
    \<and> with_key key (hashtable_poke_all (map_option g) ht) k = map g (with_key key ht k)"
proof -
  let ?ht = "hashtable_poke_all (map_option g) ht"
  have ok: "hashtable_ok ht" and h: "ht_hash ht = hash" using assms(1) by (auto simp: keyed_ok_def)
  have same: "bucket_index ht (Some (g y)) = bucket_index ht (Some y)" for y
    using hash_key [OF assms(2)] h by (simp add: bucket_index_def)
  have len: "length (ht_table ht) = INITIAL_TABLE_SIZE" using ok by (simp add: hashtable_ok_def)
  have i: "linkedlist_ok (ht_table ht ! i)" "linkedlist_elems (ht_table ?ht ! i) = map (map_option g) (linkedlist_elems (ht_table ht ! i))"
    "linkedlist_ok (ht_table ?ht ! i)" if "i < INITIAL_TABLE_SIZE" for i
    using linkedlist_poke_all_ok [OF hashtable_ok_bucket [OF ok that], of "map_option g"] hashtable_ok_bucket [OF ok that] that len
    by (simp_all add: hashtable_poke_all_def)
  have "x \<noteq> None \<and> bucket_index ?ht x = Inr i" if x: "i < INITIAL_TABLE_SIZE" "x \<in> set (linkedlist_elems (ht_table ?ht ! i))" for x i
  proof -
    obtain y where "y \<in> set (linkedlist_elems (ht_table ht ! i))" "x = map_option g y" using x(2) i(2) [OF x(1)] by auto
    with hashtable_ok_elem [OF ok x(1)] same show ?thesis by (force simp: hashtable_poke_all_def)
  qed
  then have keyed: "keyed_ok hash equals ?ht"
    using assms(1) i(3) len by (auto simp: keyed_ok_def hashtable_ok_def) (simp_all add: hashtable_poke_all_def)
  have items: "hashtable_items ?ht = map (map_option g) (hashtable_items ht)"
  proof -
    have "map linkedlist_elems (ht_table ?ht) = map (\<lambda>l. map (map_option g) (linkedlist_elems l)) (ht_table ht)"
      by (rule nth_equalityI) (use i(2) len in \<open>simp_all add: hashtable_poke_all_def\<close>)
    then show ?thesis by (simp add: hashtable_items_def map_concat comp_def)
  qed
  have the: "map the (map (map_option g) xs) = map g (map the xs)" if "None \<notin> set xs" for xs
    using that by (induction xs) (auto simp: option.map_sel)
  have none: "None \<notin> set (hashtable_items ht)" using hashtable_items_some [OF ok] by blast
  have filter: "filter (\<lambda>x. key x = k) (map g ys) = map g (filter (\<lambda>x. key x = k) ys)" for ys
    using assms(2) by (induction ys) auto
  show ?thesis unfolding with_key_def items the [OF none] filter using keyed by simp
qed

end

locale keyed = keyed_by hash equals key "\<lambda>_. True"
  for hash :: "'a ptr \<Rightarrow> int" and equals :: "'a ptr \<Rightarrow> 'a ptr \<Rightarrow> bool" and key :: "'a \<Rightarrow> 'k"

section \<open>The iterator visits the items\<close>

definition hti_at :: "'a hashtable \<Rightarrow> hash_iterator \<Rightarrow> 'a ptr list \<Rightarrow> bool" where
  "hti_at ht hti rs \<longleftrightarrow> hti_index hti < INITIAL_TABLE_SIZE
     \<and> (\<exists>ys zs. iter_at (ht_table ht ! hti_index hti) (hti_iterator hti) ys zs
          \<and> rs = zs @ concat (map linkedlist_elems (drop (Suc (hti_index hti)) (ht_table ht))))"

lemma find_nonempty:
  assumes "hashtable_ok ht" "n \<le> INITIAL_TABLE_SIZE"
  shows "(case find (\<lambda>i. linkedlist_length (ht_table ht ! i) > 0) [n..<INITIAL_TABLE_SIZE] of
      None \<Rightarrow> concat (map linkedlist_elems (drop n (ht_table ht))) = []
    | Some i \<Rightarrow> i < INITIAL_TABLE_SIZE \<and> linkedlist_elems (ht_table ht ! i) \<noteq> []
        \<and> concat (map linkedlist_elems (drop n (ht_table ht)))
          = linkedlist_elems (ht_table ht ! i) @ concat (map linkedlist_elems (drop (Suc i) (ht_table ht))))"
  using assms(2)
proof (induction n rule: inc_induct)
  case base
  then show ?case using assms(1) by (simp add: hashtable_ok_def)
next
  case (step n)
  have len: "length (ht_table ht) = INITIAL_TABLE_SIZE" using assms(1) by (simp add: hashtable_ok_def)
  have d: "drop n (ht_table ht) = ht_table ht ! n # drop (Suc n) (ht_table ht)"
    using step.hyps len by (simp add: Cons_nth_drop_Suc)
  have c: "concat (map linkedlist_elems (drop n (ht_table ht)))
      = linkedlist_elems (ht_table ht ! n) @ concat (map linkedlist_elems (drop (Suc n) (ht_table ht)))"
    by (subst d) simp
  have l: "linkedlist_length (ht_table ht ! n) = int (length (linkedlist_elems (ht_table ht ! n)))"
    by (rule linkedlist_length_elems [OF hashtable_ok_bucket [OF assms(1) step.hyps(2)]])
  have u: "[n..<INITIAL_TABLE_SIZE] = n # [Suc n..<INITIAL_TABLE_SIZE]"
    using step.hyps by (simp add: upt_conv_Cons)
  show ?case
  proof (cases "linkedlist_elems (ht_table ht ! n) = []")
    case True
    have "find (\<lambda>i. linkedlist_length (ht_table ht ! i) > 0) [n..<INITIAL_TABLE_SIZE]
        = find (\<lambda>i. linkedlist_length (ht_table ht ! i) > 0) [Suc n..<INITIAL_TABLE_SIZE]"
      by (simp add: u l True)
    with step.IH c True show ?thesis by (simp only: append_Nil)
  next
    case False
    with step.hyps c show ?thesis by (simp add: u l del: Cons_nth_drop_Suc)
  qed
qed

lemma hashtableiterator_new_at:
  assumes "hashtable_ok ht"
  shows "(case hashtableiterator_new ht of None \<Rightarrow> hashtable_items ht = []
    | Some hti \<Rightarrow> hashtable_items ht \<noteq> [] \<and> hti_at ht hti (hashtable_items ht))"
proof -
  have n: "nat (ht_tablesize ht) = INITIAL_TABLE_SIZE" using assms by (simp add: hashtable_ok_def)
  show ?thesis
  proof (cases "find (\<lambda>i. linkedlist_length (ht_table ht ! i) > 0) [0..<INITIAL_TABLE_SIZE]")
    case None
    with find_nonempty [OF assms, of 0] n show ?thesis
      by (simp add: hashtableiterator_new_def hashtable_items_def)
  next
    case (Some i)
    with find_nonempty [OF assms, of 0] have i: "i < INITIAL_TABLE_SIZE" "linkedlist_elems (ht_table ht ! i) \<noteq> []"
      "hashtable_items ht = linkedlist_elems (ht_table ht ! i) @ concat (map linkedlist_elems (drop (Suc i) (ht_table ht)))"
      by (simp_all add: hashtable_items_def)
    have "iter_at (ht_table ht ! i) linkedlistiterator_new [] (linkedlist_elems (ht_table ht ! i))"
      by (rule linkedlist_iter_new [OF hashtable_ok_bucket [OF assms i(1)]])
    with Some i n show ?thesis
      by (auto simp: hashtableiterator_new_def hti_at_def simp del: concat_eq_Nil_conv)
  qed
qed

lemma hti_at_next:
  assumes "hashtable_ok ht" "hti_at ht hti rs"
  shows "\<exists>hti'. hashtableiterator_next ht hti = Inr (case rs of [] \<Rightarrow> None | r # rs' \<Rightarrow> r, hti')
    \<and> hti_at ht hti' (tl rs)"
proof -
  let ?i = "hti_index hti"
  have n: "nat (ht_tablesize ht) = INITIAL_TABLE_SIZE" using assms(1) by (simp add: hashtable_ok_def)
  obtain ys zs where at: "iter_at (ht_table ht ! ?i) (hti_iterator hti) ys zs"
    and rs: "rs = zs @ concat (map linkedlist_elems (drop (Suc ?i) (ht_table ht)))" and i: "?i < INITIAL_TABLE_SIZE"
    using assms(2) by (auto simp: hti_at_def)
  show ?thesis
  proof (cases zs)
    case (Cons z zs')
    then have "z \<in> set (linkedlist_elems (ht_table ht ! ?i))" using iter_at_elems [OF at] by simp
    then obtain e where "z = Some e" using hashtable_ok_elem [OF assms(1) i] by auto
    with Cons rs i iter_at_next [of "ht_table ht ! ?i" "hti_iterator hti" ys z zs'] at show ?thesis
      by (auto simp: hashtableiterator_next_def hti_at_def)
  next
    case Nil
    note e = iter_at_end [OF at [unfolded Nil]]
    show ?thesis
    proof (cases "find (\<lambda>i. linkedlist_length (ht_table ht ! i) > 0) [Suc ?i..<INITIAL_TABLE_SIZE]")
      case None
      with find_nonempty [OF assms(1), of "Suc ?i"] i rs Nil have "rs = []" by simp
      with None e n assms(2) show ?thesis by (simp add: hashtableiterator_next_def)
    next
      case (Some j)
      with find_nonempty [OF assms(1), of "Suc ?i"] i rs Nil
      have j: "j < INITIAL_TABLE_SIZE" "linkedlist_elems (ht_table ht ! j) \<noteq> []"
        "rs = linkedlist_elems (ht_table ht ! j) @ concat (map linkedlist_elems (drop (Suc j) (ht_table ht)))"
        by simp_all
      then obtain r es where r: "linkedlist_elems (ht_table ht ! j) = r # es" by (cases "linkedlist_elems (ht_table ht ! j)") auto
      with linkedlist_iter_new [OF hashtable_ok_bucket [OF assms(1) j(1)]]
      have "iter_at (ht_table ht ! j) linkedlistiterator_new [] (r # es)" by simp
      from iter_at_next [OF this] obtain it where
        "linkedlistiterator_next (ht_table ht ! j) linkedlistiterator_new = Inr (r, it)"
        "iter_at (ht_table ht ! j) it [r] es" by auto
      with Some e n j r show ?thesis by (auto simp: hashtableiterator_next_def hti_at_def)
    qed
  qed
qed

text \<open>The answers of \<open>n\<close> calls of \<open>hashtableiterator_next\<close>.\<close>

fun hashtable_walk :: "nat \<Rightarrow> 'a hashtable \<Rightarrow> hash_iterator \<Rightarrow> 'a ptr list outcome" where
  "hashtable_walk 0 ht hti = Inr []"
| "hashtable_walk (Suc n) ht hti =
     bindE (hashtableiterator_next ht hti) (\<lambda>(e, hti').
     bindE (hashtable_walk n ht hti') (\<lambda>es. Inr (e # es)))"

text \<open>\<open>while ((e = hashtableiterator_next(hti))) body\<close>, on fuel.\<close>

fun hashtable_while :: "nat \<Rightarrow> ('a ptr \<Rightarrow> 's \<Rightarrow> 's outcome) \<Rightarrow> 'a hashtable \<Rightarrow> hash_iterator \<Rightarrow> 's \<Rightarrow> 's outcome" where
  "hashtable_while 0 body ht hti s = Inl NoReturn"
| "hashtable_while (Suc n) body ht hti s =
     bindE (hashtableiterator_next ht hti) (\<lambda>(e, hti').
       if e = None then Inr s else bindE (body e s) (hashtable_while n body ht hti'))"

lemma hashtable_walk_at:
  "hashtable_ok ht \<Longrightarrow> hti_at ht hti rs \<Longrightarrow> hashtable_walk n ht hti = Inr (take n (rs @ replicate n None))"
proof (induction n arbitrary: hti rs)
  case 0
  then show ?case by simp
next
  case (Suc n)
  obtain hti' where "hashtableiterator_next ht hti = Inr (case rs of [] \<Rightarrow> None | r # rs' \<Rightarrow> r, hti')"
    "hti_at ht hti' (tl rs)" using hti_at_next [OF Suc.prems] by blast
  with Suc.IH [OF Suc.prems(1), of hti' "tl rs"] show ?case
    by (cases rs) (auto simp flip: replicate.simps(2))
qed

lemma hashtable_while_at:
  "hashtable_ok ht \<Longrightarrow> hti_at ht hti rs \<Longrightarrow> None \<notin> set rs \<Longrightarrow> length rs < n \<Longrightarrow>
    hashtable_while n body ht hti s = foldE body rs s"
proof (induction n arbitrary: hti rs s)
  case 0
  then show ?case by simp
next
  case (Suc n)
  obtain hti' where h: "hashtableiterator_next ht hti = Inr (case rs of [] \<Rightarrow> None | r # rs' \<Rightarrow> r, hti')"
    "hti_at ht hti' (tl rs)" using hti_at_next [OF Suc.prems(1,2)] by blast
  show ?case
  proof (cases rs)
    case Nil
    with h show ?thesis by simp
  next
    case (Cons r rs')
    have "hashtable_while n body ht hti' = foldE body rs'"
      using Suc.IH [OF Suc.prems(1), of hti' rs'] h(2) Suc.prems(3,4) Cons by (simp add: fun_eq_iff)
    with h(1) Cons Suc.prems(3) show ?thesis by auto
  qed
qed

lemma hashtable_loop:
  assumes "hashtable_ok ht"
  shows "(case hashtableiterator_new ht of None \<Rightarrow> Inr s
      | Some hti \<Rightarrow> hashtable_while (Suc (length (hashtable_items ht))) body ht hti s) = foldE body (hashtable_items ht) s"
proof (cases "hashtableiterator_new ht")
  case None
  with hashtableiterator_new_at [OF assms] show ?thesis by simp
next
  case (Some hti)
  with hashtableiterator_new_at [OF assms] have "hti_at ht hti (hashtable_items ht)" by simp
  moreover have "None \<notin> set (hashtable_items ht)" using hashtable_items_some [OF assms] by blast
  ultimately show ?thesis using Some hashtable_while_at [OF assms, of hti, OF _ _ lessI] by simp
qed

section \<open>Properties\<close>

datatype 'a table_op = Lookup 'a | Insert 'a | Delete 'a

fun table_call :: "'a table_op \<Rightarrow> 'a hashtable \<Rightarrow> ('a ptr \<times> 'a hashtable) outcome" where
  "table_call (Lookup e) ht = bindE (hashtable_get_element ht (Some e)) (\<lambda>r. Inr (r, ht))"
| "table_call (Insert e) ht = bindE (hashtable_add ht (Some e)) (\<lambda>ht'. Inr (None, ht'))"
| "table_call (Delete e) ht = hashtable_remove_element ht (Some e)"

fun multimap_call :: "('a \<Rightarrow> 'k) \<Rightarrow> 'a table_op \<Rightarrow> ('k \<Rightarrow> 'a list) \<Rightarrow> 'a ptr \<times> ('k \<Rightarrow> 'a list)" where
  "multimap_call key (Lookup e) m = (head_ptr (m (key e)), m)"
| "multimap_call key (Insert e) m = (None, m(key e := m (key e) @ [e]))"
| "multimap_call key (Delete e) m = (head_ptr (m (key e)), m(key e := tl (m (key e))))"

text \<open>C26. With callbacks that compare a key and hash it to a non-negative number, a table answers
  every sequence of lookups, insertions and removals as a map from keys to the elements inserted
  under them does, oldest first, whatever other keys share a bucket; no call faults, and the
  table can be destroyed afterwards.\<close>

theorem hashtable_multimap:
  assumes "keyed hash equals key"
  shows "\<exists>ht. run_ops table_call cs (hashtable_new addr (Some hash) equals)
      = Inr (fst (run_calls (multimap_call key) cs (\<lambda>_. [])), ht)
    \<and> with_key key ht = snd (run_calls (multimap_call key) cs (\<lambda>_. []))
    \<and> hashtable_destroy ht = Inr ()"
proof -
  let ?R = "\<lambda>ht m. keyed_ok hash equals ht \<and> with_key key ht = m"
  have k: "keyed_by hash equals key (\<lambda>_. True)" using assms by (simp add: keyed_def)
  have step: "\<exists>ht'. table_call c ht = Inr (fst (multimap_call key c m), ht') \<and> ?R ht' (snd (multimap_call key c m))"
    if "?R ht m" for c ht m
  proof -
    from that have ok: "keyed_ok hash equals ht" and m: "m = with_key key ht" by auto
    show ?thesis
    proof (cases c)
      case (Lookup e)
      with keyed_by.get_ok [OF k ok TrueI, of e] ok m show ?thesis by simp
    next
      case (Insert e)
      with keyed_by.add_ok [OF k ok TrueI, of e] m show ?thesis by auto
    next
      case (Delete e)
      with keyed_by.remove_ok [OF k ok TrueI, of e] m show ?thesis by auto
    qed
  qed
  have "\<exists>ht. run_ops table_call cs (hashtable_new addr (Some hash) equals)
      = Inr (fst (run_calls (multimap_call key) cs (\<lambda>_. [])), ht)
    \<and> ?R ht (snd (run_calls (multimap_call key) cs (\<lambda>_. [])))"
    by (rule run_ops_calls [where R = ?R, OF step])
      (auto simp: keyed_ok_new with_key_def hashtable_new_items)
  then show ?thesis using hashtable_destroy_ok by (auto simp: keyed_ok_def)
qed

theorem hashtable_multimap_witness:
  "\<exists>ht. run_ops table_call [Insert (1::nat, ''a''), Insert (1024, ''b''), Lookup (1, ''''), Delete (1024, ''''), Lookup (1024, '''')]
      (hashtable_new (\<lambda>_. 0) (Some (\<lambda>p. int (case p of None \<Rightarrow> 0 | Some (n, s) \<Rightarrow> n)))
        (\<lambda>p q. map_option fst p = map_option fst q))
      = Inr ([None, None, Some (1, ''a''), Some (1024, ''b''), None], ht)"
proof -
  have "keyed (\<lambda>p. int (case p of None \<Rightarrow> 0 | Some (n, s) \<Rightarrow> n))
      (\<lambda>p q :: (nat \<times> string) ptr. map_option fst p = map_option fst q) fst"
    by unfold_locales auto
  note run = hashtable_multimap [OF this, of "[Insert (1::nat, ''a''), Insert (1024, ''b''), Lookup (1, ''''), Delete (1024, ''''), Lookup (1024, '''')]" "\<lambda>_. 0"]
  have "fst (run_calls (multimap_call fst) [Insert (1::nat, ''a''), Insert (1024, ''b''), Lookup (1, ''''), Delete (1024, ''''), Lookup (1024, '''')] (\<lambda>_. []))
      = [None, None, Some (1, ''a''), Some (1024, ''b''), None]"
    by simp
  with run show ?thesis by metis
qed



text \<open>The default hash, the pointer's low 32 bits as an \<open>int\<close>, is negative for half of all
  pointers; for such an element that is no multiple of the table size every operation indexes
  the bucket array with a negative number.\<close>

theorem hashtable_negative_hash:
  assumes "hashtable_ok ht" "ht_hash ht e < 0" "\<not> 1023 dvd ht_hash ht e"
  shows "hashtable_add ht e = Inl OutOfBounds \<and> hashtable_get_element ht e = Inl OutOfBounds
    \<and> hashtable_remove_element ht e = Inl OutOfBounds"
  using bucket_index_negative [OF assms]
  by (simp add: hashtable_add_def hashtable_get_element_def hashtable_remove_element_def)

theorem hashtable_negative_hash_witness:
  "hashtable_add (hashtable_new int_of_void None (=)) (void_of_int 0x80000000) = Inl OutOfBounds"
  using hashtable_negative_hash [OF hashtable_new_ok, of int_of_void None "(=)" "void_of_int 0x80000000"]
  by (simp add: hashtable_new_def default_hash_function_def)

end
