(* ===== verification/SparseSet.thy ===== *)
theory SparseSet
  imports Prelude
begin

text \<open>
  The sparse set of \<open>utility/SDSet/SDSet.c\<close>: a map from small integers in which a key is set
  when \<open>sparse[key]\<close> points into the used part of \<open>dense\<close> and \<open>dense\<close> points back. The arrays
  are never initialised; \<open>junk\<close>, the number the \<open>n\<close>-th fresh cell happens to hold, is a
  parameter of every operation that allocates, and the results hold for every \<open>junk\<close>.
\<close>

section \<open>State and operations\<close>

definition INITITIAL_SIZE :: nat where
  "INITITIAL_SIZE = 10"

record 'a sdset =
  sd_dense :: "nat list"
  sd_sparse :: "nat list"
  sd_values :: "'a ptr list"
  sd_size :: nat
  sd_space :: nat

definition sdset_new :: "(nat \<Rightarrow> nat) \<Rightarrow> 'a sdset" where
  "sdset_new junk = \<lparr>sd_dense = map junk [0..<INITITIAL_SIZE], sd_sparse = map junk [0..<INITITIAL_SIZE],
     sd_values = malloc_cells INITITIAL_SIZE, sd_size = 0, sd_space = INITITIAL_SIZE\<rparr>"

definition sdset_clear :: "'a sdset \<Rightarrow> 'a sdset" where
  "sdset_clear s = s\<lparr>sd_size := 0\<rparr>"

definition sdset_is_set :: "'a sdset \<Rightarrow> int \<Rightarrow> bool outcome" where
  "sdset_is_set s key =
     bindE (cell (sd_sparse s) key) (\<lambda>i.
       if i < sd_size s then bindE (cell (sd_dense s) (int i)) (\<lambda>k. Inr (int k = key))
       else Inr False)"

definition sdset_double :: "(nat \<Rightarrow> nat) \<Rightarrow> 'a sdset \<Rightarrow> 'a sdset" where
  "sdset_double junk s = s\<lparr>sd_space := sd_space s * 2,
     sd_dense := sd_dense s @ map junk [sd_space s..<sd_space s * 2],
     sd_sparse := sd_sparse s @ map junk [sd_space s..<sd_space s * 2],
     sd_values := sd_values s @ malloc_cells (sd_space s)\<rparr>"

text \<open>
  \<open>while (key >= space) space *= 2\<close>: the fuel \<open>key + 1\<close> is enough when the space is positive,
  since every round adds at least one; it is zero for a negative key, where the loop does not
  run.
\<close>

fun sdset_grow :: "nat \<Rightarrow> (nat \<Rightarrow> nat) \<Rightarrow> int \<Rightarrow> 'a sdset \<Rightarrow> 'a sdset outcome" where
  "sdset_grow n junk key s =
     (if key < int (sd_space s) then Inr s
      else case n of 0 \<Rightarrow> Inl NoReturn | Suc m \<Rightarrow> sdset_grow m junk key (sdset_double junk s))"

declare sdset_grow.simps [simp del]

definition sdset_set :: "(nat \<Rightarrow> nat) \<Rightarrow> 'a sdset \<Rightarrow> int \<Rightarrow> 'a ptr \<Rightarrow> 'a sdset outcome" where
  "sdset_set junk s key value =
     bindE (sdset_grow (nat (key + 1)) junk key s) (\<lambda>s1.
     bindE (set_cell (sd_dense s1) (int (sd_size s1)) (nat key)) (\<lambda>dense.
     bindE (set_cell (sd_sparse s1) key (sd_size s1)) (\<lambda>sparse.
     bindE (set_cell (sd_values s1) key value) (\<lambda>values.
       Inr (s1\<lparr>sd_dense := dense, sd_sparse := sparse, sd_values := values, sd_size := sd_size s1 + 1\<rparr>)))))"

definition sdset_get :: "'a sdset \<Rightarrow> int \<Rightarrow> 'a ptr outcome" where
  "sdset_get s key =
     bindE (sdset_is_set s key) (\<lambda>b. if b then cell (sd_values s) key else Inr None)"

definition sdset_length :: "'a sdset \<Rightarrow> nat" where
  "sdset_length s = sd_size s"

definition sdset_get_index :: "'a sdset \<Rightarrow> int \<Rightarrow> 'a ptr outcome" where
  "sdset_get_index s index =
     (if index \<ge> int (sd_size s) then Inr None
      else bindE (cell (sd_dense s) index) (\<lambda>k. cell (sd_values s) (int k)))"

section \<open>Representation\<close>

text \<open>The keys in the order they were set, and what they map to.\<close>

definition sd_rep :: "'a sdset \<Rightarrow> nat list \<Rightarrow> (nat \<Rightarrow> 'a ptr) \<Rightarrow> nat \<Rightarrow> bool" where
  "sd_rep s ks m space \<longleftrightarrow> sd_space s = space \<and> 0 < space \<and> length (sd_dense s) = space
     \<and> length (sd_sparse s) = space \<and> length (sd_values s) = space
     \<and> sd_size s = length ks \<and> length ks \<le> space \<and> distinct ks
     \<and> take (length ks) (sd_dense s) = ks
     \<and> (\<forall>i < length ks. ks ! i < space \<and> sd_sparse s ! (ks ! i) = i \<and> sd_values s ! (ks ! i) = m (ks ! i))"

lemma sd_rep_new: "sd_rep (sdset_new junk) [] m INITITIAL_SIZE"
  by (simp add: sd_rep_def sdset_new_def INITITIAL_SIZE_def)

lemma sd_rep_clear: "sd_rep s ks m space \<Longrightarrow> sd_rep (sdset_clear s) [] m' space"
  by (simp add: sd_rep_def sdset_clear_def)

lemma sd_rep_double: "sd_rep s ks m space \<Longrightarrow> sd_rep (sdset_double junk s) ks m (space * 2)"
  by (auto simp: sd_rep_def sdset_double_def nth_append)

lemma sd_rep_dense:
  assumes "sd_rep s ks m space" "i < length ks"
  shows "sd_dense s ! i = ks ! i"
proof -
  have "take (length ks) (sd_dense s) ! i = ks ! i" using assms(1) by (simp add: sd_rep_def)
  with assms(2) show ?thesis by simp
qed

lemma sd_rep_is_set:
  assumes "sd_rep s ks m space" "k < space"
  shows "sdset_is_set s (int k) = Inr (k \<in> set ks)"
proof -
  let ?i = "sd_sparse s ! k"
  have c: "cell (sd_sparse s) (int k) = Inr ?i"
    using assms by (simp add: cell_def sd_rep_def)
  show ?thesis
  proof (cases "?i < length ks")
    case True
    then have "cell (sd_dense s) (int ?i) = Inr (ks ! ?i)"
      using assms(1) sd_rep_dense [OF assms(1) True] by (simp add: cell_def sd_rep_def)
    moreover have "ks ! ?i = k \<longleftrightarrow> k \<in> set ks"
      using True assms(1) by (auto simp: sd_rep_def in_set_conv_nth)
    ultimately show ?thesis
      using c True assms(1) by (simp add: sdset_is_set_def sd_rep_def)
  next
    case False
    then have "k \<notin> set ks"
      using assms(1) by (auto simp: sd_rep_def in_set_conv_nth)
    with c False assms(1) show ?thesis
      by (simp add: sdset_is_set_def sd_rep_def)
  qed
qed

lemma sd_rep_get:
  assumes "sd_rep s ks m space" "k < space"
  shows "sdset_get s (int k) = Inr (if k \<in> set ks then m k else None)"
proof -
  have "cell (sd_values s) (int k) = Inr (m k)" if "k \<in> set ks"
    using that assms by (auto simp: cell_def sd_rep_def in_set_conv_nth)
  then show ?thesis using sd_rep_is_set [OF assms] by (simp add: sdset_get_def)
qed

lemma sd_rep_get_index:
  assumes "sd_rep s ks m space"
  shows "sdset_get_index s (int i) = Inr (if i < length ks then m (ks ! i) else None)"
  using assms sd_rep_dense [OF assms, of i] by (auto simp: sdset_get_index_def cell_def sd_rep_def)

text \<open>The space after the growth loop: doubled until the key fits.\<close>

function space_for :: "nat \<Rightarrow> nat \<Rightarrow> nat" where
  "space_for k space = (if k < space \<or> space = 0 then space else space_for k (space * 2))"
  by pat_completeness auto
termination
  by (relation "measure (\<lambda>(k, space). Suc k - space)") auto

declare space_for.simps [simp del]

lemma space_for_less: "0 < space \<Longrightarrow> k < space_for k space \<and> space \<le> space_for k space"
proof (induction k space rule: space_for.induct)
  case (1 k space)
  then show ?case by (subst (1 2) space_for.simps) auto
qed

lemma sdset_grow_rep:
  "sd_rep s ks m space \<Longrightarrow> k < n + space \<Longrightarrow>
    \<exists>s'. sdset_grow n junk (int k) s = Inr s' \<and> sd_rep s' ks m (space_for k space)"
proof (induction n arbitrary: s space)
  case 0
  then show ?case by (subst sdset_grow.simps, subst space_for.simps) (simp add: sd_rep_def)
next
  case (Suc n)
  have sp: "sd_space s = space" "0 < space" using Suc.prems(1) by (auto simp: sd_rep_def)
  show ?case
  proof (cases "k < space")
    case True
    with Suc.prems(1) sp show ?thesis by (subst sdset_grow.simps, subst space_for.simps) simp
  next
    case False
    then have "k < n + space * 2" using Suc.prems(2) sp(2) by simp
    from Suc.IH [OF sd_rep_double [OF Suc.prems(1)] this] False sp show ?thesis
      by (subst sdset_grow.simps, subst space_for.simps) simp
  qed
qed

lemma sd_rep_set:
  assumes "sd_rep s ks m space" "k \<notin> set ks"
  shows "\<exists>s'. sdset_set junk s (int k) v = Inr s' \<and> sd_rep s' (ks @ [k]) (m(k := v)) (space_for k space)"
proof -
  have "0 < space" using assms(1) by (simp add: sd_rep_def)
  then obtain s1 where s1: "sdset_grow (nat (int k + 1)) junk (int k) s = Inr s1"
    "sd_rep s1 ks m (space_for k space)" "k < space_for k space"
    using sdset_grow_rep [OF assms(1), of k "nat (int k + 1)" junk] space_for_less [of space k]
    by (auto simp: nat_add_distrib)
  let ?n = "space_for k space"
  have "insert k (set ks) \<subseteq> {..<?n}"
    using s1(2,3) by (auto simp: sd_rep_def in_set_conv_nth)
  then have "card (insert k (set ks)) \<le> ?n"
    by (metis card_lessThan card_mono finite_lessThan)
  then have size: "length ks < ?n"
    using assms(2) s1(2) by (simp add: sd_rep_def distinct_card)
  let ?s = "s1\<lparr>sd_dense := (sd_dense s1)[length ks := k], sd_sparse := (sd_sparse s1)[k := length ks],
    sd_values := (sd_values s1)[k := v], sd_size := length ks + 1\<rparr>"
  have "sdset_set junk s (int k) v = Inr ?s"
    using s1 size by (simp add: sdset_set_def set_cell_def sd_rep_def)
  moreover have "sd_rep ?s (ks @ [k]) (m(k := v)) ?n"
    using s1(2,3) size assms(2)
    by (auto simp: sd_rep_def nth_append nth_list_update take_Suc_conv_app_nth less_Suc_eq)
  ultimately show ?thesis by blast
qed

section \<open>Properties\<close>

datatype 'a sd_op = SdSet int "'a ptr" | SdGet int | SdIsSet int | SdLength | SdIndex int | SdClear

datatype 'a sd_answer = SdPtr "'a ptr" | SdBool bool | SdInt nat | SdUnit

fun sd_call :: "(nat \<Rightarrow> nat) \<Rightarrow> 'a sd_op \<Rightarrow> 'a sdset \<Rightarrow> ('a sd_answer \<times> 'a sdset) outcome" where
  "sd_call junk (SdSet k v) s = bindE (sdset_set junk s k v) (\<lambda>s'. Inr (SdUnit, s'))"
| "sd_call junk (SdGet k) s = bindE (sdset_get s k) (\<lambda>v. Inr (SdPtr v, s))"
| "sd_call junk (SdIsSet k) s = bindE (sdset_is_set s k) (\<lambda>b. Inr (SdBool b, s))"
| "sd_call junk SdLength s = Inr (SdInt (sdset_length s), s)"
| "sd_call junk (SdIndex i) s = bindE (sdset_get_index s i) (\<lambda>v. Inr (SdPtr v, s))"
| "sd_call junk SdClear s = Inr (SdUnit, sdset_clear s)"

text \<open>
  An ordered map that says nothing where the code promises nothing: setting a key that is set
  already, a negative key or index, and looking up a key beyond the space.
\<close>

fun map_call :: "'a sd_op \<Rightarrow> nat list \<times> (nat \<Rightarrow> 'a ptr) \<times> nat
    \<Rightarrow> ('a sd_answer \<times> nat list \<times> (nat \<Rightarrow> 'a ptr) \<times> nat) option" where
  "map_call (SdSet k v) (ks, m, space) =
     (if k < 0 \<or> nat k \<in> set ks then None
      else Some (SdUnit, ks @ [nat k], m(nat k := v), space_for (nat k) space))"
| "map_call (SdGet k) (ks, m, space) =
     (if k < 0 \<or> k \<ge> int space then None
      else Some (SdPtr (if nat k \<in> set ks then m (nat k) else None), ks, m, space))"
| "map_call (SdIsSet k) (ks, m, space) =
     (if k < 0 \<or> k \<ge> int space then None else Some (SdBool (nat k \<in> set ks), ks, m, space))"
| "map_call SdLength (ks, m, space) = Some (SdInt (length ks), ks, m, space)"
| "map_call (SdIndex i) (ks, m, space) =
     (if i < 0 then None
      else Some (SdPtr (if nat i < length ks then m (ks ! nat i) else None), ks, m, space))"
| "map_call SdClear (ks, m, space) = Some (SdUnit, [], m, space)"

lemma sd_call_map:
  assumes rep: "sd_rep s ks m space" and call: "map_call c (ks, m, space) = Some (r, ks', m', space')"
  shows "\<exists>s'. sd_call junk c s = Inr (r, s') \<and> sd_rep s' ks' m' space'"
proof (cases c)
  case (SdSet k v)
  with call obtain n where n: "k = int n" "n \<notin> set ks" by (cases k) (auto split: if_splits)
  with SdSet call sd_rep_set [OF rep n(2), of junk v] show ?thesis by auto
next
  case (SdGet k)
  with call obtain n where n: "k = int n" "n < space" by (cases k) (auto split: if_splits)
  with SdGet call sd_rep_get [OF rep n(2)] rep show ?thesis by auto
next
  case (SdIsSet k)
  with call obtain n where n: "k = int n" "n < space" by (cases k) (auto split: if_splits)
  with SdIsSet call sd_rep_is_set [OF rep n(2)] rep show ?thesis by auto
next
  case SdLength
  with call rep show ?thesis by (auto simp: sdset_length_def sd_rep_def)
next
  case (SdIndex i)
  with call obtain n where n: "i = int n" by (cases i) (auto split: if_splits)
  with SdIndex call sd_rep_get_index [OF rep, of n] rep show ?thesis by auto
next
  case SdClear
  with call sd_rep_clear [OF rep, of m] show ?thesis by auto
qed



text \<open>Setting one key again takes a new \<open>dense\<close> cell each time and nothing grows the arrays for
  it: the eleventh \<open>sdset_set\<close> of key 0 writes past the end of \<open>dense\<close>, and looking up a key
  beyond the space reads past the end of \<open>sparse\<close>.\<close>

theorem sdset_out_of_bounds:
  "foldE (\<lambda>v s. sdset_set junk s 0 v) (replicate 11 v) (sdset_new junk) = Inl OutOfBounds
    \<and> sdset_get (sdset_new junk) 10 = Inl OutOfBounds"
proof -
  have step: "sdset_set junk s 0 v = (if sd_size s < 10
      then Inr (s\<lparr>sd_dense := (sd_dense s)[sd_size s := 0], sd_sparse := (sd_sparse s)[0 := sd_size s],
        sd_values := (sd_values s)[0 := v], sd_size := sd_size s + 1\<rparr>) else Inl OutOfBounds)"
    if "sd_space s = 10" "length (sd_dense s) = 10" "length (sd_sparse s) = 10" "length (sd_values s) = 10" for s
    using that by (auto simp: sdset_set_def sdset_grow.simps set_cell_def)
  have "foldE (\<lambda>v s. sdset_set junk s 0 v) (replicate n v) s = Inl OutOfBounds"
    if "sd_space s = 10" "length (sd_dense s) = 10" "length (sd_sparse s) = 10" "length (sd_values s) = 10"
      "sd_size s + n = 11" "0 < n" for n s
    using that
  proof (induction n arbitrary: s)
    case 0
    then show ?case by simp
  next
    case (Suc n)
    then show ?case by (cases "n = 0") (simp_all add: step)
  qed
  then show ?thesis
    by (simp add: sdset_new_def INITITIAL_SIZE_def sdset_get_def sdset_is_set_def cell_def)
qed

end
