(* ===== verification/Bytes.thy ===== *)
theory Bytes
  imports Prelude
begin

text \<open>
  Bytes on the wire: the memory image of a C \<open>int\<close> (32 bits, little endian), the strings
  \<open>sprintf\<close> prints for numbers and \<open>sscanf\<close> reads, and NUL-terminated strings in a buffer. A
  \<open>char\<close> is a byte; a C string is a list of bytes without 0. The locale \<open>codec\<close> is the contract of
  every serializer: decoding what was encoded gives it back and leaves the rest of the buffer.
\<close>

type_synonym byte = "8 word"

type_synonym cstring = "byte list"

section \<open>The image of an \<open>int\<close>\<close>

definition int_bytes :: "int \<Rightarrow> byte list" where
  "int_bytes i = map (\<lambda>k. word_of_int (i div 256 ^ k)) [0, 1, 2, 3]"

fun bytes_int :: "byte list \<Rightarrow> int" where
  "bytes_int (a # b # c # d # rest) =
     (let n = uint a + 256 * uint b + 65536 * uint c + 16777216 * uint d
      in if n < 2147483648 then n else n - 4294967296)"
| "bytes_int _ = 0"

definition is_int :: "int \<Rightarrow> bool" where
  "is_int i \<longleftrightarrow> - 2147483648 \<le> i \<and> i < 2147483648"

lemma length_int_bytes [simp]: "length (int_bytes i) = 4"
  by (simp add: int_bytes_def)

lemma base256:
  "(i :: int) mod 256 + 256 * (i div 256 mod 256) + 65536 * (i div 65536 mod 256) + 16777216 * (i div 16777216 mod 256)
    = i mod 4294967296"
proof -
  have 3: "i mod 4294967296 = 16777216 * (i div 16777216 mod 256) + i mod 16777216"
    using zmod_zmult2_eq [of 256 i 16777216] by (simp add: mult.commute)
  have 2: "i mod 16777216 = 65536 * (i div 65536 mod 256) + i mod 65536"
    using zmod_zmult2_eq [of 256 i 65536] by (simp add: mult.commute)
  have 1: "i mod 65536 = 256 * (i div 256 mod 256) + i mod 256"
    using zmod_zmult2_eq [of 256 i 256] by (simp add: mult.commute)
  show ?thesis by (simp only: 3 2 1 ac_simps)
qed

lemma int_mod_wrap: "is_int i \<Longrightarrow> i mod 4294967296 = (if 0 \<le> i then i else i + 4294967296)"
proof (cases "0 \<le> i")
  case True
  then show "is_int i \<Longrightarrow> ?thesis" by (simp add: is_int_def mod_pos_pos_trivial)
next
  case False
  assume "is_int i"
  then have "(i + 4294967296) mod 4294967296 = i + 4294967296"
    using False by (intro mod_pos_pos_trivial) (auto simp: is_int_def)
  with False show ?thesis by simp
qed

lemma bytes_int_bytes [simp]: "is_int i \<Longrightarrow> bytes_int (int_bytes i @ rest) = i"
proof -
  assume i: "is_int i"
  have u: "uint (word_of_int j :: byte) = j mod 256" for j by (simp add: uint_word_of_int)
  have l: "int_bytes i = [word_of_int i, word_of_int (i div 256), word_of_int (i div 65536),
      word_of_int (i div 16777216)]"
    by (simp add: int_bytes_def)
  have "bytes_int (int_bytes i @ rest)
      = (if i mod 4294967296 < 2147483648 then i mod 4294967296 else i mod 4294967296 - 4294967296)"
    by (simp only: l append_Cons bytes_int.simps Let_def u base256)
  with i int_mod_wrap [OF i] show "bytes_int (int_bytes i @ rest) = i"
    by (auto simp: is_int_def split: if_splits)
qed

lemma bytes_int_bytes_only [simp]: "is_int i \<Longrightarrow> bytes_int (int_bytes i) = i"
  using bytes_int_bytes [of i "[]"] by simp

section \<open>The contract of a serializer\<close>

text \<open>\<open>dec\<close> returns what it read and what is left of the buffer.\<close>

locale codec =
  fixes enc :: "'a \<Rightarrow> byte list"
    and dec :: "byte list \<Rightarrow> ('a \<times> byte list) outcome"
    and valid :: "'a \<Rightarrow> bool"
  assumes dec_enc: "valid x \<Longrightarrow> dec (enc x @ rest) = Inr (x, rest)"
begin

lemma round_trip: "valid x \<Longrightarrow> dec (enc x) = Inr (x, [])"
  using dec_enc [of x "[]"] by simp

lemma injective: "valid x \<Longrightarrow> valid y \<Longrightarrow> enc x = enc y \<Longrightarrow> x = y"
  by (metis Inr_inject prod.inject round_trip)

lemma prefix_free: "valid x \<Longrightarrow> valid y \<Longrightarrow> enc x @ r = enc y @ s \<Longrightarrow> x = y \<and> r = s"
  by (metis Inr_inject prod.inject dec_enc)

text \<open>Two values one after the other, as the messages carry them.\<close>

lemma two_in_a_row:
  "valid x \<Longrightarrow> valid y \<Longrightarrow>
    bindE (dec (enc x @ enc y @ rest)) (\<lambda>(a, r). bindE (dec r) (\<lambda>(b, s). Inr (a, b, s))) = Inr (x, y, rest)"
  by (simp add: dec_enc)

end

definition int_decode :: "byte list \<Rightarrow> (int \<times> byte list) outcome" where
  "int_decode bs = (if length bs < 4 then Inl OutOfBounds else Inr (bytes_int bs, drop 4 bs))"

interpretation int_codec: codec int_bytes int_decode is_int
  by unfold_locales (simp add: int_decode_def)

section \<open>NUL-terminated strings\<close>

definition is_cstring :: "cstring \<Rightarrow> bool" where
  "is_cstring s \<longleftrightarrow> 0 \<notin> set s"

text \<open>\<open>strlen\<close> and copying: the bytes before the first 0; without one the read leaves the buffer.\<close>

fun read_string :: "byte list \<Rightarrow> (cstring \<times> byte list) outcome" where
  "read_string [] = Inl OutOfBounds"
| "read_string (b # bs) = (if b = 0 then Inr ([], bs)
     else bindE (read_string bs) (\<lambda>(s, rest). Inr (b # s, rest)))"

definition string_bytes :: "cstring \<Rightarrow> byte list" where
  "string_bytes s = s @ [0]"

interpretation string_codec: codec string_bytes read_string is_cstring
proof
  fix s :: cstring and rest
  show "is_cstring s \<Longrightarrow> read_string (string_bytes s @ rest) = Inr (s, rest)"
    by (induction s) (auto simp: is_cstring_def string_bytes_def)
qed

section \<open>Numbers as text\<close>

text \<open>\<open>sprintf("%lu")\<close> and \<open>"%d"\<close>: the decimal digits, most significant first, after a minus sign.\<close>

definition digit :: "nat \<Rightarrow> byte" where
  "digit d = of_nat (48 + d)"

fun print_nat :: "nat \<Rightarrow> byte list" where
  "print_nat n = (if n < 10 then [digit n] else print_nat (n div 10) @ [digit (n mod 10)])"

declare print_nat.simps [simp del]

definition print_int :: "int \<Rightarrow> byte list" where
  "print_int i = (if i < 0 then 45 # print_nat (nat (- i)) else print_nat (nat i))"

text \<open>
  \<open>sscanf("%lu")\<close> and \<open>"%d"\<close>: skip white space, read an optional sign and the longest run of
  digits, at least one; the number of bytes left tells \<open>%n\<close>. \<open>None\<close> when there is no number,
  which leaves the variable of the caller as it was.
\<close>

definition is_digit :: "byte \<Rightarrow> bool" where
  "is_digit b \<longleftrightarrow> 48 \<le> b \<and> b \<le> 57"

definition is_space :: "byte \<Rightarrow> bool" where
  "is_space b \<longleftrightarrow> b = 32 \<or> (9 \<le> b \<and> b \<le> 13)"

fun scan_digits :: "nat \<Rightarrow> byte list \<Rightarrow> nat \<times> byte list" where
  "scan_digits n [] = (n, [])"
| "scan_digits n (b # bs) = (if is_digit b then scan_digits (n * 10 + (unat b - 48)) bs else (n, b # bs))"

definition scan_nat :: "byte list \<Rightarrow> (nat \<times> byte list) option" where
  "scan_nat bs = (case bs of [] \<Rightarrow> None
     | b # _ \<Rightarrow> if is_digit b then Some (scan_digits 0 bs) else None)"

definition scan_int :: "byte list \<Rightarrow> (int \<times> byte list) option" where
  "scan_int bs = (case dropWhile is_space bs of
     [] \<Rightarrow> None
   | b # rest \<Rightarrow>
       if b = 45 then map_option (\<lambda>(n, r). (- int n, r)) (scan_nat rest)
       else if b = 43 then map_option (\<lambda>(n, r). (int n, r)) (scan_nat rest)
       else map_option (\<lambda>(n, r). (int n, r)) (scan_nat (b # rest)))"

text \<open>A byte that ends a number.\<close>

definition stops :: "byte list \<Rightarrow> bool" where
  "stops bs \<longleftrightarrow> (case bs of [] \<Rightarrow> True | b # _ \<Rightarrow> \<not> is_digit b)"

lemma unat_digit: "d < 10 \<Longrightarrow> unat (digit d) = 48 + d"
  by (simp add: digit_def unsigned_of_nat take_bit_nat_eq_self del: of_nat_add)

lemma is_digit_digit: "d < 10 \<Longrightarrow> is_digit (digit d)"
  by (simp add: is_digit_def word_le_nat_alt unat_digit)

lemma scan_digits_append:
  "list_all is_digit ds \<Longrightarrow> stops rest \<Longrightarrow> scan_digits n (ds @ rest) = (fst (scan_digits n ds), rest)"
  by (induction n ds rule: scan_digits.induct) (auto simp: stops_def split: list.splits)

lemma scan_digits_snoc:
  "list_all is_digit ds \<Longrightarrow> is_digit b \<Longrightarrow>
    fst (scan_digits n (ds @ [b])) = fst (scan_digits n ds) * 10 + (unat b - 48)"
  by (induction n ds rule: scan_digits.induct) auto

lemma print_nat_digits: "list_all is_digit (print_nat n) \<and> print_nat n \<noteq> []"
proof (induction n rule: print_nat.induct)
  case (1 n)
  then show ?case by (subst (1 2) print_nat.simps) (auto simp: is_digit_digit)
qed

lemma scan_print_digits: "fst (scan_digits 0 (print_nat n)) = n"
proof (induction n rule: print_nat.induct)
  case (1 n)
  show ?case
  proof (cases "n < 10")
    case True
    then show ?thesis by (subst print_nat.simps) (simp add: is_digit_digit unat_digit)
  next
    case False
    then have "fst (scan_digits 0 (print_nat n))
        = fst (scan_digits 0 (print_nat (n div 10))) * 10 + (unat (digit (n mod 10)) - 48)"
      by (subst print_nat.simps) (simp add: scan_digits_snoc print_nat_digits is_digit_digit)
    with 1 [OF False] show ?thesis by (simp add: unat_digit)
  qed
qed

lemma scan_nat_print: "stops rest \<Longrightarrow> scan_nat (print_nat n @ rest) = Some (n, rest)"
  using print_nat_digits [of n] scan_digits_append [of "print_nat n" rest 0] scan_print_digits [of n]
  by (cases "print_nat n") (auto simp: scan_nat_def)

lemma digit_class: "is_digit b \<Longrightarrow> b \<noteq> 45 \<and> b \<noteq> 43 \<and> \<not> is_space b \<and> b \<noteq> 0"
  by (auto simp: is_digit_def is_space_def word_le_nat_alt)

lemma scan_int_print: "stops rest \<Longrightarrow> scan_int (print_int i @ rest) = Some (i, rest)"
proof -
  assume r: "stops rest"

  show ?thesis
  proof (cases "i < 0")
    case True
    then show ?thesis using scan_nat_print [OF r, of "nat (- i)"]
      by (simp add: scan_int_def print_int_def is_space_def)
  next
    case False
    obtain b bs where p: "print_nat (nat i) = b # bs" "is_digit b"
      using print_nat_digits [of "nat i"] by (cases "print_nat (nat i)") auto
    with False digit_class [OF p(2)] scan_nat_print [OF r, of "nat i"] show ?thesis
      by (simp add: scan_int_def print_int_def)
  qed
qed

lemma scan_int_space: "is_space b \<Longrightarrow> scan_int (b # bs) = scan_int bs"
  by (simp add: scan_int_def)

lemma print_int_no_zero: "0 \<notin> set (print_int i)"
  using print_nat_digits digit_class by (auto simp: print_int_def list_all_iff)

lemma stops_simps [simp]: "stops []" "stops (b # bs) \<longleftrightarrow> \<not> is_digit b"
  by (auto simp: stops_def)

lemma not_digit_simps [simp]: "\<not> is_digit 0" "\<not> is_digit 32" "is_space 32"
  by (auto simp: is_digit_def is_space_def)

end
