(* ===== verification/Chunky.thy ===== *)
theory Chunky
  imports Bytes
begin

text \<open>
  Files cut into chunks of 500000 bytes, \<open>utility/ChunkyFile/ChunkyFile.c\<close>: a file that is read
  to be sent chunk by chunk and a file that is put together from chunks. \<open>get_chunk\<close> and
  \<open>set_chunk\<close> compute the size of the last chunk as \<open>size % 500000\<close>, which is 0 when the size is
  a positive multiple; the properties show the transfer right for all other sizes and wrong for
  these. \<open>char\<close> is a byte.
\<close>

section \<open>State and operations\<close>

definition CHUNKYFILE_CHUNK_SIZE :: int where
  "CHUNKYFILE_CHUNK_SIZE = 500000"

record chunkyfile =
  cf_path :: "cstring option"
  cf_data :: "byte list"
  cf_size :: int
  cf_chunks_written :: "bool list"
  cf_modify_time :: int

text \<open>\<open>/\<close> and \<open>%\<close> truncate towards zero; sizes are \<open>int\<close>.\<close>

definition num_chunks_for_size :: "int \<Rightarrow> int" where
  "num_chunks_for_size n =
     (if n smod CHUNKYFILE_CHUNK_SIZE = 0 then n sdiv CHUNKYFILE_CHUNK_SIZE
      else n sdiv CHUNKYFILE_CHUNK_SIZE + 1)"

text \<open>
  A file system answers \<open>stat\<close> and \<open>fopen\<close>/\<open>fgetc\<close> for a path: whether it is a regular file, and
  its bytes. The \<open>int\<close> field \<open>size\<close> keeps the low 32 bits of the length, the loop reads that many
  bytes, and \<open>modify_time\<close> is not initialised.
\<close>

definition int_of_size :: "nat \<Rightarrow> int" where
  "int_of_size n = sint (word_of_nat n :: 32 word)"

definition chunkyfile_new_for_reading_from_path ::
    "(cstring \<Rightarrow> bool \<times> byte list) \<Rightarrow> cstring \<Rightarrow> chunkyfile option" where
  "chunkyfile_new_for_reading_from_path disk path =
     (let (is_reg, bytes) = disk path; n = int_of_size (length bytes) in
      if \<not> is_reg then None
      else Some \<lparr>cf_path = None,
        cf_data = take (nat n) bytes @ malloc_cells (length bytes - nat n),
        cf_size = n,
        cf_chunks_written = replicate (nat (num_chunks_for_size n)) False,
        cf_modify_time = undefined\<rparr>)"

definition DEADBEEF :: "byte list" where
  "DEADBEEF = map (of_nat \<circ> of_char) ''DEADBEEF''"

definition chunkyfile_new_for_writing_to_path :: "cstring \<Rightarrow> int \<Rightarrow> int \<Rightarrow> chunkyfile" where
  "chunkyfile_new_for_writing_to_path path n modify_time =
     \<lparr>cf_path = Some path, cf_data = map (\<lambda>i. DEADBEEF ! (i mod 8)) [0..<nat n], cf_size = n,
      cf_chunks_written = replicate (nat (num_chunks_for_size n)) False,
      cf_modify_time = modify_time\<rparr>"

text \<open>The file written, \<open>fopen(path, "w+")\<close> and \<open>utime\<close>: path, bytes and modification time.\<close>

definition chunkyfile_write :: "chunkyfile \<Rightarrow> (cstring \<times> byte list \<times> int) outcome" where
  "chunkyfile_write cf = (case cf_path cf of
     None \<Rightarrow> Inl AssertFail
   | Some path \<Rightarrow> Inr (path, map (\<lambda>i. cf_data cf ! i) [0..<nat (cf_size cf)], cf_modify_time cf))"

definition chunkyfile_num_chunks :: "chunkyfile \<Rightarrow> int" where
  "chunkyfile_num_chunks cf = num_chunks_for_size (cf_size cf)"

text \<open>
  The result is a pointer into \<open>data\<close> and a size; a reader takes that many bytes from there,
  which the model returns.
\<close>

definition chunkyfile_chunk_size :: "chunkyfile \<Rightarrow> int \<Rightarrow> int" where
  "chunkyfile_chunk_size cf chunkNum =
     (if chunkNum = chunkyfile_num_chunks cf - 1 then cf_size cf smod CHUNKYFILE_CHUNK_SIZE
      else CHUNKYFILE_CHUNK_SIZE)"

definition chunkyfile_get_chunk :: "chunkyfile \<Rightarrow> int \<Rightarrow> byte list outcome" where
  "chunkyfile_get_chunk cf chunkNum =
     (let start = chunkNum * CHUNKYFILE_CHUNK_SIZE; n = chunkyfile_chunk_size cf chunkNum in
      if 0 \<le> start \<and> 0 \<le> n \<and> start + n \<le> int (length (cf_data cf))
      then Inr (take (nat n) (drop (nat start) (cf_data cf))) else Inl OutOfBounds)"

text \<open>
  A wrong size is reported on the terminal (the \<open>bool\<close>) and used all the same: \<open>memcpy\<close> copies
  what was passed.
\<close>

definition chunkyfile_set_chunk :: "chunkyfile \<Rightarrow> int \<Rightarrow> byte list \<Rightarrow> (bool \<times> chunkyfile) outcome" where
  "chunkyfile_set_chunk cf chunkNum chunk =
     (let start = chunkNum * CHUNKYFILE_CHUNK_SIZE; n = length chunk in
      bindE (set_cell (cf_chunks_written cf) chunkNum True) (\<lambda>written.
        if start + int n \<le> int (length (cf_data cf))
        then Inr (int n \<noteq> chunkyfile_chunk_size cf chunkNum,
          cf\<lparr>cf_chunks_written := written,
             cf_data := take (nat start) (cf_data cf) @ chunk @ drop (nat start + n) (cf_data cf)\<rparr>)
        else Inl OutOfBounds))"

definition chunkyfile_all_chunks_written :: "chunkyfile \<Rightarrow> bool" where
  "chunkyfile_all_chunks_written cf \<longleftrightarrow>
     list_all (\<lambda>i. cf_chunks_written cf ! i) [0..<nat (chunkyfile_num_chunks cf)]"

section \<open>Chunks of a file\<close>

definition chunk_count :: "nat \<Rightarrow> nat" where
  "chunk_count n = (if n mod 500000 = 0 then n div 500000 else Suc (n div 500000))"

text \<open>How many bytes of chunk \<open>i\<close> of a file of \<open>n\<close> bytes are sent.\<close>

definition sent :: "nat \<Rightarrow> nat \<Rightarrow> nat" where
  "sent n i = (if Suc i = chunk_count n then n mod 500000 else 500000)"

lemma num_chunks_nat: "num_chunks_for_size (int n) = int (chunk_count n)"
proof -
  have "int n smod 500000 = int (n mod 500000)" "int n sdiv 500000 = int (n div 500000)"
    by (simp_all add: signed_modulo_int_def signed_divide_int_def sgn_if zmod_int zdiv_int)
  then show ?thesis
    by (simp add: num_chunks_for_size_def CHUNKYFILE_CHUNK_SIZE_def chunk_count_def)
qed

lemma int_of_size_small: "n < 2 ^ 31 \<Longrightarrow> int_of_size n = int n"
  by (simp add: int_of_size_def signed_take_bit_int_eq_self sint_uint unsigned_of_nat take_bit_nat_eq_self)

lemma chunk_size_sent:
  assumes "cf_size cf = int n"
  shows "chunkyfile_chunk_size cf (int i) = int (sent n i)"
proof -
  have "int n smod 500000 = int (n mod 500000)"
    by (simp add: signed_modulo_int_def sgn_if zmod_int)
  moreover have "int i = int (chunk_count n) - 1 \<longleftrightarrow> Suc i = chunk_count n" by linarith
  ultimately show ?thesis
    using assms by (simp add: chunkyfile_chunk_size_def chunkyfile_num_chunks_def num_chunks_nat
        CHUNKYFILE_CHUNK_SIZE_def sent_def)
qed

lemma sent_le: "sent n i \<le> 500000"
  by (simp add: sent_def less_imp_le)

lemma mult_div_le: "i < n div c \<Longrightarrow> i * c + c \<le> (n :: nat)"
  by (metis Suc_leI add.commute div_times_less_eq_dividend le_trans mult_Suc mult_le_mono1)

lemma sent_end: "i < chunk_count n \<Longrightarrow> i * 500000 + sent n i \<le> n"
  using mult_div_le [of i n 500000] div_mult_mod_eq [of n 500000]
  by (auto simp: sent_def chunk_count_def less_Suc_eq split: if_splits)

lemma div_mod_interval:
  fixes c :: nat
  assumes "s \<le> c"
  shows "i * c \<le> j \<and> j < i * c + s \<longleftrightarrow> j div c = i \<and> j mod c < s"
proof
  assume a: "i * c \<le> j \<and> j < i * c + s"
  then have "j div c = i" using assms by (intro div_nat_eqI) (auto simp: mult.commute)
  moreover have "i * c + j mod c = j" using calculation by (metis div_mult_mod_eq)
  ultimately show "j div c = i \<and> j mod c < s" using a by linarith
next
  assume "j div c = i \<and> j mod c < s"
  then show "i * c \<le> j \<and> j < i * c + s"
    by (metis div_mult_mod_eq le_add1 nat_add_left_cancel_less)
qed

lemma div_mod_below:
  fixes c :: nat
  assumes "j < n" "j div c = n div c"
  shows "j mod c < n mod c"
  using assms by (metis div_mult_mod_eq nat_add_left_cancel_less)

lemma byte_in_chunk:
  assumes "j < n" "n mod 500000 \<noteq> 0"
  shows "j div 500000 < chunk_count n \<and> j mod 500000 < sent n (j div 500000)"
proof -
  have "j div 500000 \<le> n div 500000" using assms(1) by (simp add: div_le_mono)
  then show ?thesis
    using assms div_mod_below [OF assms(1), of 500000] by (simp add: chunk_count_def sent_def)
qed

lemma chunk_count_multiple: "chunk_count (Suc k * 500000) = Suc k"
  by (simp add: chunk_count_def)

lemma byte_in_last_chunk:
  assumes "j < Suc k * 500000"
  shows "j mod 500000 < sent (Suc k * 500000) (j div 500000) \<longleftrightarrow> j < k * 500000"
proof -
  have "j < k * 500000 \<longleftrightarrow> j div 500000 < k" by (simp add: div_less_iff_less_mult)
  moreover have "j div 500000 \<le> k" using assms by (simp add: less_Suc_eq_le [symmetric] div_less_iff_less_mult)
  ultimately show ?thesis
    by (auto simp: sent_def chunk_count_multiple simp del: mult_Suc)
qed

text \<open>The writer after the chunks in \<open>S\<close> have been set.\<close>

definition written_ok :: "cstring \<Rightarrow> int \<Rightarrow> byte list \<Rightarrow> nat set \<Rightarrow> chunkyfile \<Rightarrow> bool" where
  "written_ok path time bytes S cf \<longleftrightarrow> cf_path cf = Some path \<and> cf_modify_time cf = time
     \<and> cf_size cf = int (length bytes) \<and> length (cf_data cf) = length bytes
     \<and> length (cf_chunks_written cf) = chunk_count (length bytes)
     \<and> (\<forall>i < chunk_count (length bytes). cf_chunks_written cf ! i \<longleftrightarrow> i \<in> S)
     \<and> (\<forall>j < length bytes. cf_data cf ! j =
          (if j div 500000 \<in> S \<and> j mod 500000 < sent (length bytes) (j div 500000) then bytes ! j
           else DEADBEEF ! (j mod 8)))"

lemma written_ok_new:
  "written_ok path time bytes {} (chunkyfile_new_for_writing_to_path path (int (length bytes)) time)"
  by (simp add: written_ok_def chunkyfile_new_for_writing_to_path_def num_chunks_nat)

lemma get_chunk_sent:
  assumes "cf_size cf = int (length bytes)" "cf_data cf = bytes" "i < chunk_count (length bytes)"
  shows "chunkyfile_get_chunk cf (int i)
    = Inr (take (sent (length bytes) i) (drop (i * 500000) bytes))"
proof -
  have "int i * 500000 + int (sent (length bytes) i) \<le> int (length bytes)"
    using sent_end [OF assms(3)] by linarith
  then show ?thesis
    using assms chunk_size_sent [OF assms(1), of i]
    by (simp add: chunkyfile_get_chunk_def CHUNKYFILE_CHUNK_SIZE_def nat_mult_distrib)
qed

lemma written_ok_set:
  assumes "written_ok path time bytes S cf" "i < chunk_count (length bytes)"
  shows "\<exists>cf'. chunkyfile_set_chunk cf (int i) (take (sent (length bytes) i) (drop (i * 500000) bytes))
      = Inr (False, cf') \<and> written_ok path time bytes (insert i S) cf'"
proof -
  let ?s = "sent (length bytes) i"
  let ?c = "take ?s (drop (i * 500000) bytes)"
  let ?d = "take (i * 500000) (cf_data cf) @ ?c @ drop (i * 500000 + ?s) (cf_data cf)"
  let ?cf = "cf\<lparr>cf_chunks_written := (cf_chunks_written cf)[i := True], cf_data := ?d\<rparr>"
  have e: "i * 500000 + ?s \<le> length bytes" by (rule sent_end [OF assms(2)])
  have len: "length ?c = ?s" "length (cf_data cf) = length bytes"
    using e assms(1) by (auto simp: written_ok_def)
  have "int i * 500000 + int ?s \<le> int (length bytes)" using e by linarith
  then have set: "chunkyfile_set_chunk cf (int i) ?c = Inr (False, ?cf)"
    using assms len chunk_size_sent [of cf "length bytes" i]
    by (simp add: chunkyfile_set_chunk_def set_cell_def written_ok_def CHUNKYFILE_CHUNK_SIZE_def nat_mult_distrib
        Let_def)
  have "?d ! j = (if i * 500000 \<le> j \<and> j < i * 500000 + ?s then bytes ! j else cf_data cf ! j)"
    if "j < length bytes" for j
    using that len e by (auto simp: nth_append)
  then have "?d ! j = (if j div 500000 = i \<and> j mod 500000 < ?s then bytes ! j else cf_data cf ! j)"
    if "j < length bytes" for j
    using that div_mod_interval [OF sent_le] by simp
  moreover have "length ?d = length bytes" using len e by simp
  ultimately have "written_ok path time bytes (insert i S) ?cf"
    using assms by (auto simp: written_ok_def nth_list_update simp del: length_append length_drop)
  with set show ?thesis by blast
qed

definition transfer :: "chunkyfile \<Rightarrow> nat list \<Rightarrow> chunkyfile \<Rightarrow> chunkyfile outcome" where
  "transfer from order to = foldE (\<lambda>i cf. bindE (chunkyfile_get_chunk from (int i)) (\<lambda>chunk.
     bindE (chunkyfile_set_chunk cf (int i) chunk) (\<lambda>(complained, cf'). Inr cf'))) order to"

lemma transfer_ok:
  assumes "cf_size from = int (length bytes)" "cf_data from = bytes"
  shows "written_ok path time bytes S to \<Longrightarrow> set order \<subseteq> {..<chunk_count (length bytes)} \<Longrightarrow>
    \<exists>cf. transfer from order to = Inr cf \<and> written_ok path time bytes (S \<union> set order) cf"
proof (induction order arbitrary: S to)
  case Nil
  then show ?case by (simp add: transfer_def)
next
  case (Cons i order)
  then have i: "i < chunk_count (length bytes)" by simp
  obtain cf1 where cf1: "chunkyfile_set_chunk to (int i) (take (sent (length bytes) i) (drop (i * 500000) bytes))
      = Inr (False, cf1)" "written_ok path time bytes (insert i S) cf1"
    using written_ok_set [OF Cons.prems(1) i] by blast
  obtain cf where "transfer from order cf1 = Inr cf" "written_ok path time bytes (insert i S \<union> set order) cf"
    using Cons.IH [OF cf1(2)] Cons.prems(2) by auto
  then show ?case
    using cf1(1) get_chunk_sent [OF assms i] by (auto simp: transfer_def)
qed

lemma written_ok_all:
  "written_ok path time bytes S cf \<Longrightarrow> S \<subseteq> {..<chunk_count (length bytes)} \<Longrightarrow>
    chunkyfile_all_chunks_written cf \<longleftrightarrow> S = {..<chunk_count (length bytes)}"
  by (auto simp: chunkyfile_all_chunks_written_def written_ok_def chunkyfile_num_chunks_def
      num_chunks_nat list_all_iff)

lemma written_ok_write:
  "written_ok path time bytes S cf \<Longrightarrow> chunkyfile_write cf = Inr (path, cf_data cf, time)"
  by (auto simp: chunkyfile_write_def written_ok_def intro!: nth_equalityI)

lemma new_for_reading:
  assumes "disk src = (True, bytes)" "length bytes < 2 ^ 31"
  shows "\<exists>r. chunkyfile_new_for_reading_from_path disk src = Some r
    \<and> cf_size r = int (length bytes) \<and> cf_data r = bytes"
  using assms
  by (simp add: chunkyfile_new_for_reading_from_path_def int_of_size_small malloc_cells_def Let_def)

lemma written_ok_complete:
  assumes "written_ok path time bytes {..<chunk_count (length bytes)} w" "length bytes mod 500000 \<noteq> 0"
  shows "cf_data w = bytes"
proof (rule nth_equalityI)
  show len: "length (cf_data w) = length bytes" using assms(1) by (simp add: written_ok_def)
  fix j assume "j < length (cf_data w)"
  then have j: "j < length bytes" using len by simp
  from byte_in_chunk [OF j assms(2)] j assms(1) show "cf_data w ! j = bytes ! j" by (simp add: written_ok_def)
qed

section \<open>Properties\<close>



text \<open>When the size is a positive multiple of 500000, the last chunk is sent and stored with size
  0 without a complaint: the receiver holds the file complete, and its last 500000 bytes are the
  filler DEADBEEF.\<close>

theorem chunkyfile_multiple_loses_last_chunk:
  assumes "disk src = (True, bytes)" "length bytes < 2 ^ 31" "length bytes = Suc k * 500000"
    and "set order = {..<Suc k}"
  shows "\<exists>r w. chunkyfile_new_for_reading_from_path disk src = Some r
    \<and> transfer r order (chunkyfile_new_for_writing_to_path dst (int (length bytes)) time) = Inr w
    \<and> chunkyfile_all_chunks_written w
    \<and> chunkyfile_write w = Inr (dst, take (k * 500000) bytes
        @ map (\<lambda>j. DEADBEEF ! (j mod 8)) [k * 500000..<Suc k * 500000], time)"
proof -
  have n: "chunk_count (length bytes) = Suc k" unfolding assms(3) by (rule chunk_count_multiple)
  obtain r where r: "chunkyfile_new_for_reading_from_path disk src = Some r"
    "cf_size r = int (length bytes)" "cf_data r = bytes" using new_for_reading [of disk src, OF assms(1,2)] by blast
  obtain w where w: "transfer r order (chunkyfile_new_for_writing_to_path dst (int (length bytes)) time) = Inr w"
    "written_ok dst time bytes (set order) w"
    using transfer_ok [OF r(2,3) written_ok_new [of dst time], of order] assms(4) n by auto
  have "cf_data w = take (k * 500000) bytes @ map (\<lambda>j. DEADBEEF ! (j mod 8)) [k * 500000..<Suc k * 500000]"
  proof (rule nth_equalityI)
    show len: "length (cf_data w) = length (take (k * 500000) bytes @ map (\<lambda>j. DEADBEEF ! (j mod 8)) [k * 500000..<Suc k * 500000])"
      using w(2) assms(3) by (simp add: written_ok_def)
    fix j assume "j < length (cf_data w)"
    then have j: "j < Suc k * 500000" using w(2) assms(3) by (simp add: written_ok_def)
    then have "j div 500000 \<in> set order" using assms(4) by (simp add: less_mult_imp_div_less)
    moreover have "j mod 500000 < sent (length bytes) (j div 500000) \<longleftrightarrow> j < k * 500000"
      unfolding assms(3) by (rule byte_in_last_chunk [OF j])
    ultimately have "cf_data w ! j = (if j < k * 500000 then bytes ! j else DEADBEEF ! (j mod 8))"
      using j w(2) assms(3) by (simp add: written_ok_def)
    with j assms(3) show "cf_data w ! j
        = (take (k * 500000) bytes @ map (\<lambda>j. DEADBEEF ! (j mod 8)) [k * 500000..<Suc k * 500000]) ! j"
      by (auto simp: nth_append)
  qed
  with r(1) w written_ok_all [OF w(2)] written_ok_write [OF w(2)] assms(4) n show ?thesis by auto
qed

theorem chunkyfile_multiple_loses_last_chunk_witness:
  "\<exists>r w. chunkyfile_new_for_reading_from_path (\<lambda>_. (True, replicate 500000 1)) [97] = Some r
    \<and> transfer r [0] (chunkyfile_new_for_writing_to_path [98] 500000 42) = Inr w
    \<and> chunkyfile_all_chunks_written w
    \<and> chunkyfile_write w = Inr ([98], map (\<lambda>j. DEADBEEF ! (j mod 8)) [0..<500000], 42)"
  using chunkyfile_multiple_loses_last_chunk [of "\<lambda>_. (True, replicate 500000 1)" "[97]" "replicate 500000 1" 0 "[0]" "[98]" 42]
  by (simp add: lessThan_Suc del: upt_rec_numeral replicate.simps)

end
