(* ===== verification/PeerTab.thy ===== *)
theory PeerTab
  imports Bytes
begin

text \<open>
  The table of connected peers, \<open>common/peer_table.c\<close>, shared by tracker and clients: an array of
  slots that are NULL or hold a peer. The field \<open>size\<close> of the struct is the length of the list of
  slots. \<open>realloc\<close> does not clear the slots it adds: they are \<open>Uninit\<close> and testing one for NULL
  already uses an undefined pointer. A table pointer may be NULL. \<open>time(NULL)\<close> is an argument.
\<close>

section \<open>State\<close>

definition IP_LEN :: nat where
  "IP_LEN = 4"

record peer =
  p_ip_addr :: "byte list"
  p_socketfd :: int
  p_id :: int
  p_time_last_alive :: int

datatype slot = Uninit | Free | Used peer

record peer_table =
  pt_list :: "slot list"
  pt_count :: nat
  pt_id_counter :: int

definition init_peer_table :: "int \<Rightarrow> peer_table ptr" where
  "init_peer_table n =
     (if n \<le> 0 then None
      else Some \<lparr>pt_list = replicate (nat n) Free, pt_count = 0, pt_id_counter = 1\<rparr>)"

section \<open>Scanning the slots\<close>

text \<open>The first index the test \<open>!peer_list[i]\<close> accepts.\<close>

fun first_free :: "slot list \<Rightarrow> nat option outcome" where
  "first_free [] = Inr None"
| "first_free (Uninit # xs) = Inl WildDeref"
| "first_free (Free # xs) = Inr (Some 0)"
| "first_free (Used p # xs) = bindE (first_free xs) (\<lambda>i. Inr (map_option Suc i))"

text \<open>The first index with \<open>peer_list[i] && test(peer_list[i])\<close>.\<close>

fun first_peer :: "(peer \<Rightarrow> bool) \<Rightarrow> slot list \<Rightarrow> (nat \<times> peer) option outcome" where
  "first_peer P [] = Inr None"
| "first_peer P (Uninit # xs) = Inl WildDeref"
| "first_peer P (Free # xs) = bindE (first_peer P xs) (\<lambda>r. Inr (map_option (\<lambda>(i, p). (Suc i, p)) r))"
| "first_peer P (Used p # xs) =
     (if P p then Inr (Some (0, p))
      else bindE (first_peer P xs) (\<lambda>r. Inr (map_option (\<lambda>(i, p). (Suc i, p)) r)))"

fun fold_peers :: "(peer \<Rightarrow> 's \<Rightarrow> 's outcome) \<Rightarrow> slot list \<Rightarrow> 's \<Rightarrow> 's outcome" where
  "fold_peers f [] s = Inr s"
| "fold_peers f (Uninit # xs) s = Inl WildDeref"
| "fold_peers f (Free # xs) s = fold_peers f xs s"
| "fold_peers f (Used p # xs) s = bindE (f p s) (fold_peers f xs)"

text \<open>\<open>size *= 2\<close> and \<open>realloc\<close> when the count has reached the size.\<close>

definition grow_if_full :: "peer_table \<Rightarrow> peer_table" where
  "grow_if_full t = (if pt_count t = length (pt_list t)
     then t\<lparr>pt_list := pt_list t @ replicate (length (pt_list t)) Uninit\<rparr> else t)"

section \<open>Operations\<close>

definition add_peer ::
    "int \<Rightarrow> peer_table ptr \<Rightarrow> byte list ptr \<Rightarrow> int \<Rightarrow> (peer ptr \<times> peer_table ptr) outcome" where
  "add_peer now table ip_addr socketfd = (case (table, ip_addr) of
     (Some t, Some ip) \<Rightarrow>
       bindE (first_free (pt_list t)) (\<lambda>r. case r of
         None \<Rightarrow> Inr (None, Some (grow_if_full t))
       | Some i \<Rightarrow>
           let p = \<lparr>p_ip_addr = take IP_LEN ip, p_socketfd = socketfd, p_id = pt_id_counter t,
                    p_time_last_alive = now\<rparr>;
               t1 = t\<lparr>pt_list := (pt_list t)[i := Used p], pt_count := pt_count t + 1,
                      pt_id_counter := pt_id_counter t + 1\<rparr>
           in Inr (Some p, Some (grow_if_full t1)))
   | _ \<Rightarrow> Inr (None, table))"

definition copy_peer ::
    "peer_table ptr \<Rightarrow> int \<Rightarrow> byte list \<Rightarrow> int \<Rightarrow> (peer ptr \<times> peer_table ptr) outcome" where
  "copy_peer table pid ip_addr socketfd = (case table of
     None \<Rightarrow> Inr (None, None)
   | Some t \<Rightarrow>
       bindE (first_free (pt_list t)) (\<lambda>r. case r of
         None \<Rightarrow> Inr (None, Some t)
       | Some i \<Rightarrow>
           let p = \<lparr>p_ip_addr = take IP_LEN ip_addr, p_socketfd = socketfd, p_id = pid,
                    p_time_last_alive = 0\<rparr>;
               t1 = t\<lparr>pt_list := (pt_list t)[i := Used p], pt_count := pt_count t + 1\<rparr>
           in Inr (Some p, Some (grow_if_full t1))))"

definition delete_peer :: "peer_table ptr \<Rightarrow> int \<Rightarrow> peer_table ptr outcome" where
  "delete_peer table pid = (case table of
     None \<Rightarrow> Inr None
   | Some t \<Rightarrow>
       bindE (first_peer (\<lambda>p. p_id p = pid) (pt_list t)) (\<lambda>r. case r of
         None \<Rightarrow> Inr (Some t)
       | Some (i, p) \<Rightarrow> Inr (Some (t\<lparr>pt_list := (pt_list t)[i := Free], pt_count := pt_count t - 1\<rparr>))))"

definition get_peer :: "(peer \<Rightarrow> bool) \<Rightarrow> peer_table \<Rightarrow> peer ptr outcome" where
  "get_peer P t = bindE (first_peer P (pt_list t)) (\<lambda>r. Inr (map_option snd r))"

definition get_peer_by_id :: "peer_table ptr \<Rightarrow> int \<Rightarrow> peer ptr outcome" where
  "get_peer_by_id table pid = (case table of
     None \<Rightarrow> Inr None
   | Some t \<Rightarrow> if pid < 1 then Inr None else get_peer (\<lambda>p. p_id p = pid) t)"

definition get_peer_by_socket :: "peer_table ptr \<Rightarrow> int \<Rightarrow> peer ptr outcome" where
  "get_peer_by_socket table fd = (case table of
     None \<Rightarrow> Inr None
   | Some t \<Rightarrow> if fd < 0 then Inr None else get_peer (\<lambda>p. p_socketfd p = fd) t)"

definition get_peer_by_ip :: "peer_table ptr \<Rightarrow> byte list ptr \<Rightarrow> peer ptr outcome" where
  "get_peer_by_ip table ip_addr = (case (table, ip_addr) of
     (Some t, Some ip) \<Rightarrow> get_peer (\<lambda>p. take IP_LEN (p_ip_addr p) = take IP_LEN ip) t
   | _ \<Rightarrow> Inr None)"

text \<open>
  The buffer has \<open>count\<close> entries of 8 bytes; more peers than that overflow it. The result is the
  buffer (NULL for none) and the number of bytes written.
\<close>

definition serialize_peer_table :: "peer_table ptr \<Rightarrow> (byte list ptr \<times> nat) outcome" where
  "serialize_peer_table table = (case table of
     None \<Rightarrow> Inr (None, 0)
   | Some t \<Rightarrow>
       if pt_count t = 0 then Inr (None, 0)
       else bindE (fold_peers (\<lambda>p bs.
              if length bs + 8 \<le> pt_count t * 8
              then Inr (bs @ int_bytes (p_id p) @ take IP_LEN (p_ip_addr p)) else Inl OutOfBounds)
            (pt_list t) []) (\<lambda>bs. Inr (Some bs, length bs)))"

fun read_peers :: "nat \<Rightarrow> byte list \<Rightarrow> peer_table ptr \<Rightarrow> peer_table ptr outcome" where
  "read_peers 0 bs table = Inr table"
| "read_peers (Suc n) bs table =
     (if length bs < 8 then Inl OutOfBounds
      else bindE (copy_peer table (bytes_int bs) (drop 4 bs) (-1)) (\<lambda>(p, table1).
        case table1 of
          None \<Rightarrow> Inl NullDeref
        | Some t \<Rightarrow> read_peers n (drop 8 bs) (Some (t\<lparr>pt_count := pt_count t + 1\<rparr>))))"

definition deserialize_peer_table :: "byte list ptr \<Rightarrow> int \<Rightarrow> peer_table ptr outcome" where
  "deserialize_peer_table buffer n = (case buffer of
     None \<Rightarrow> Inr None
   | Some bs \<Rightarrow>
       if n < 0 then Inr None
       else if n = 0 then Inr (init_peer_table 10)
       else read_peers (nat (n div 8)) bs (init_peer_table (n div 8 * 2)))"

text \<open>\<open>destroy_table\<close> frees every peer: it tests every slot.\<close>

definition destroy_table :: "peer_table ptr \<Rightarrow> unit outcome" where
  "destroy_table table = (case table of
     None \<Rightarrow> Inr ()
   | Some t \<Rightarrow> fold_peers (\<lambda>p. Inr) (pt_list t) ())"

definition collect_missing ::
    "peer_table \<Rightarrow> peer_table \<Rightarrow> peer_table ptr \<Rightarrow> peer_table ptr outcome" where
  "collect_missing other from to = fold_peers (\<lambda>p table.
     bindE (get_peer_by_id (Some other) (p_id p)) (\<lambda>r.
       if r = None then bindE (copy_peer table (p_id p) (p_ip_addr p) (p_socketfd p)) (\<lambda>(q, table1). Inr table1)
       else Inr table)) (pt_list from) to"

text \<open>\<open>None\<close> is the return value \<open>-1\<close>. Both tables are created with the size of the new one.\<close>

definition diff_tables ::
    "peer_table ptr \<Rightarrow> peer_table ptr \<Rightarrow> (peer_table ptr \<times> peer_table ptr) option outcome" where
  "diff_tables orig new = (case (orig, new) of
     (Some o1, Some n1) \<Rightarrow>
       bindE (collect_missing o1 n1 (init_peer_table (int (length (pt_list n1))))) (\<lambda>additions.
       bindE (collect_missing n1 o1 (init_peer_table (int (length (pt_list n1))))) (\<lambda>deletions.
         Inr (Some (additions, deletions))))
   | _ \<Rightarrow> Inr None)"

section \<open>Good tables\<close>

fun live :: "slot list \<Rightarrow> peer list" where
  "live [] = []"
| "live (Used p # xs) = p # live xs"
| "live (_ # xs) = live xs"

definition peers :: "peer_table \<Rightarrow> peer list" where
  "peers t = live (pt_list t)"

text \<open>No slot is uninitialised, \<open>count\<close> counts the peers and one slot at least is free.\<close>

definition slots_ok :: "peer_table \<Rightarrow> bool" where
  "slots_ok t \<longleftrightarrow> Uninit \<notin> set (pt_list t) \<and> pt_count t = length (peers t)
     \<and> pt_count t < length (pt_list t)"

definition table_ok :: "peer_table \<Rightarrow> bool" where
  "table_ok t \<longleftrightarrow> slots_ok t \<and> distinct (map p_id (peers t))
     \<and> (\<forall>p \<in> set (peers t). 1 \<le> p_id p \<and> p_id p < pt_id_counter t \<and> length (p_ip_addr p) = IP_LEN)
     \<and> 1 \<le> pt_id_counter t"

lemma live_append [simp]: "live (xs @ ys) = live xs @ live ys"
  by (induction xs rule: live.induct) auto

lemma length_live: "length (live xs) \<le> length xs"
  by (induction xs rule: live.induct) auto

lemma live_full: "Uninit \<notin> set xs \<Longrightarrow> Free \<notin> set xs \<Longrightarrow> length (live xs) = length xs"
  by (induction xs rule: live.induct) auto

lemma first_free_live:
  "Uninit \<notin> set xs \<Longrightarrow> length (live xs) < length xs \<Longrightarrow>
    \<exists>ys zs. xs = ys @ Free # zs \<and> first_free xs = Inr (Some (length ys))"
proof (induction xs)
  case Nil
  then show ?case by simp
next
  case (Cons x xs)
  show ?case
  proof (cases x)
    case (Used p)
    with Cons obtain ys zs where "xs = ys @ Free # zs" "first_free xs = Inr (Some (length ys))" by auto
    with Used show ?thesis by (intro exI [of _ "x # ys"] exI [of _ zs]) simp
  qed (use Cons.prems in \<open>auto intro: exI [of _ "[]"]\<close>)
qed

lemma first_peer_live:
  "Uninit \<notin> set xs \<Longrightarrow> first_peer P xs = Inr r \<Longrightarrow>
    (case r of None \<Rightarrow> find P (live xs) = None
     | Some (i, p) \<Rightarrow> find P (live xs) = Some p
         \<and> (\<exists>ys zs. xs = ys @ Used p # zs \<and> i = length ys \<and> (\<forall>q \<in> set (live ys). \<not> P q)))"
proof (induction xs arbitrary: r)
  case Nil
  then show ?case by simp
next
  case (Cons x xs)
  show ?case
  proof (cases "\<exists>p. x = Used p \<and> P p")
    case True
    with Cons.prems show ?thesis by (auto intro: exI [of _ "[]"])
  next
    case False
    with Cons.prems obtain r' where r': "first_peer P xs = Inr r'"
      "r = map_option (\<lambda>(i, p). (Suc i, p)) r'" "live (x # xs) = (case x of Used p \<Rightarrow> [p] | _ \<Rightarrow> []) @ live xs"
      by (cases x) (auto simp: outcome_simps split: if_splits)
    show ?thesis
    proof (cases r')
      case None
      with Cons.IH [OF _ r'(1)] Cons.prems(1) False r' show ?thesis by (cases x) auto
    next
      case (Some ip)
      then obtain i p where ip: "r' = Some (i, p)" by (cases ip) auto
      with Cons.IH [OF _ r'(1)] Cons.prems(1) obtain ys zs where
        f: "find P (live xs) = Some p" "xs = ys @ Used p # zs" "i = length ys" "\<forall>q \<in> set (live ys). \<not> P q" by auto
      have "\<forall>q \<in> set (live (x # ys)). \<not> P q" using f(4) False by (cases x) auto
      then have "\<exists>us vs. x # xs = us @ Used p # vs \<and> Suc i = length us \<and> (\<forall>q \<in> set (live us). \<not> P q)"
        using f(2,3) by (intro exI [of _ "x # ys"] exI [of _ zs]) simp
      moreover have "find P (live (x # xs)) = Some p" using f(1) False by (cases x) auto
      moreover have "r = Some (Suc i, p)" using ip r'(2) by simp
      ultimately show ?thesis by simp
    qed
  qed
qed

lemma first_peer_returns: "Uninit \<notin> set xs \<Longrightarrow> \<exists>r. first_peer P xs = Inr r"
  by (induction P xs rule: first_peer.induct) auto

lemma get_peer_find: "Uninit \<notin> set (pt_list t) \<Longrightarrow> get_peer P t = Inr (find P (peers t))"
  using first_peer_returns [of "pt_list t" P] first_peer_live [of "pt_list t" P]
  by (fastforce simp: get_peer_def peers_def split: option.splits)

lemma fold_peers_live: "Uninit \<notin> set xs \<Longrightarrow> fold_peers f xs s = foldE f (live xs) s"
proof (induction f xs s rule: fold_peers.induct)
  case (4 f p xs s)
  then show ?case by (cases "f p s") auto
qed auto

text \<open>A scan that finds nothing before an uninitialised slot reads it.\<close>

lemma first_free_uninit: "\<forall>x \<in> set xs. \<exists>p. x = Used p \<Longrightarrow> first_free (xs @ Uninit # ys) = Inl WildDeref"
  by (induction xs) auto

lemma first_peer_uninit:
  "\<forall>x \<in> set xs. \<exists>p. x = Used p \<and> \<not> P p \<Longrightarrow> first_peer P (xs @ Uninit # ys) = Inl WildDeref"
  by (induction xs) auto

section \<open>Operations on good tables\<close>

lemma slots_ok_insert:
  assumes "Uninit \<notin> set (pt_list t)" "pt_count t = length (peers t)" "first_free (pt_list t) = Inr (Some i)"
    "pt_list t = ys @ Free # zs" "i = length ys"
  shows "mset (live ((pt_list t)[i := Used p])) = add_mset p (mset (peers t))"
    "Uninit \<notin> set ((pt_list t)[i := Used p])"
  using assms by (auto simp: peers_def)

lemma grow_if_full_not: "pt_count t < length (pt_list t) \<Longrightarrow> grow_if_full t = t"
  by (simp add: grow_if_full_def)

lemma copy_peer_ok:
  fixes pid fd :: int
  assumes "slots_ok t" "length ip = IP_LEN"
  defines "p \<equiv> \<lparr>p_ip_addr = ip, p_socketfd = fd, p_id = pid, p_time_last_alive = 0\<rparr>"
  shows "\<exists>t'. copy_peer (Some t) pid ip fd = Inr (Some p, Some t') \<and> pt_id_counter t' = pt_id_counter t
    \<and> pt_count t' = pt_count t + 1 \<and> mset (peers t') = add_mset p (mset (peers t))
    \<and> (pt_count t + 1 < length (pt_list t) \<longrightarrow> slots_ok t' \<and> length (pt_list t') = length (pt_list t))"
proof -
  have s: "Uninit \<notin> set (pt_list t)" "pt_count t = length (peers t)" "length (live (pt_list t)) < length (pt_list t)"
    using assms(1) by (auto simp: slots_ok_def peers_def)
  obtain ys zs where f: "pt_list t = ys @ Free # zs" "first_free (pt_list t) = Inr (Some (length ys))"
    using first_free_live [OF s(1,3)] by blast
  let ?t1 = "t\<lparr>pt_list := ys @ Used p # zs, pt_count := pt_count t + 1\<rparr>"
  have c: "copy_peer (Some t) pid ip fd = Inr (Some p, Some (grow_if_full ?t1))"
    using f assms(2) by (simp add: copy_peer_def p_def IP_LEN_def Let_def)
  have m: "mset (live (ys @ Used p # zs)) = add_mset p (mset (peers t))"
    using f(1) by (simp add: peers_def)
  have "live (replicate n Uninit) = []" for n by (induction n) auto
  then have "peers (grow_if_full ?t1) = live (ys @ Used p # zs)"
    by (simp add: grow_if_full_def peers_def)
  moreover have "slots_ok ?t1" if "pt_count t + 1 < length (pt_list t)"
    using that f(1) s(1,2) by (simp add: slots_ok_def peers_def)
  moreover have "grow_if_full ?t1 = ?t1" if "pt_count t + 1 < length (pt_list t)"
    using that f(1) by (simp add: grow_if_full_def)
  ultimately show ?thesis
    using c m f(1) by (intro exI [of _ "grow_if_full ?t1"]) (auto simp: grow_if_full_def)
qed

lemma add_peer_ok:
  fixes fd now :: int
  assumes "slots_ok t" "length ip = IP_LEN"
  defines "p \<equiv> \<lparr>p_ip_addr = ip, p_socketfd = fd, p_id = pt_id_counter t, p_time_last_alive = now\<rparr>"
  shows "\<exists>t'. add_peer now (Some t) (Some ip) fd = Inr (Some p, Some t') \<and> pt_id_counter t' = pt_id_counter t + 1
    \<and> pt_count t' = pt_count t + 1 \<and> mset (peers t') = add_mset p (mset (peers t))
    \<and> (pt_count t + 1 < length (pt_list t) \<longrightarrow> slots_ok t')
    \<and> (pt_count t + 1 = length (pt_list t) \<longrightarrow>
        (\<exists>us n. pt_list t' = map Used us @ replicate (Suc n) Uninit \<and> mset us = mset (peers t')))"
proof -
  have s: "Uninit \<notin> set (pt_list t)" "pt_count t = length (peers t)" "length (live (pt_list t)) < length (pt_list t)"
    using assms(1) by (auto simp: slots_ok_def peers_def)
  obtain ys zs where f: "pt_list t = ys @ Free # zs" "first_free (pt_list t) = Inr (Some (length ys))"
    using first_free_live [OF s(1,3)] by blast
  let ?t1 = "t\<lparr>pt_list := ys @ Used p # zs, pt_count := pt_count t + 1, pt_id_counter := pt_id_counter t + 1\<rparr>"
  have c: "add_peer now (Some t) (Some ip) fd = Inr (Some p, Some (grow_if_full ?t1))"
    using f assms(2) by (simp add: add_peer_def p_def IP_LEN_def Let_def)
  have u: "live (replicate n Uninit) = []" for n by (induction n) auto
  then have m: "peers (grow_if_full ?t1) = live (ys @ Used p # zs)"
    by (simp add: grow_if_full_def peers_def)
  have ok: "slots_ok ?t1 \<and> grow_if_full ?t1 = ?t1" if "pt_count t + 1 < length (pt_list t)"
    using that f(1) s(1,2) by (simp add: slots_ok_def peers_def grow_if_full_def)
  have full: "\<exists>us n. pt_list (grow_if_full ?t1) = map Used us @ replicate (Suc n) Uninit \<and> us = live (ys @ Used p # zs)"
    if "pt_count t + 1 = length (pt_list t)"
  proof -
    have "xs = map Used (live xs)" if "length (live xs) = length xs" for xs
      using that
    proof (induction xs)
      case Nil
      then show ?case by simp
    next
      case (Cons x xs)
      with length_live [of xs] show ?case by (cases x) auto
    qed
    moreover have "length (live (ys @ Used p # zs)) = length (ys @ Used p # zs)"
      using that s(2) f(1) by (simp add: peers_def)
    ultimately have "ys @ Used p # zs = map Used (live (ys @ Used p # zs))" by blast
    moreover have "pt_list (grow_if_full ?t1)
        = (ys @ Used p # zs) @ replicate (Suc (length ys + length zs)) Uninit"
      using that f(1) by (simp add: grow_if_full_def)
    ultimately show ?thesis by metis
  qed
  have "mset (live (ys @ Used p # zs)) = add_mset p (mset (peers t))"
    using f(1) by (simp add: peers_def)
  with c m ok full f(1) show ?thesis
    by (intro exI [of _ "grow_if_full ?t1"]) (auto simp: grow_if_full_def simp del: live_append)
qed

lemma table_ok_insert:
  assumes "table_ok t" "slots_ok t'" "mset (peers t') = add_mset p (mset (peers t))"
    "pt_id_counter t' = pt_id_counter t + 1" "p_id p = pt_id_counter t" "length (p_ip_addr p) = IP_LEN"
  shows "table_ok t'"
proof -
  have set: "set (peers t') = insert p (set (peers t))"
    using assms(3) by (metis set_mset_add_mset_insert set_mset_mset)
  have "mset (map p_id (peers t')) = add_mset (p_id p) (mset (map p_id (peers t)))"
    using assms(3) by simp
  then have "distinct (map p_id (peers t')) = distinct (p_id p # map p_id (peers t))"
    by (metis mset.simps(2) mset_eq_imp_distinct_iff)
  moreover have "p_id p \<notin> set (map p_id (peers t))"
    using assms(1,5) by (auto simp: table_ok_def)
  ultimately show ?thesis using assms set by (auto simp: table_ok_def)
qed

lemma delete_peer_ok:
  assumes "table_ok t"
  shows "\<exists>t'. delete_peer (Some t) pid = Inr (Some t') \<and> table_ok t' \<and> peers t' = remove_first (\<lambda>p. p_id p = pid) (peers t)
    \<and> pt_id_counter t' = pt_id_counter t \<and> length (pt_list t') = length (pt_list t)"
proof -
  have u: "Uninit \<notin> set (pt_list t)" using assms by (simp add: table_ok_def slots_ok_def)
  obtain r where r: "first_peer (\<lambda>p. p_id p = pid) (pt_list t) = Inr r" using first_peer_returns [OF u] by blast
  show ?thesis
  proof (cases r)
    case None
    with first_peer_live [OF u r] have "\<forall>p \<in> set (peers t). p_id p \<noteq> pid" by (simp add: peers_def find_None_all)
    with None r assms show ?thesis by (simp add: delete_peer_def)
  next
    case (Some ip)
    then obtain i p where "r = Some (i, p)" by (cases ip) auto
    with first_peer_live [OF u r] obtain ys zs where
      f: "r = Some (length ys, p)" "find (\<lambda>p. p_id p = pid) (peers t) = Some p"
      "pt_list t = ys @ Used p # zs" "\<forall>q \<in> set (live ys). p_id q \<noteq> pid" by (auto simp: peers_def)
    let ?t = "t\<lparr>pt_list := ys @ Free # zs, pt_count := pt_count t - 1\<rparr>"
    have "p_id p = pid" using f(2) find_Some_in by fast
    then have rem: "peers ?t = remove_first (\<lambda>p. p_id p = pid) (peers t)"
      using f(3,4) by (simp add: peers_def remove_first_append)
    have "table_ok ?t"
      using assms f(3) by (auto simp: table_ok_def slots_ok_def peers_def)
    with rem f(1,3) r show ?thesis by (simp add: delete_peer_def)
  qed
qed

lemma get_by_id_ok:
  "table_ok t \<Longrightarrow> get_peer_by_id (Some t) pid = Inr (find (\<lambda>p. p_id p = pid) (peers t))"
proof -
  assume ok: "table_ok t"
  have "find (\<lambda>p. p_id p = pid) (peers t) = None" if "pid < 1"
    using ok that by (auto simp: find_None_all table_ok_def)
  with ok show ?thesis by (auto simp: get_peer_by_id_def get_peer_find table_ok_def slots_ok_def)
qed

section \<open>Serialization and differences\<close>

text \<open>A table filled from the front.\<close>

lemma copy_peer_packed:
  fixes pid fd :: int
  assumes "pt_list t = map Used ps @ replicate (Suc k) Free" "length ip = IP_LEN"
    "pt_count t + 1 \<noteq> length ps + Suc k"
  defines "p \<equiv> \<lparr>p_ip_addr = ip, p_socketfd = fd, p_id = pid, p_time_last_alive = 0 :: int\<rparr>"
  shows "copy_peer (Some t) pid (ip @ rest) fd = Inr (Some p,
    Some (t\<lparr>pt_list := map Used (ps @ [p]) @ replicate k Free, pt_count := pt_count t + 1\<rparr>))"
proof -
  have "first_free (map Used ps @ Free # xs) = Inr (Some (length ps))" for xs
    by (induction ps) auto
  with assms show ?thesis
    by (simp add: copy_peer_def IP_LEN_def Let_def grow_if_full_def list_update_append)
qed

definition peer_bytes :: "peer \<Rightarrow> byte list" where
  "peer_bytes p = int_bytes (p_id p) @ p_ip_addr p"

text \<open>What survives the wire: no socket and no time.\<close>

definition remote :: "peer \<Rightarrow> peer" where
  "remote p = p\<lparr>p_socketfd := -1, p_time_last_alive := 0\<rparr>"

definition wire_peer :: "peer \<Rightarrow> bool" where
  "wire_peer p \<longleftrightarrow> is_int (p_id p) \<and> length (p_ip_addr p) = IP_LEN"

lemma read_peers_bytes:
  "list_all wire_peer ps \<Longrightarrow> pt_list t = map Used qs @ replicate (length ps + k) Free \<Longrightarrow>
    length qs + length ps + k = 2 * m \<Longrightarrow> pt_count t = 2 * length qs \<Longrightarrow> 2 * (length qs + length ps) \<le> 2 * m \<Longrightarrow>
    read_peers (length ps) (concat (map peer_bytes ps) @ rest) (Some t)
    = Inr (Some (t\<lparr>pt_list := map Used (qs @ map remote ps) @ replicate k Free,
        pt_count := 2 * (length qs + length ps)\<rparr>))"
proof (induction ps arbitrary: t qs)
  case Nil
  then show ?case by (cases t) simp
next
  case (Cons p ps)
  let ?bs = "concat (map peer_bytes ps) @ rest"
  have w: "is_int (p_id p)" "length (p_ip_addr p) = IP_LEN" using Cons.prems(1) by (auto simp: wire_peer_def)
  let ?t = "t\<lparr>pt_list := map Used (qs @ [remote p]) @ replicate (length ps + k) Free, pt_count := pt_count t + 1\<rparr>"
  have r: "\<lparr>p_ip_addr = p_ip_addr p, p_socketfd = -1, p_id = p_id p, p_time_last_alive = 0\<rparr> = remote p"
    by (simp add: remote_def)
  have ne: "length qs \<noteq> length ps + k" using Cons.prems(3) by simp presburger
  have "copy_peer (Some t) (p_id p) (p_ip_addr p @ ?bs) (-1) = Inr (Some (remote p), Some ?t)"
    using copy_peer_packed [where t = t and ps = qs and k = "length ps + k" and ip = "p_ip_addr p"
        and fd = "-1" and pid = "p_id p" and rest = ?bs] Cons.prems(2-4) w(2) r ne
    by simp
  moreover have "bytes_int (peer_bytes p @ ?bs) = p_id p" "drop 4 (peer_bytes p @ ?bs) = p_ip_addr p @ ?bs"
    "drop 8 (peer_bytes p @ ?bs) = ?bs" "\<not> length (peer_bytes p @ ?bs) < 8"
    using w by (simp_all add: peer_bytes_def IP_LEN_def)
  ultimately have "read_peers (Suc (length ps)) (peer_bytes p @ ?bs) (Some t)
      = read_peers (length ps) ?bs (Some (?t\<lparr>pt_count := pt_count t + 2\<rparr>))"
    unfolding read_peers.simps by (simp del: drop_append)
  moreover have "read_peers (length ps) ?bs (Some (?t\<lparr>pt_count := pt_count t + 2\<rparr>))
      = Inr (Some (t\<lparr>pt_list := map Used (qs @ map remote (p # ps)) @ replicate k Free,
        pt_count := 2 * (length qs + length (p # ps))\<rparr>))"
    using Cons.IH [of "?t\<lparr>pt_count := pt_count t + 2\<rparr>" "qs @ [remote p]"] Cons.prems by simp
  ultimately show ?case by (simp only: list.size add_Suc_right add_0_right list.map concat.simps append_assoc)
qed

lemma serialize_peers:
  assumes "slots_ok t" "list_all wire_peer (peers t)" "peers t \<noteq> []"
  shows "serialize_peer_table (Some t) = Inr (Some (concat (map peer_bytes (peers t))), 8 * length (peers t))"
proof -
  have len: "length (concat (map peer_bytes ps)) = 8 * length ps" if "list_all wire_peer ps" for ps
    using that by (induction ps) (auto simp: peer_bytes_def wire_peer_def IP_LEN_def)
  have "foldE (\<lambda>p bs. if length bs + 8 \<le> n * 8
        then Inr (bs @ int_bytes (p_id p) @ take IP_LEN (p_ip_addr p)) else Inl OutOfBounds) ps bs
      = Inr (bs @ concat (map peer_bytes ps))"
    if "list_all wire_peer ps" "length bs + 8 * length ps \<le> n * 8" for ps bs n
    using that by (induction ps arbitrary: bs) (auto simp: peer_bytes_def wire_peer_def IP_LEN_def)
  from this [of "peers t" "[]" "pt_count t"] assms len [of "peers t"] show ?thesis
    by (simp add: serialize_peer_table_def slots_ok_def fold_peers_live flip: peers_def)
qed

lemma collect_missing_ok:
  assumes "table_ok other" "slots_ok to" "Uninit \<notin> set (pt_list from)"
    "\<forall>p \<in> set (peers from). length (p_ip_addr p) = IP_LEN"
    "pt_count to + length (filter (\<lambda>p. p_id p \<notin> p_id ` set (peers other)) (peers from)) < length (pt_list to)"
  shows "\<exists>t. collect_missing other from (Some to) = Inr (Some t) \<and> slots_ok t
    \<and> mset (peers t) = mset (peers to) + mset (map (\<lambda>p. p\<lparr>p_time_last_alive := 0\<rparr>)
        (filter (\<lambda>p. p_id p \<notin> p_id ` set (peers other)) (peers from)))"
proof -
  let ?f = "\<lambda>p table. bindE (get_peer_by_id (Some other) (p_id p)) (\<lambda>r.
       if r = None then bindE (copy_peer table (p_id p) (p_ip_addr p) (p_socketfd p)) (\<lambda>(q, table1). Inr table1)
       else Inr table)"
  let ?new = "\<lambda>p. p_id p \<notin> p_id ` set (peers other)"
  have "\<exists>t. foldE ?f ps (Some to) = Inr (Some t) \<and> slots_ok t
      \<and> mset (peers t) = mset (peers to) + mset (map (\<lambda>p. p\<lparr>p_time_last_alive := 0\<rparr>) (filter ?new ps))"
    if "slots_ok to" "\<forall>p \<in> set ps. length (p_ip_addr p) = IP_LEN"
      "pt_count to + length (filter ?new ps) < length (pt_list to)" for ps to
    using that
  proof (induction ps arbitrary: to)
    case Nil
    then show ?case by simp
  next
    case (Cons p ps)
    have "find (\<lambda>q. p_id q = p_id p) (peers other) = None \<longleftrightarrow> ?new p"
      unfolding find_None_all by (metis imageE imageI)
    then have g: "get_peer_by_id (Some other) (p_id p) = Inr None \<longleftrightarrow> ?new p"
      "\<exists>r. get_peer_by_id (Some other) (p_id p) = Inr r"
      by (simp_all add: get_by_id_ok [OF assms(1)])
    show ?case
    proof (cases "?new p")
      case False
      with g Cons.IH [of to] Cons.prems show ?thesis by auto
    next
      case True
      let ?p = "p\<lparr>p_time_last_alive := 0\<rparr>"
      obtain t1 where t1: "copy_peer (Some to) (p_id p) (p_ip_addr p) (p_socketfd p) = Inr (Some ?p, Some t1)"
        "pt_count t1 = pt_count to + 1" "mset (peers t1) = add_mset ?p (mset (peers to))"
        "slots_ok t1" "length (pt_list t1) = length (pt_list to)"
        using copy_peer_ok [OF Cons.prems(1), where ip = "p_ip_addr p" and fd = "p_socketfd p" and pid = "p_id p"]
          Cons.prems(2,3) True by auto
      with Cons.IH [of t1] Cons.prems True g show ?thesis by auto
    qed
  qed
  from this [OF assms(2,4,5)] assms(3) show ?thesis
    by (simp add: collect_missing_def fold_peers_live flip: peers_def)
qed

section \<open>Properties\<close>

datatype peer_op = Join "byte list" int | Leave int | Find int

text \<open>The tracker's calls at time \<open>now\<close>.\<close>

fun peer_call :: "int \<Rightarrow> peer_op \<Rightarrow> peer_table ptr \<Rightarrow> (peer ptr \<times> peer_table ptr) outcome" where
  "peer_call now (Join ip fd) t = add_peer now t (Some ip) fd"
| "peer_call now (Leave pid) t = bindE (delete_peer t pid) (\<lambda>t'. Inr (None, t'))"
| "peer_call now (Find pid) t = bindE (get_peer_by_id t pid) (\<lambda>p. Inr (p, t))"

text \<open>
  A map from ids to peers, the next id, and the number of slots. It says nothing once a peer
  takes the last free slot.
\<close>

fun peer_map_call :: "int \<Rightarrow> peer_op \<Rightarrow> (int \<rightharpoonup> peer) \<times> int \<times> nat
    \<Rightarrow> (peer ptr \<times> (int \<rightharpoonup> peer) \<times> int \<times> nat) option" where
  "peer_map_call now (Join ip fd) (m, next, n) =
     (if length ip \<noteq> IP_LEN \<or> n \<le> card (dom m) + 1 then None
      else let p = \<lparr>p_ip_addr = ip, p_socketfd = fd, p_id = next, p_time_last_alive = now\<rparr>
           in Some (Some p, m(next \<mapsto> p), next + 1, n))"
| "peer_map_call now (Leave pid) (m, next, n) = Some (None, m(pid := None), next, n)"
| "peer_map_call now (Find pid) (m, next, n) = Some (m pid, m, next, n)"

definition table_map :: "peer_table \<Rightarrow> (int \<rightharpoonup> peer) \<Rightarrow> bool" where
  "table_map t m \<longleftrightarrow> table_ok t \<and> (\<forall>i p. m i = Some p \<longleftrightarrow> p \<in> set (peers t) \<and> p_id p = i)"

lemma table_map_find:
  assumes "table_map t m"
  shows "find (\<lambda>p. p_id p = i) (peers t) = m i"
proof (cases "find (\<lambda>p. p_id p = i) (peers t)")
  case None
  then have "\<forall>p \<in> set (peers t). p_id p \<noteq> i" by (simp add: find_None_all)
  with assms have "m i \<noteq> Some p" for p by (auto simp: table_map_def)
  with None show ?thesis by (cases "m i") auto
next
  case (Some p)
  then have "p \<in> set (peers t) \<and> p_id p = i" by (rule find_Some_in)
  with assms have "m i = Some p" by (simp add: table_map_def)
  with Some show ?thesis by simp
qed

lemma table_map_count: "table_map t m \<Longrightarrow> card (dom m) = pt_count t"
proof -
  assume m: "table_map t m"
  have "dom m = set (map p_id (peers t))"
    using m unfolding table_map_def dom_def by force
  moreover have "card (set (map p_id (peers t))) = length (map p_id (peers t))"
    using m by (intro distinct_card) (simp add: table_map_def table_ok_def)
  ultimately show ?thesis using m by (simp add: table_map_def table_ok_def slots_ok_def)
qed

lemma peer_call_map:
  assumes "table_map t m" "pt_id_counter t = next" "length (pt_list t) = n"
    "peer_map_call now c (m, next, n) = Some (r, m', next', n')"
  shows "\<exists>t'. peer_call now c (Some t) = Inr (r, Some t') \<and> table_map t' m'
    \<and> pt_id_counter t' = next' \<and> length (pt_list t') = n'"
proof -
  have ok: "table_ok t" "slots_ok t" using assms(1) by (auto simp: table_map_def table_ok_def)
  show ?thesis
  proof (cases c)
    case (Join ip fd)
    let ?p = "\<lparr>p_ip_addr = ip, p_socketfd = fd, p_id = next, p_time_last_alive = now\<rparr>"
    have c: "length ip = IP_LEN" "pt_count t + 1 < length (pt_list t)"
      "r = Some ?p" "m' = m(next \<mapsto> ?p)" "next' = next + 1" "n' = n"
      using Join assms(3,4) table_map_count [OF assms(1)] by (auto simp: Let_def split: if_splits)
    obtain t' where t': "add_peer now (Some t) (Some ip) fd = Inr (Some ?p, Some t')"
      "pt_id_counter t' = pt_id_counter t + 1" "mset (peers t') = add_mset ?p (mset (peers t))" "slots_ok t'"
      "pt_count t' = pt_count t + 1"
      using add_peer_ok [OF ok(2) c(1), where fd = fd and now = now] c(2) assms(2) by auto
    have len: "length (pt_list t') = length (pt_list t)"
      using t'(1) c(2) by (auto simp: add_peer_def outcome_simps Let_def grow_if_full_def split: option.splits)
    have "table_ok t'" by (rule table_ok_insert [OF ok(1) t'(4,3,2)]) (use assms(2) c(1) in auto)
    moreover have "set (peers t') = insert ?p (set (peers t))"
      using t'(3) by (metis set_mset_add_mset_insert set_mset_mset)
    moreover have "\<forall>p \<in> set (peers t). p_id p \<noteq> next"
      using ok(1) assms(2) by (auto simp: table_ok_def)
    ultimately have "table_map t' (m(next \<mapsto> ?p))"
      using assms(1) by (auto simp: table_map_def)
    with Join t' c len assms(2,3) show ?thesis by auto
  next
    case (Leave pid)
    obtain t' where t': "delete_peer (Some t) pid = Inr (Some t')" "table_ok t'"
      "peers t' = remove_first (\<lambda>p. p_id p = pid) (peers t)" "pt_id_counter t' = pt_id_counter t"
      "length (pt_list t') = length (pt_list t)"
      using delete_peer_ok [OF ok(1)] by blast
    have "set (remove_first (\<lambda>p. p_id p = pid) ps) = {p \<in> set ps. p_id p \<noteq> pid}" if "distinct (map p_id ps)" for ps :: "peer list"
      using that by (induction ps) (auto, (metis imageI)+)
    then have "set (peers t') = {p \<in> set (peers t). p_id p \<noteq> pid}"
      using t'(3) ok(1) by (simp add: table_ok_def)
    then have "table_map t' (m(pid := None))"
      using assms(1) t'(2) by (auto simp: table_map_def)
    with Leave t' assms show ?thesis by auto
  next
    case (Find pid)
    with assms table_map_find [OF assms(1)] get_by_id_ok [OF ok(1)] show ?thesis by auto
  qed
qed



text \<open>The peer that takes the last free slot doubles the array without clearing it: unless a
  peer leaves first, the next join, and the next lookup or removal of an id that is not in the
  table, tests an uninitialised pointer.\<close>

theorem peer_table_growth_uninitialised:
  assumes "table_ok t" "pt_count t + 1 = length (pt_list t)" "length ip = IP_LEN"
  shows "\<exists>p t'. add_peer now (Some t) (Some ip) fd = Inr (Some p, Some t')
    \<and> add_peer now (Some t') (Some ip2) fd2 = Inl WildDeref
    \<and> get_peer_by_id (Some t') (pt_id_counter t') = Inl WildDeref
    \<and> delete_peer (Some t') (pt_id_counter t') = Inl WildDeref"
proof -
  let ?p = "\<lparr>p_ip_addr = ip, p_socketfd = fd, p_id = pt_id_counter t, p_time_last_alive = now\<rparr>"
  have ok: "slots_ok t" using assms(1) by (simp add: table_ok_def)
  obtain t' us n where t': "add_peer now (Some t) (Some ip) fd = Inr (Some ?p, Some t')"
    "pt_id_counter t' = pt_id_counter t + 1" "mset (peers t') = add_mset ?p (mset (peers t))"
    "pt_list t' = map Used us @ replicate (Suc n) Uninit" "mset us = mset (peers t')"
    using add_peer_ok [OF ok assms(3), where fd = fd and now = now] assms(2) by auto
  have "set us = insert ?p (set (peers t))"
    using t'(3,5) by (metis set_mset_add_mset_insert set_mset_mset)
  then have "\<forall>p \<in> set us. p_id p \<noteq> pt_id_counter t'" "1 \<le> pt_id_counter t'"
    using assms(1) t'(2) by (auto simp: table_ok_def)
  then have "first_peer (\<lambda>p. p_id p = pt_id_counter t') (pt_list t') = Inl WildDeref"
    unfolding t'(4) replicate_Suc by (intro first_peer_uninit) auto
  moreover have "first_free (pt_list t') = Inl WildDeref"
    unfolding t'(4) replicate_Suc by (intro first_free_uninit) auto
  ultimately show ?thesis
    using t'(1) \<open>1 \<le> pt_id_counter t'\<close>
    by (auto simp: add_peer_def get_peer_by_id_def get_peer_def delete_peer_def)
qed

theorem peer_table_growth_uninitialised_witness:
  "\<exists>p t'. add_peer 0 (init_peer_table 1) (Some [1, 2, 3, 4]) 5 = Inr (Some p, Some t')
    \<and> add_peer 0 (Some t') (Some [1, 2, 3, 5]) 6 = Inl WildDeref"
proof -
  let ?t = "\<lparr>pt_list = [Free], pt_count = 0, pt_id_counter = 1\<rparr>"
  have "table_ok ?t" by (simp add: table_ok_def slots_ok_def peers_def)
  from peer_table_growth_uninitialised [OF this, of "[1, 2, 3, 4]" 0 5 "[1, 2, 3, 5]" 6]
  show ?thesis by (auto simp: IP_LEN_def init_peer_table_def)
qed

text \<open>C34. A table sent to a client arrives with the same ids and addresses in the same order, without
  sockets and times, and never overflows the buffer; only \<open>count\<close>, which \<open>copy_peer\<close> and the
  loop around it both increase, comes out twice as high as the number of peers.\<close>

theorem peer_table_round_trip:
  assumes "slots_ok t" "list_all wire_peer (peers t)" "peers t \<noteq> []"
  shows "\<exists>bs n t'. serialize_peer_table (Some t) = Inr (Some bs, n)
    \<and> deserialize_peer_table (Some bs) (int n) = Inr (Some t')
    \<and> peers t' = map remote (peers t) \<and> pt_count t' = 2 * length (peers t)"
proof -
  let ?ps = "peers t"
  let ?t = "\<lparr>pt_list = replicate (2 * length ?ps) Free, pt_count = 0, pt_id_counter = 1\<rparr>"
  have init: "init_peer_table (int (8 * length ?ps) div 8 * 2) = Some ?t"
    using assms(3) by (simp add: init_peer_table_def nat_mult_distrib)
  have "read_peers (length ?ps) (concat (map peer_bytes ?ps) @ []) (Some ?t)
      = Inr (Some (?t\<lparr>pt_list := map Used ([] @ map remote ?ps) @ replicate (length ?ps) Free,
          pt_count := 2 * (length [] + length ?ps)\<rparr>))"
    using read_peers_bytes [where ps = ?ps and t = ?t and qs = "[]" and k = "length ?ps" and m = "length ?ps"
        and rest = "[]"] assms(2)
    by (simp add: mult_2 del: map_map)
  moreover have "live (map Used xs @ replicate k Free) = xs" for xs k
    by (induction xs) (induction k, auto)
  then have "peers \<lparr>pt_list = map Used xs @ replicate k Free, pt_count = c, pt_id_counter = d\<rparr> = xs" for xs k c d
    unfolding peers_def by simp
  ultimately show ?thesis
    using serialize_peers [OF assms] assms(3) init
    by (auto simp: deserialize_peer_table_def simp del: map_map)
qed

theorem peer_table_round_trip_witness:
  "\<exists>bs n t'. serialize_peer_table (Some \<lparr>pt_list = [Free, Used \<lparr>p_ip_addr = [10, 0, 0, 9], p_socketfd = 4, p_id = 7, p_time_last_alive = 3\<rparr>],
      pt_count = 1, pt_id_counter = 8\<rparr>) = Inr (Some bs, n)
    \<and> deserialize_peer_table (Some bs) (int n) = Inr (Some t')
    \<and> peers t' = [\<lparr>p_ip_addr = [10, 0, 0, 9], p_socketfd = -1, p_id = 7, p_time_last_alive = 0\<rparr>] \<and> pt_count t' = 2"
  using peer_table_round_trip [of "\<lparr>pt_list = [Free, Used \<lparr>p_ip_addr = [10, 0, 0, 9], p_socketfd = 4, p_id = 7, p_time_last_alive = 3\<rparr>],
      pt_count = 1, pt_id_counter = 8\<rparr>"]
  by (simp add: slots_ok_def peers_def wire_peer_def is_int_def IP_LEN_def remote_def)



end
