(* ===== verification/FileSys.thy ===== *)
theory FileSys
  imports Bytes
begin

text \<open>
  Directory trees and their differences, the first half of \<open>utility/FileSystem/FileSystem.c\<close>. A
  \<open>_Folder\<close> is a value of the datatype \<open>folder\<close>; its two queues are lists, on which queue
  operations act as \<open>CQueue\<close> shows them to (\<open>queue_remove\<close> takes the first element the search
  function accepts, called with the key first). A sub-folder is stored twice, as a file with
  \<open>is_folder\<close> set and as a folder. Functions that change a folder in place return the changed
  one. \<open>entries\<close> is the set of (directory, file) pairs a tree stands for.
\<close>

section \<open>Strings and paths\<close>

definition add_strings :: "cstring list \<Rightarrow> cstring" where
  "add_strings strings = concat strings"

text \<open>Counts the bytes after the first, the terminating 0 included, that continue no character.\<close>

definition unicode_strlen :: "cstring \<Rightarrow> nat" where
  "unicode_strlen str = (if str = [] then 0
     else length (filter (\<lambda>b. and b 0xC0 \<noteq> 0x80) (tl str @ [0])))"

text \<open>
  The second loop of \<open>get_path_components\<close> over the copy in which every slash is a 0. On a
  byte that is no 0 before the first slash nothing advances \<open>i\<close>: the loop does not end.
\<close>

function path_loop :: "bool \<Rightarrow> byte list \<Rightarrow> cstring list outcome" where
  "path_loop prev_was_null [] = Inr []"
| "path_loop prev_was_null (b # bs) =
     (if b = 0 then path_loop True bs
      else if prev_was_null then
        bindE (path_loop prev_was_null (dropWhile (\<lambda>c. c \<noteq> 0) bs))
          (\<lambda>cs. Inr ((b # takeWhile (\<lambda>c. c \<noteq> 0) bs) # cs))
      else Inl NoReturn)"
  by pat_completeness auto
termination
  by (relation "measure (\<lambda>(p, bs). length bs)") (auto simp: length_dropWhile_le le_imp_less_Suc)

definition get_path_components :: "cstring \<Rightarrow> cstring list outcome" where
  "get_path_components path = path_loop False (map (\<lambda>b. if b = 47 then 0 else b) path)"

section \<open>Files\<close>

record fileinfo =
  f_name :: cstring
  f_size :: "64 word"
  f_last_modified :: int
  f_is_folder :: int

definition file_copy :: "fileinfo \<Rightarrow> fileinfo" where
  "file_copy f = \<lparr>f_name = f_name f, f_size = f_size f, f_last_modified = f_last_modified f,
     f_is_folder = f_is_folder f\<rparr>"

text \<open>\<open>int file_get_size\<close> cuts the size to 32 bits.\<close>

definition file_get_size :: "fileinfo \<Rightarrow> int" where
  "file_get_size f = sint (ucast (f_size f) :: 32 word)"

definition file_equals_name_only :: "fileinfo \<Rightarrow> fileinfo \<Rightarrow> bool" where
  "file_equals_name_only f0 f1 \<longleftrightarrow> f_name f0 = f_name f1"

definition file_equals :: "fileinfo \<Rightarrow> fileinfo \<Rightarrow> bool" where
  "file_equals f0 f1 \<longleftrightarrow> f_name f0 = f_name f1 \<and> f_size f0 = f_size f1
     \<and> f_last_modified f0 = f_last_modified f1 \<and> f_is_folder f0 = f_is_folder f1"

definition file_ignore_time :: "fileinfo \<Rightarrow> fileinfo \<Rightarrow> bool" where
  "file_ignore_time f0 f1 \<longleftrightarrow> f_name f0 = f_name f1 \<and> f_size f0 = f_size f1 \<and> f_is_folder f0 = f_is_folder f1"

definition file_older :: "fileinfo \<Rightarrow> fileinfo \<Rightarrow> bool" where
  "file_older f0 f1 \<longleftrightarrow> f_name f0 = f_name f1 \<and> f_last_modified f0 \<le> f_last_modified f1
     \<and> f_is_folder f0 = f_is_folder f1"

definition file_newer :: "fileinfo \<Rightarrow> fileinfo \<Rightarrow> bool" where
  "file_newer f0 f1 \<longleftrightarrow> f_name f0 = f_name f1 \<and> f_last_modified f0 > f_last_modified f1
     \<and> f_is_folder f0 = f_is_folder f1"

section \<open>Folders\<close>

datatype folder = Folder (fo_name: cstring) (fo_files: "fileinfo list") (fo_folders: "folder list")

definition folder_equals :: "folder \<Rightarrow> folder \<Rightarrow> bool" where
  "folder_equals f0 f1 \<longleftrightarrow> fo_name f0 = fo_name f1"

text \<open>
  What \<open>opendir\<close>, \<open>readdir\<close> and \<open>stat\<close> show of a directory: its entries with their names. Names
  that start with a dot are skipped.
\<close>

datatype disk = DiskFile nat int | DiskDir "(cstring \<times> disk) list"

definition file_new :: "nat \<Rightarrow> int \<Rightarrow> cstring \<Rightarrow> fileinfo" where
  "file_new st_size st_mtime name =
     \<lparr>f_name = name, f_size = word_of_nat st_size, f_last_modified = st_mtime, f_is_folder = 0\<rparr>"

definition dir_entry :: "cstring \<Rightarrow> fileinfo" where
  "dir_entry name = \<lparr>f_name = name, f_size = 0, f_last_modified = 0, f_is_folder = 1\<rparr>"

definition hidden :: "cstring \<Rightarrow> bool" where
  "hidden d_name \<longleftrightarrow> (case d_name of [] \<Rightarrow> False | c # _ \<Rightarrow> c = 46)"

lemma size_disk_entry: "dir \<in> set contents \<Longrightarrow> size (snd dir) < size (DiskDir contents)"
  by (induction contents) (auto split: prod.splits)

function folder_new :: "disk \<Rightarrow> cstring \<Rightarrow> folder outcome" where
  "folder_new (DiskFile n t) name = Inl AssertFail"
| "folder_new (DiskDir contents) name =
     foldE (\<lambda>dir folder.
       if hidden (fst dir) then Inr folder
       else case snd dir of
         DiskDir c \<Rightarrow> bindE (folder_new (snd dir) (fst dir)) (\<lambda>child.
           Inr (Folder (fo_name folder) (fo_files folder @ [dir_entry (fo_name child)]) (fo_folders folder @ [child])))
       | DiskFile n t \<Rightarrow>
           Inr (Folder (fo_name folder) (fo_files folder @ [file_new n t (fst dir)]) (fo_folders folder)))
       contents (Folder name [] [])"
  by pat_completeness auto
termination
  by (relation "measure (\<lambda>(d, name). size d)") (auto dest!: size_disk_entry)

fun folder_copy :: "folder \<Rightarrow> folder" where
  "folder_copy (Folder n fs ds) = Folder n (map file_copy fs) (map folder_copy ds)"

text \<open>
  Find the folder with the name of \<open>toRemove\<close>, change it, and take it out of the queue when the
  change says so (\<open>None\<close>).
\<close>

definition in_folder :: "(folder \<Rightarrow> folder option) \<Rightarrow> folder \<Rightarrow> folder list \<Rightarrow> folder list" where
  "in_folder h toRemove folders = (case find (folder_equals toRemove) folders of
     None \<Rightarrow> folders
   | Some removed \<Rightarrow> (case h removed of
       None \<Rightarrow> remove_first (folder_equals toRemove) folders
     | Some changed \<Rightarrow> update_first (folder_equals toRemove) (\<lambda>_. changed) folders))"

lemma in_folder_cong [fundef_cong]:
  "T = T' \<Longrightarrow> gs = gs' \<Longrightarrow> (\<And>r. h r = h' r) \<Longrightarrow> in_folder h T gs = in_folder h' T' gs'"
  by (simp add: in_folder_def cong: option.case_cong)

fun folder_subtract :: "(fileinfo \<Rightarrow> fileinfo \<Rightarrow> bool) \<Rightarrow> folder \<Rightarrow> folder \<Rightarrow> folder" where
  "folder_subtract equalsFunc f (Folder n fs ds) =
     Folder (fo_name f)
       (fold (\<lambda>t files. remove_first (equalsFunc t) files) fs (fo_files f))
       (fold (\<lambda>toRemove. in_folder (\<lambda>removed.
          let tmp = folder_subtract equalsFunc removed toRemove
          in if fo_files tmp = [] \<and> fo_folders tmp = [] then None else Some tmp) toRemove) ds (fo_folders f))"

text \<open>Removing a file that is a folder removes the folder with everything in it.\<close>

definition remove_file :: "fileinfo \<Rightarrow> fileinfo list \<times> folder list \<Rightarrow> fileinfo list \<times> folder list" where
  "remove_file t s = (case s of (files, folders) \<Rightarrow>
     case find (file_equals t) files of
       None \<Rightarrow> (files, folders)
     | Some removedFile \<Rightarrow>
         (remove_first (file_equals t) files,
          if f_is_folder removedFile \<noteq> 0
          then remove_first (\<lambda>d. f_name removedFile = fo_name d) folders else folders))"

fun folder_remove :: "folder \<Rightarrow> folder \<Rightarrow> folder" where
  "folder_remove f (Folder n fs ds) =
     (let (files, folders) = fold remove_file fs (fo_files f, fo_folders f)
      in Folder (fo_name f) files
           (fold (\<lambda>toRemove. in_folder (\<lambda>removed. Some (folder_remove removed toRemove)) toRemove) ds folders))"

definition add_file :: "folder list \<Rightarrow> fileinfo \<Rightarrow> fileinfo list \<times> folder list \<Rightarrow> (fileinfo list \<times> folder list) outcome" where
  "add_file toAddFolders fileToAdd s = (case s of (files, folders) \<Rightarrow>
     if f_is_folder fileToAdd \<noteq> 0 then
       bindE (assertE (find (\<lambda>d. f_name fileToAdd = fo_name d) toAddFolders \<noteq> None)) (\<lambda>_.
         let containsFolder = find (\<lambda>d. f_name fileToAdd = fo_name d) folders in
         if find (file_equals fileToAdd) files \<noteq> None
         then bindE (assertE (containsFolder \<noteq> None)) (\<lambda>_. Inr (files, folders))
         else bindE (assertE (containsFolder = None)) (\<lambda>_.
                Inr (files @ [file_copy fileToAdd], folders @ [Folder (f_name fileToAdd) [] []])))
     else if find (file_equals fileToAdd) files = None then Inr (files @ [file_copy fileToAdd], folders)
     else Inr (files, folders))"

definition in_folderE :: "(folder \<Rightarrow> folder outcome) \<Rightarrow> folder \<Rightarrow> folder list \<Rightarrow> folder list outcome" where
  "in_folderE h folderToAdd folders = (case find (folder_equals folderToAdd) folders of
     None \<Rightarrow> Inl AssertFail
   | Some found \<Rightarrow> bindE (h found) (\<lambda>changed.
       Inr (update_first (folder_equals folderToAdd) (\<lambda>_. changed) folders)))"

lemma in_folderE_cong [fundef_cong]:
  "T = T' \<Longrightarrow> gs = gs' \<Longrightarrow> (\<And>r. h r = h' r) \<Longrightarrow> in_folderE h T gs = in_folderE h' T' gs'"
  by (simp add: in_folderE_def cong: option.case_cong)

fun folder_add :: "folder \<Rightarrow> folder \<Rightarrow> folder outcome" where
  "folder_add f (Folder n fs ds) =
     bindE (foldE (add_file ds) fs (fo_files f, fo_folders f)) (\<lambda>s.
     bindE (foldE (\<lambda>folderToAdd. in_folderE (\<lambda>found. folder_add found folderToAdd) folderToAdd) ds (snd s)) (\<lambda>folders.
       Inr (Folder (fo_name f) (fst s) folders)))"

text \<open>
  With no component left \<open>queue_pop\<close> returns NULL, which \<open>strcmp\<close> is called with for the first
  file, if there is one.
\<close>

fun folder_remove_file_at_path :: "cstring list \<Rightarrow> folder \<Rightarrow> folder outcome" where
  "folder_remove_file_at_path [] f = (if fo_files f = [] then Inl AssertFail else Inl NullDeref)"
| "folder_remove_file_at_path [component] f =
     (case find (\<lambda>x. f_name x = component) (fo_files f) of
        None \<Rightarrow> Inl AssertFail
      | Some found \<Rightarrow>
          let files = remove_first (\<lambda>x. f_name x = component) (fo_files f) in
          if f_is_folder found \<noteq> 0 then
            (if find (\<lambda>d. fo_name d = component) (fo_folders f) = None then Inl AssertFail
             else Inr (Folder (fo_name f) files (remove_first (\<lambda>d. fo_name d = component) (fo_folders f))))
          else Inr (Folder (fo_name f) files (fo_folders f)))"
| "folder_remove_file_at_path (component # components) f =
     (case find (\<lambda>d. fo_name d = component) (fo_folders f) of
        None \<Rightarrow> Inl AssertFail
      | Some found \<Rightarrow>
          bindE (folder_remove_file_at_path components found) (\<lambda>changed.
            Inr (Folder (fo_name f) (fo_files f)
              (update_first (\<lambda>d. fo_name d = component) (\<lambda>_. changed) (fo_folders f)))))"

section \<open>File systems\<close>

record filesystem =
  fs_root_path :: "cstring ptr"
  fs_root :: folder

text \<open>\<open>wordexp\<close> of a path and the disk below a path are the environment's.\<close>

definition filesystem_new :: "(cstring \<Rightarrow> cstring) \<Rightarrow> (cstring \<Rightarrow> disk) \<Rightarrow> cstring ptr \<Rightarrow> filesystem outcome" where
  "filesystem_new wordexp disk path = (case path of
     None \<Rightarrow> Inr \<lparr>fs_root_path = None, fs_root = Folder [] [] []\<rparr>
   | Some p \<Rightarrow> bindE (folder_new (disk (wordexp p)) []) (\<lambda>root.
       Inr \<lparr>fs_root_path = Some (wordexp p), fs_root = root\<rparr>))"

definition filesystem_is_empty :: "filesystem \<Rightarrow> bool" where
  "filesystem_is_empty fs \<longleftrightarrow> fo_files (fs_root fs) = [] \<and> fo_folders (fs_root fs) = []"

definition filesystem_get_root_path :: "filesystem \<Rightarrow> cstring ptr" where
  "filesystem_get_root_path fs = fs_root_path fs"

definition filesystem_set_root_path :: "filesystem \<Rightarrow> cstring ptr \<Rightarrow> filesystem" where
  "filesystem_set_root_path fs path = fs\<lparr>fs_root_path := path\<rparr>"

definition filesystem_copy :: "filesystem \<Rightarrow> filesystem" where
  "filesystem_copy fs = \<lparr>fs_root_path = fs_root_path fs, fs_root = folder_copy (fs_root fs)\<rparr>"

definition filesystem_minus_equals_diff ::
    "filesystem \<Rightarrow> filesystem \<Rightarrow> (fileinfo \<Rightarrow> fileinfo \<Rightarrow> bool) \<Rightarrow> filesystem" where
  "filesystem_minus_equals_diff fs0 fs1 equalsFunc =
     fs0\<lparr>fs_root := folder_subtract equalsFunc (fs_root fs0) (fs_root fs1)\<rparr>"

definition filesystem_minus_equals :: "filesystem \<Rightarrow> filesystem \<Rightarrow> filesystem" where
  "filesystem_minus_equals fs0 fs1 = fs0\<lparr>fs_root := folder_remove (fs_root fs0) (fs_root fs1)\<rparr>"

definition filesystem_plus_equals :: "filesystem \<Rightarrow> filesystem \<Rightarrow> filesystem outcome" where
  "filesystem_plus_equals fs0 fs1 =
     bindE (folder_add (fs_root fs0) (fs_root fs1)) (\<lambda>r. Inr (fs0\<lparr>fs_root := r\<rparr>))"

text \<open>Returns the additions and the deletions.\<close>

definition filesystem_diff_helper ::
    "filesystem \<Rightarrow> filesystem \<Rightarrow> (fileinfo \<Rightarrow> fileinfo \<Rightarrow> bool) \<Rightarrow> filesystem \<times> filesystem" where
  "filesystem_diff_helper old new equalsFunc =
     (let additions = filesystem_copy old;
          deletions = filesystem_copy new;
          deletions = filesystem_minus_equals_diff deletions additions equalsFunc;
          additions = filesystem_minus_equals_diff additions new equalsFunc
      in (deletions, additions))"

definition filesystem_diff :: "filesystem \<Rightarrow> filesystem \<Rightarrow> filesystem \<times> filesystem" where
  "filesystem_diff old new = filesystem_diff_helper old new file_equals"

definition filesystem_equals :: "filesystem \<Rightarrow> filesystem \<Rightarrow> bool" where
  "filesystem_equals fs0 fs1 =
     (let (additions, deletions) = filesystem_diff fs0 fs1
      in filesystem_is_empty additions \<and> filesystem_is_empty deletions)"

text \<open>Returns what is left of the additions and of the deletions.\<close>

definition filesystem_handle_updates :: "filesystem \<Rightarrow> filesystem \<Rightarrow> filesystem \<times> filesystem" where
  "filesystem_handle_updates additions deletions =
     (let (a1, d1) = filesystem_diff_helper additions deletions file_ignore_time;
          a0 = filesystem_minus_equals_diff (filesystem_copy additions) d1 file_equals;
          d0 = filesystem_minus_equals_diff (filesystem_copy deletions) a1 file_equals
      in (filesystem_minus_equals_diff additions d0 file_newer,
          filesystem_minus_equals_diff deletions a0 file_older))"

definition filesystem_remove_file_at_path :: "filesystem \<Rightarrow> cstring \<Rightarrow> filesystem outcome" where
  "filesystem_remove_file_at_path fs path =
     bindE (get_path_components path) (\<lambda>components.
     bindE (folder_remove_file_at_path components (fs_root fs)) (\<lambda>r. Inr (fs\<lparr>fs_root := r\<rparr>)))"

section \<open>What a tree stands for\<close>

fun entries :: "folder \<Rightarrow> (cstring list \<times> fileinfo) set" where
  "entries (Folder n fs ds) =
     {([], x) | x. x \<in> set fs} \<union> (\<Union>d \<in> set ds. (\<lambda>(p, x). (fo_name d # p, x)) ` entries d)"

text \<open>No file and no folder name occurs twice in a folder.\<close>

fun uniq :: "folder \<Rightarrow> bool" where
  "uniq (Folder n fs ds) \<longleftrightarrow> distinct (map f_name fs) \<and> distinct (map fo_name ds) \<and> (\<forall>d \<in> set ds. uniq d)"

text \<open>
  A tree as \<open>folder_new\<close> builds it: names are unique, and a folder is stored as a file with
  \<open>is_folder\<close> exactly when it is stored as a folder.
\<close>

fun wf_folder :: "folder \<Rightarrow> bool" where
  "wf_folder (Folder n fs ds) \<longleftrightarrow> distinct (map f_name fs) \<and> distinct (map fo_name ds)
     \<and> (\<forall>x \<in> set fs. f_is_folder x \<noteq> 0 \<longrightarrow> x = dir_entry (f_name x) \<and> f_name x \<in> fo_name ` set ds)
     \<and> (\<forall>d \<in> set ds. dir_entry (fo_name d) \<in> set fs \<and> wf_folder d)"

definition sub :: "cstring \<Rightarrow> folder list \<Rightarrow> folder option" where
  "sub n ds = find (\<lambda>d. fo_name d = n) ds"

definition empty_folder :: "folder \<Rightarrow> bool" where
  "empty_folder f \<longleftrightarrow> fo_files f = [] \<and> fo_folders f = []"

named_theorems tree_simps

lemma file_equals_eq [simp]: "file_equals = (=)"
  by (auto simp: file_equals_def fun_eq_iff)

lemma file_copy_id [simp]: "file_copy f = f"
  by (simp add: file_copy_def)

lemma folder_copy_id [simp]: "folder_copy f = f"
proof (induction f)
  case (Folder n fs ds)
  then have "map folder_copy ds = ds" by (simp add: map_idI)
  moreover have "map file_copy fs = fs" by (simp add: map_idI)
  ultimately show ?case by simp
qed

lemma filesystem_copy_id [simp]: "filesystem_copy fs = fs"
  by (simp add: filesystem_copy_def)

lemma sub_None: "sub n ds = None \<longleftrightarrow> n \<notin> fo_name ` set ds"
  by (auto simp: sub_def find_None_all)

lemma sub_Some: "distinct (map fo_name ds) \<Longrightarrow> sub n ds = Some d \<longleftrightarrow> d \<in> set ds \<and> fo_name d = n"
  by (induction ds) (auto simp: sub_def)

lemma sub_name: "sub n ds = Some d \<Longrightarrow> d \<in> set ds \<and> fo_name d = n"
  unfolding sub_def by (rule find_Some_in)

lemma sub_in: "d \<in> set ds \<Longrightarrow> \<exists>e. sub (fo_name d) ds = Some e"
  using sub_None by fastforce

lemma sub_cons [simp]: "sub n (d # ds) = (if fo_name d = n then Some d else sub n ds)" "sub n [] = None"
  by (simp_all add: sub_def)

lemma sub_append: "sub n (ds @ es) = (case sub n ds of None \<Rightarrow> sub n es | Some d \<Rightarrow> Some d)"
  by (auto simp: sub_def find_append split: option.splits)

lemma folder_equals_name: "folder_equals T = (\<lambda>d. fo_name d = fo_name T)"
  by (auto simp: folder_equals_def fun_eq_iff)

lemma all_sub_None: "(\<forall>n. sub n ds = None) \<longleftrightarrow> ds = []"
  by (cases ds) auto

lemma uniq_alt: "uniq f \<longleftrightarrow> distinct (map f_name (fo_files f)) \<and> distinct (map fo_name (fo_folders f)) \<and> (\<forall>d \<in> set (fo_folders f). uniq d)"
  by (cases f) simp

lemma uniq_sub: "uniq f \<Longrightarrow> sub n (fo_folders f) = Some d \<Longrightarrow> uniq d"
  using sub_name by (cases f) auto

lemma wf_names: "wf_folder f \<Longrightarrow> distinct (map f_name (fo_files f)) \<and> distinct (map fo_name (fo_folders f))"
  by (cases f) simp

lemma wf_distinct: "wf_folder f \<Longrightarrow> distinct (fo_files f) \<and> distinct (map fo_name (fo_folders f))"
  by (cases f) (auto simp: distinct_map)

lemma distinct_mapI: "distinct (map f xs) \<Longrightarrow> distinct xs"
  by (simp add: distinct_map)

lemma wf_sub: "wf_folder f \<Longrightarrow> sub n (fo_folders f) = Some d \<Longrightarrow> wf_folder d"
  using sub_name by (cases f) auto

lemma wf_dir: "wf_folder f \<Longrightarrow> dir_entry n \<in> set (fo_files f) \<longleftrightarrow> sub n (fo_folders f) \<noteq> None"
proof
  assume wf: "wf_folder f" and "dir_entry n \<in> set (fo_files f)"
  then have "f_name (dir_entry n) \<in> fo_name ` set (fo_folders f)"
    by (cases f) (auto simp: dir_entry_def)
  then show "sub n (fo_folders f) \<noteq> None" by (simp add: sub_None dir_entry_def)
next
  assume wf: "wf_folder f" and "sub n (fo_folders f) \<noteq> None"
  then obtain d where "d \<in> set (fo_folders f)" "fo_name d = n" using sub_name by blast
  with wf show "dir_entry n \<in> set (fo_files f)" by (cases f) auto
qed

lemma wf_is_folder:
  "wf_folder f \<Longrightarrow> x \<in> set (fo_files f) \<Longrightarrow> f_is_folder x \<noteq> 0 \<Longrightarrow> x = dir_entry (f_name x)"
  by (cases f) auto

lemma dir_entry_simps [simp]: "f_name (dir_entry n) = n" "f_is_folder (dir_entry n) = 1"
  by (simp_all add: dir_entry_def)

lemma dir_entry_inj [simp]: "dir_entry m = dir_entry n \<longleftrightarrow> m = n"
  by (auto simp: dir_entry_def)

lemma wf_uniq: "wf_folder f \<Longrightarrow> uniq f"
proof (induction f)
  case (Folder n fs ds)
  then show ?case by (auto simp: distinct_map)
qed

lemma entries_top [tree_simps]: "([], x) \<in> entries f \<longleftrightarrow> x \<in> set (fo_files f)"
  by (cases f) auto

lemma entries_sub [tree_simps]:
  "distinct (map fo_name (fo_folders f)) \<Longrightarrow>
    (n # p, x) \<in> entries f \<longleftrightarrow> (\<exists>d. sub n (fo_folders f) = Some d \<and> (p, x) \<in> entries d)"
  by (cases f) (auto simp: sub_Some)

text \<open>The entries below a name.\<close>

definition below :: "cstring \<Rightarrow> folder \<Rightarrow> (cstring list \<times> fileinfo) set" where
  "below n f = (case sub n (fo_folders f) of None \<Rightarrow> {} | Some d \<Rightarrow> entries d)"

lemma entries_below [tree_simps]:
  "distinct (map fo_name (fo_folders f)) \<Longrightarrow> (n # p, x) \<in> entries f \<longleftrightarrow> (p, x) \<in> below n f"
  by (simp add: entries_sub below_def split: option.splits)

lemma entries_eqI:
  assumes "distinct (map fo_name (fo_folders f))" "distinct (map fo_name (fo_folders g))"
    and "set (fo_files f) = set (fo_files g)" "\<And>n. below n f = below n g"
  shows "entries f = entries g"
proof -
  have "(p, x) \<in> entries f \<longleftrightarrow> (p, x) \<in> entries g" for p x
    using assms by (cases p) (simp_all add: entries_top entries_below)
  then show ?thesis by auto
qed

section \<open>One level of a change\<close>

lemma names_update: "(\<And>d. P d \<Longrightarrow> fo_name (g d) = fo_name d) \<Longrightarrow> map fo_name (update_first P g ds) = map fo_name ds"
  by (rule map_update_first)

lemma sub_update:
  "fo_name e = k \<Longrightarrow> sub n (update_first (\<lambda>d. fo_name d = k) (\<lambda>_. e) ds)
    = (if n = k \<and> sub n ds \<noteq> None then Some e else sub n ds)"
  by (induction ds) auto

lemma sub_remove:
  "distinct (map fo_name ds) \<Longrightarrow> sub n (remove_first (\<lambda>d. fo_name d = k) ds) = (if n = k then None else sub n ds)"
  by (induction ds) (auto simp: sub_None)

lemma in_folder_sub:
  assumes "distinct (map fo_name gs)" "\<And>r r'. h r = Some r' \<Longrightarrow> fo_name r' = fo_name r"
  shows "sub n (in_folder h T gs) = (if n = fo_name T then (case sub n gs of None \<Rightarrow> None | Some r \<Rightarrow> h r) else sub n gs)
    \<and> distinct (map fo_name (in_folder h T gs))"
proof (cases "sub (fo_name T) gs")
  case None
  with assms(1) show ?thesis by (auto simp: in_folder_def folder_equals_name sub_def)
next
  case (Some r)
  then have r: "find (\<lambda>d. fo_name d = fo_name T) gs = Some r" "fo_name r = fo_name T"
    using sub_name [OF Some] by (simp_all add: sub_def)
  show ?thesis
  proof (cases "h r")
    case None
    then have "in_folder h T gs = remove_first (\<lambda>d. fo_name d = fo_name T) gs"
      by (simp add: in_folder_def folder_equals_name r(1))
    with None Some sub_remove [OF assms(1)] distinct_map_remove_first [OF assms(1)] show ?thesis by simp
  next
    case (Some r')
    then have i: "in_folder h T gs = update_first (\<lambda>d. fo_name d = fo_name T) (\<lambda>_. r') gs"
      by (simp add: in_folder_def folder_equals_name r(1))
    have n: "fo_name r' = fo_name T" using assms(2) [OF Some] r(2) by simp
    have "map fo_name (in_folder h T gs) = map fo_name gs"
      unfolding i by (rule names_update) (simp add: n)
    then have "distinct (map fo_name (in_folder h T gs))" using assms(1) by (rule ssubst)
    moreover have "sub n (in_folder h T gs) = (if n = fo_name T \<and> sub n gs \<noteq> None then Some r' else sub n gs)"
      unfolding i by (rule sub_update [OF n])
    ultimately show ?thesis
      using Some \<open>sub (fo_name T) gs = Some r\<close> by (cases "n = fo_name T") simp_all
  qed
qed

lemma fold_in_folder:
  assumes "\<And>T r r'. h T r = Some r' \<Longrightarrow> fo_name r' = fo_name r"
  shows "distinct (map fo_name ds) \<Longrightarrow> distinct (map fo_name gs) \<Longrightarrow>
    sub n (fold (\<lambda>T. in_folder (h T) T) ds gs)
      = (case sub n ds of None \<Rightarrow> sub n gs | Some T \<Rightarrow> (case sub n gs of None \<Rightarrow> None | Some r \<Rightarrow> h T r))
    \<and> distinct (map fo_name (fold (\<lambda>T. in_folder (h T) T) ds gs))"
proof (induction ds arbitrary: gs)
  case Nil
  then show ?case by simp
next
  case (Cons T ds)
  have s: "sub n (in_folder (h T) T gs) = (if n = fo_name T then (case sub n gs of None \<Rightarrow> None | Some r \<Rightarrow> h T r) else sub n gs)"
    "distinct (map fo_name (in_folder (h T) T gs))"
    using in_folder_sub [OF Cons.prems(2), of "h T"] assms by auto
  have "sub (fo_name T) ds = None" using Cons.prems(1) by (auto simp: sub_None)
  with Cons.IH [OF _ s(2)] s Cons.prems(1) show ?case by (auto split: option.splits)
qed

lemma name_subtract [simp]: "fo_name (folder_subtract eq f g) = fo_name f"
  by (cases g) simp

lemma name_remove [simp]: "fo_name (folder_remove f g) = fo_name f"
  by (cases g) (simp add: split_def Let_def)

lemma entries_empty: "empty_folder f \<Longrightarrow> entries f = {}"
  by (cases f) (simp add: empty_folder_def)

text \<open>
  What every comparison function handed to \<open>folder_subtract\<close> keeps to: it only relates files of
  one name. A difference then drops every file to which one of the other tree is related.
\<close>

locale comparison =
  fixes eq :: "fileinfo \<Rightarrow> fileinfo \<Rightarrow> bool"
  assumes eq_name: "eq t x \<Longrightarrow> f_name t = f_name x"
begin

lemma drop_first: "distinct (map f_name xs) \<Longrightarrow>
    set (remove_first (eq t) xs) = {x \<in> set xs. \<not> eq t x} \<and> distinct (map f_name (remove_first (eq t) xs))"
proof (induction xs)
  case Nil
  then show ?case by simp
next
  case (Cons x xs)
  show ?case
  proof (cases "eq t x")
    case True
    then have "f_name t \<notin> f_name ` set xs" using Cons.prems eq_name [OF True] by simp
    then have "\<forall>y \<in> set xs. \<not> eq t y" using eq_name by blast
    with True Cons.prems show ?thesis by auto
  next
    case False
    with Cons set_remove_first_subset [of "eq t" xs] show ?thesis by auto
  qed
qed

lemma fold_remove_first: "distinct (map f_name xs) \<Longrightarrow>
    set (fold (\<lambda>t files. remove_first (eq t) files) ts xs) = {x \<in> set xs. \<not> (\<exists>t \<in> set ts. eq t x)}
    \<and> distinct (map f_name (fold (\<lambda>t files. remove_first (eq t) files) ts xs))"
proof (induction ts arbitrary: xs)
  case Nil
  then show ?case by simp
next
  case (Cons t ts)
  with drop_first [OF Cons.prems, of t] Cons.IH [of "remove_first (eq t) xs"] show ?case by auto
qed

lemma subtract_level:
  assumes "distinct (map f_name (fo_files f))" "distinct (map fo_name (fo_folders f))" "distinct (map fo_name (fo_folders g))"
  shows "set (fo_files (folder_subtract eq f g)) = {x \<in> set (fo_files f). \<not> (\<exists>t \<in> set (fo_files g). eq t x)}"
    "distinct (map f_name (fo_files (folder_subtract eq f g)))"
    "distinct (map fo_name (fo_folders (folder_subtract eq f g)))"
    "sub n (fo_folders (folder_subtract eq f g)) = (case sub n (fo_folders g) of
        None \<Rightarrow> sub n (fo_folders f)
      | Some G \<Rightarrow> (case sub n (fo_folders f) of None \<Rightarrow> None | Some F \<Rightarrow>
          if empty_folder (folder_subtract eq F G) then None else Some (folder_subtract eq F G)))"
proof -
  obtain m fs ds where g: "g = Folder m fs ds" by (cases g) auto
  define h where "h T r = (if empty_folder (folder_subtract eq r T) then None
    else Some (folder_subtract eq r T))" for T r
  have h: "fo_name r' = fo_name r" if "h T r = Some r'" for T r r'
    using that by (auto simp: h_def split: if_splits)
  have d: "distinct (map fo_name ds)" using assms(3) g by simp
  have r: "fo_folders (folder_subtract eq f g) = fold (\<lambda>T. in_folder (h T) T) ds (fo_folders f)"
    unfolding g h_def empty_folder_def by (simp only: Let_def folder_subtract.simps folder.sel)
  have s: "sub n (fold (\<lambda>T. in_folder (h T) T) ds (fo_folders f))
      = (case sub n ds of None \<Rightarrow> sub n (fo_folders f)
         | Some T \<Rightarrow> (case sub n (fo_folders f) of None \<Rightarrow> None | Some r \<Rightarrow> h T r))
    \<and> distinct (map fo_name (fold (\<lambda>T. in_folder (h T) T) ds (fo_folders f)))"
    by (rule fold_in_folder [OF _ d assms(2)]) (rule h)
  show "distinct (map fo_name (fo_folders (folder_subtract eq f g)))"
    unfolding r using s by blast
  show "sub n (fo_folders (folder_subtract eq f g)) = (case sub n (fo_folders g) of
        None \<Rightarrow> sub n (fo_folders f)
      | Some G \<Rightarrow> (case sub n (fo_folders f) of None \<Rightarrow> None | Some F \<Rightarrow>
          if empty_folder (folder_subtract eq F G) then None else Some (folder_subtract eq F G)))"
    unfolding r s [THEN conjunct1] by (auto simp: g h_def split: option.splits)
qed (use fold_remove_first [OF assms(1)] in \<open>cases g, simp\<close>)+

lemma uniq_subtract: "uniq f \<Longrightarrow> uniq g \<Longrightarrow> uniq (folder_subtract eq f g)"
proof (induction g arbitrary: f)
  case (Folder m fs ds)
  let ?g = "Folder m fs ds" and ?r = "folder_subtract eq f (Folder m fs ds)"
  have d: "distinct (map f_name (fo_files f))" "distinct (map fo_name (fo_folders f))" "distinct (map fo_name (fo_folders ?g))"
    using Folder.prems by (auto simp: uniq_alt [of f])
  note l = subtract_level [OF d]
  have "uniq e" if e: "e \<in> set (fo_folders ?r)" for e
  proof -
    have "sub (fo_name e) (fo_folders ?r) = Some e" using e l(3) sub_Some by blast
    then consider "sub (fo_name e) (fo_folders f) = Some e"
      | F G where "sub (fo_name e) (fo_folders f) = Some F" "sub (fo_name e) ds = Some G"
          "e = folder_subtract eq F G"
      using l(4) [of "fo_name e"] by (auto split: option.splits if_splits)
    then show ?thesis
    proof cases
      case 1
      then show ?thesis by (rule uniq_sub [OF Folder.prems(1)])
    next
      case 2
      with Folder.IH [of G F] Folder.prems(2) sub_name [OF 2(2)] uniq_sub [OF Folder.prems(1) 2(1)]
      show ?thesis by simp
    qed
  qed
  with l(2,3) show ?case by (simp add: uniq_alt [of ?r])
qed

lemma entries_subtract:
  "uniq f \<Longrightarrow> uniq g \<Longrightarrow>
    entries (folder_subtract eq f g) = {(p, x) \<in> entries f. \<not> (\<exists>t. (p, t) \<in> entries g \<and> eq t x)}"
proof (induction g arbitrary: f)
  case (Folder m fs ds)
  let ?g = "Folder m fs ds" and ?r = "folder_subtract eq f (Folder m fs ds)"
  have d: "distinct (map f_name (fo_files f))" "distinct (map fo_name (fo_folders f))" "distinct (map fo_name (fo_folders ?g))"
    using Folder.prems by (auto simp: uniq_alt [of f])
  note l = subtract_level [OF d]
  have below: "below n ?r = {(p, x) \<in> below n f. \<not> (\<exists>t. (p, t) \<in> below n ?g \<and> eq t x)}" for n
  proof (cases "sub n ds")
    case None
    then show ?thesis using l(4) [of n] by (simp add: below_def del: folder_subtract.simps)
  next
    case G: (Some G)
    show ?thesis
    proof (cases "sub n (fo_folders f)")
      case None
      then show ?thesis using G l(4) [of n] by (simp add: below_def del: folder_subtract.simps)
    next
      case F: (Some F)
      have "entries (folder_subtract eq F G) = {(p, x) \<in> entries F. \<not> (\<exists>t. (p, t) \<in> entries G \<and> eq t x)}"
        using Folder.IH [of G F] uniq_sub [OF Folder.prems(1) F] Folder.prems(2) sub_name [OF G] by simp
      with F G l(4) [of n] entries_empty [of "folder_subtract eq F G"] show ?thesis
        by (auto simp: below_def simp del: folder_subtract.simps)
    qed
  qed
  have "(p, x) \<in> entries ?r \<longleftrightarrow> (p, x) \<in> entries f \<and> \<not> (\<exists>t. (p, t) \<in> entries ?g \<and> eq t x)" for p x
    using l(1) below entries_below [OF l(3)] entries_below [OF d(2)] entries_below [OF d(3)]
    by (cases p) (auto simp: entries_top simp del: folder_subtract.simps entries.simps)
  then show ?case by (auto simp del: folder_subtract.simps entries.simps)
qed

end

interpretation exact: comparison file_equals by unfold_locales simp

interpretation same_size: comparison file_ignore_time by unfold_locales (simp add: file_ignore_time_def)

interpretation by_name: comparison file_equals_name_only by unfold_locales (simp add: file_equals_name_only_def)

interpretation newer: comparison file_newer by unfold_locales (simp add: file_newer_def)

interpretation older: comparison file_older by unfold_locales (simp add: file_older_def)

lemma entries_minus: "uniq f \<Longrightarrow> uniq g \<Longrightarrow> entries (folder_subtract file_equals f g) = entries f - entries g"
  using exact.entries_subtract by auto

section \<open>Removing and adding one level\<close>

definition removes_dir :: "fileinfo set \<Rightarrow> cstring \<Rightarrow> bool" where
  "removes_dir X n \<longleftrightarrow> (\<exists>x \<in> X. f_is_folder x \<noteq> 0 \<and> f_name x = n)"

lemma removes_dir_simps [simp]:
  "removes_dir {} n = False"
  "removes_dir (insert x X) n \<longleftrightarrow> (f_is_folder x \<noteq> 0 \<and> f_name x = n) \<or> removes_dir X n"
  by (auto simp: removes_dir_def)

lemma set_remove_first_eq: "distinct xs \<Longrightarrow> set (remove_first ((=) t) xs) = set xs - {t} \<and> distinct (remove_first ((=) t) xs)"
  by (induction xs) auto

lemma find_eq: "find ((=) t) xs = (if t \<in> set xs then Some t else None)"
  by (induction xs) auto

lemma fold_remove_file:
  "distinct files \<Longrightarrow> distinct (map fo_name folders) \<Longrightarrow> fold remove_file ts (files, folders) = (files', folders') \<Longrightarrow>
     set files' = set files - set ts \<and> distinct files' \<and> distinct (map fo_name folders')
       \<and> (\<forall>n. sub n folders' = (if removes_dir (set files \<inter> set ts) n then None else sub n folders))"
proof (induction ts arbitrary: files folders)
  case Nil
  then show ?case by simp
next
  case (Cons t ts)
  show ?case
  proof (cases "t \<in> set files")
    case False
    then have "remove_file t (files, folders) = (files, folders)" by (simp add: remove_file_def find_eq)
    with Cons.IH [OF Cons.prems(1,2)] Cons.prems(3) False show ?thesis
      by (simp add: Int_insert_right)
  next
    case True
    let ?files = "remove_first ((=) t) files"
    let ?folders = "if f_is_folder t \<noteq> 0 then remove_first (\<lambda>d. fo_name d = f_name t) folders else folders"
    have 1: "set ?files = set files - {t}" "distinct ?files" using set_remove_first_eq [OF Cons.prems(1)] by simp_all
    have 2: "distinct (map fo_name ?folders)"
      using Cons.prems(2) by (simp add: distinct_map_remove_first)
    have 3: "sub n ?folders = (if f_is_folder t \<noteq> 0 \<and> f_name t = n then None else sub n folders)" for n
      using sub_remove [OF Cons.prems(2), of n "f_name t"] by auto
    have "(\<lambda>d. f_name t = fo_name d) = (\<lambda>d. fo_name d = f_name t)" by auto
    then have "remove_file t (files, folders) = (?files, ?folders)"
      using True by (simp add: remove_file_def find_eq)
    then have "fold remove_file ts (?files, ?folders) = (files', folders')" using Cons.prems(3) by simp
    note IH = Cons.IH [OF 1(2) 2 this, unfolded 1(1) 3]
    have 4: "set files \<inter> set (t # ts) = insert t ((set files - {t}) \<inter> set ts)" using True by auto
    have "set files - set (t # ts) = set files - {t} - set ts" by auto
    with IH show ?thesis unfolding 4 removes_dir_simps by auto
  qed
qed

lemma remove_level:
  assumes "distinct (fo_files f)" "distinct (map fo_name (fo_folders f))" "distinct (map fo_name (fo_folders g))"
  shows "set (fo_files (folder_remove f g)) = set (fo_files f) - set (fo_files g)"
    "distinct (fo_files (folder_remove f g))"
    "distinct (map fo_name (fo_folders (folder_remove f g)))"
    "sub n (fo_folders (folder_remove f g)) =
      (if removes_dir (set (fo_files f) \<inter> set (fo_files g)) n then None
       else case sub n (fo_folders g) of
         None \<Rightarrow> sub n (fo_folders f)
       | Some G \<Rightarrow> map_option (\<lambda>F. folder_remove F G) (sub n (fo_folders f)))"
proof -
  obtain m fs ds where g: "g = Folder m fs ds" by (cases g) auto
  obtain files folders where r: "fold remove_file fs (fo_files f, fo_folders f) = (files, folders)" by force
  note l = fold_remove_file [OF assms(1,2) r]
  define h where "h T r = Some (folder_remove r T)" for T r
  have h: "fo_name r' = fo_name r" if "h T r = Some r'" for T r r'
    using that by (auto simp: h_def)
  have d: "distinct (map fo_name ds)" "distinct (map fo_name folders)" using assms(3) g l by simp_all
  have e: "folder_remove f g = Folder (fo_name f) files (fold (\<lambda>T. in_folder (h T) T) ds folders)"
    unfolding g h_def by (simp add: r)
  have s: "sub n (fold (\<lambda>T. in_folder (h T) T) ds folders)
      = (case sub n ds of None \<Rightarrow> sub n folders
         | Some T \<Rightarrow> (case sub n folders of None \<Rightarrow> None | Some r \<Rightarrow> h T r))
    \<and> distinct (map fo_name (fold (\<lambda>T. in_folder (h T) T) ds folders))"
    by (rule fold_in_folder [OF _ d]) (rule h)
  show "set (fo_files (folder_remove f g)) = set (fo_files f) - set (fo_files g)"
    "distinct (fo_files (folder_remove f g))"
    "distinct (map fo_name (fo_folders (folder_remove f g)))"
    using l s by (simp_all add: e) (simp add: g)
  have "set fs = set (fo_files g)" by (simp add: g)
  then show "sub n (fo_folders (folder_remove f g)) =
      (if removes_dir (set (fo_files f) \<inter> set (fo_files g)) n then None
       else case sub n (fo_folders g) of
         None \<Rightarrow> sub n (fo_folders f)
       | Some G \<Rightarrow> map_option (\<lambda>F. folder_remove F G) (sub n (fo_folders f)))"
    using l s unfolding e by (auto simp: g h_def split: option.splits)
qed

lemma add_files:
  "distinct (map f_name fs) \<Longrightarrow> distinct files \<Longrightarrow> distinct (map fo_name folders) \<Longrightarrow>
    (\<And>a. a \<in> set fs \<Longrightarrow> f_is_folder a \<noteq> 0 \<Longrightarrow> sub (f_name a) ds \<noteq> None) \<Longrightarrow>
    (\<And>a. a \<in> set fs \<Longrightarrow> f_is_folder a \<noteq> 0 \<Longrightarrow> a \<in> set files \<longleftrightarrow> sub (f_name a) folders \<noteq> None) \<Longrightarrow>
    \<exists>files' folders'. foldE (add_file ds) fs (files, folders) = Inr (files', folders')
      \<and> set files' = set files \<union> set fs \<and> distinct files' \<and> distinct (map fo_name folders')
      \<and> (\<forall>n. sub n folders' = (if removes_dir (set fs - set files) n then Some (Folder n [] []) else sub n folders))"
proof (induction fs arbitrary: files folders)
  case Nil
  then show ?case by simp
next
  case (Cons a fs)
  have e: "find (\<lambda>d. f_name a = fo_name d) xs = sub (f_name a) xs" for xs
    by (simp add: sub_def eq_commute)
  show ?case
  proof (cases "a \<in> set files")
    case True
    have step: "add_file ds a (files, folders) = Inr (files, folders)"
    proof (cases "f_is_folder a = 0")
      case False
      have "sub (f_name a) ds \<noteq> None" "sub (f_name a) folders \<noteq> None"
        using Cons.prems(4) [of a] Cons.prems(5) [of a] True False by simp_all
      then have "(sub (f_name a) ds \<noteq> None) = True" "(sub (f_name a) folders \<noteq> None) = True" by simp_all
      with True False show ?thesis
        unfolding add_file_def file_equals_eq find_eq e Let_def prod.case by (simp only: assertE_True bindE.simps if_True simp_thms option.distinct)
    qed (use True in \<open>simp add: add_file_def find_eq\<close>)
    have d: "set (a # fs) - set files = set fs - set files" using True by auto
    have u: "set files \<union> set (a # fs) = set files \<union> set fs" using True by auto
    have "\<exists>files' folders'. foldE (add_file ds) fs (files, folders) = Inr (files', folders')
      \<and> set files' = set files \<union> set fs \<and> distinct files' \<and> distinct (map fo_name folders')
      \<and> (\<forall>n. sub n folders' = (if removes_dir (set fs - set files) n then Some (Folder n [] []) else sub n folders))"
      by (rule Cons.IH) (use Cons.prems in auto)
    with step show ?thesis unfolding d u by simp
  next
    case new: False
    let ?folders = "if f_is_folder a \<noteq> 0 then folders @ [Folder (f_name a) [] []] else folders"
    have none: "f_is_folder a \<noteq> 0 \<Longrightarrow> sub (f_name a) folders = None"
      using Cons.prems(5) [of a] new by auto
    have step: "add_file ds a (files, folders) = Inr (files @ [a], ?folders)"
    proof (cases "f_is_folder a = 0")
      case False
      have "sub (f_name a) ds \<noteq> None" using Cons.prems(4) [of a] False by simp
      then have "(sub (f_name a) ds \<noteq> None) = True" "(sub (f_name a) folders = None) = True" using none False by simp_all
      with new False show ?thesis
        unfolding add_file_def file_equals_eq find_eq e Let_def prod.case file_copy_id by (simp only: assertE_True bindE.simps if_True if_False simp_thms)
    qed (use new in \<open>simp add: add_file_def find_eq\<close>)
    have sub: "sub n ?folders = (if f_is_folder a \<noteq> 0 \<and> f_name a = n then Some (Folder n [] []) else sub n folders)" for n
      using none by (auto simp: sub_append split: option.splits)
    have df: "distinct (map fo_name ?folders)"
      using Cons.prems(3) none by (auto simp: sub_None)
    have both: "b \<in> set (files @ [a]) \<longleftrightarrow> sub (f_name b) ?folders \<noteq> None"
      if "b \<in> set fs" "f_is_folder b \<noteq> 0" for b
    proof -
      have "f_name b \<noteq> f_name a" using Cons.prems(1) that(1) by (auto simp: image_iff)
      with Cons.prems(5) [of b] that sub show ?thesis by auto
    qed
    have dn: "distinct (map f_name fs)" "distinct (files @ [a])" using Cons.prems(1,2) new by simp_all
    have "\<exists>files' folders'. foldE (add_file ds) fs (files @ [a], ?folders) = Inr (files', folders')
      \<and> set files' = set (files @ [a]) \<union> set fs \<and> distinct files' \<and> distinct (map fo_name folders')
      \<and> (\<forall>n. sub n folders' = (if removes_dir (set fs - set (files @ [a])) n then Some (Folder n [] []) else sub n ?folders))"
      by (rule Cons.IH [OF dn df Cons.prems(4) both]) simp_all
    then obtain files' folders' where
      r: "foldE (add_file ds) fs (files @ [a], ?folders) = Inr (files', folders')"
        "set files' = set (files @ [a]) \<union> set fs" "distinct files'" "distinct (map fo_name folders')"
        "\<forall>n. sub n folders' = (if removes_dir (set fs - set (files @ [a])) n then Some (Folder n [] []) else sub n ?folders)"
      by blast
    have "a \<notin> set fs" using Cons.prems(1) by auto
    then have d: "set fs - set (files @ [a]) = set fs - set files" by auto
    have e: "set (a # fs) - set files = insert a (set fs - set files)" using new by auto
    have "foldE (add_file ds) (a # fs) (files, folders) = Inr (files', folders')" using r(1) step by simp
    moreover have "set files' = set files \<union> set (a # fs)" using r(2) by auto
    moreover have "\<forall>n. sub n folders' = (if removes_dir (set (a # fs) - set files) n then Some (Folder n [] []) else sub n folders)"
      using r(5) unfolding d e removes_dir_simps sub by simp
    ultimately show ?thesis using r(3,4) by blast
  qed
qed

lemma fold_in_folderE:
  "distinct (map fo_name ds) \<Longrightarrow> distinct (map fo_name gs) \<Longrightarrow>
    (\<And>n T. sub n ds = Some T \<Longrightarrow> \<exists>r r'. sub n gs = Some r \<and> h T r = Inr r' \<and> fo_name r' = fo_name r) \<Longrightarrow>
    \<exists>gs'. foldE (\<lambda>T. in_folderE (h T) T) ds gs = Inr gs' \<and> distinct (map fo_name gs')
      \<and> (\<forall>n. sub n gs' = (case sub n ds of None \<Rightarrow> sub n gs
          | Some T \<Rightarrow> (case h T (the (sub n gs)) of Inl e \<Rightarrow> None | Inr r' \<Rightarrow> Some r')))"
proof (induction ds arbitrary: gs)
  case Nil
  then show ?case by simp
next
  case (Cons T ds)
  obtain r r' where r: "sub (fo_name T) gs = Some r" "h T r = Inr r'" "fo_name r' = fo_name r"
    using Cons.prems(3) [of "fo_name T" T] by auto
  then have n: "fo_name r' = fo_name T" using sub_name by metis
  let ?gs = "update_first (\<lambda>d. fo_name d = fo_name T) (\<lambda>_. r') gs"
  have "find (\<lambda>d. fo_name d = fo_name T) gs = Some r" using r(1) by (simp add: sub_def)
  then have step: "in_folderE (h T) T gs = Inr ?gs"
    using r(2) by (simp add: in_folderE_def folder_equals_name)
  have sub: "sub k ?gs = (if k = fo_name T then Some r' else sub k gs)" for k
    using sub_update [OF n, of k gs] r(1) by auto
  have fresh: "sub (fo_name T) ds = None" using Cons.prems(1) by (auto simp: sub_None)
  have "map fo_name ?gs = map fo_name gs" by (rule names_update) (simp add: n)
  then have "distinct (map fo_name ?gs)" using Cons.prems(2) by (rule ssubst)
  moreover have "\<exists>q q'. sub k ?gs = Some q \<and> h U q = Inr q' \<and> fo_name q' = fo_name q" if "sub k ds = Some U" for k U
    using Cons.prems(3) [of k U] that fresh sub by (cases "k = fo_name T") auto
  ultimately obtain gs' where "foldE (\<lambda>T. in_folderE (h T) T) ds ?gs = Inr gs'" "distinct (map fo_name gs')"
    "\<forall>k. sub k gs' = (case sub k ds of None \<Rightarrow> sub k ?gs
          | Some T \<Rightarrow> (case h T (the (sub k ?gs)) of Inl e \<Rightarrow> None | Inr r' \<Rightarrow> Some r'))"
    using Cons.IH [of ?gs] Cons.prems(1) by auto
  with step sub fresh r show ?case by (auto split: option.splits)
qed

lemma name_add: "folder_add f g = Inr r \<Longrightarrow> fo_name r = fo_name f"
  by (cases g) (auto simp: outcome_simps)

lemma add_level:
  assumes "distinct (map f_name (fo_files g))" "distinct (map fo_name (fo_folders g))"
    and "distinct (fo_files f)" "distinct (map fo_name (fo_folders f))"
    and dirs: "\<And>a. a \<in> set (fo_files g) \<Longrightarrow> f_is_folder a \<noteq> 0 \<Longrightarrow> sub (f_name a) (fo_folders g) \<noteq> None"
      "\<And>a. a \<in> set (fo_files g) \<Longrightarrow> f_is_folder a \<noteq> 0 \<Longrightarrow> a \<in> set (fo_files f) \<longleftrightarrow> sub (f_name a) (fo_folders f) \<noteq> None"
    and base: "\<And>n. base n = (if removes_dir (set (fo_files g) - set (fo_files f)) n then Some (Folder n [] []) else sub n (fo_folders f))"
    and step: "\<And>n G. sub n (fo_folders g) = Some G \<Longrightarrow> \<exists>F R. base n = Some F \<and> folder_add F G = Inr R"
  shows "\<exists>r. folder_add f g = Inr r \<and> fo_name r = fo_name f
    \<and> set (fo_files r) = set (fo_files f) \<union> set (fo_files g) \<and> distinct (fo_files r)
    \<and> distinct (map fo_name (fo_folders r))
    \<and> (\<forall>n. sub n (fo_folders r) = (case sub n (fo_folders g) of None \<Rightarrow> base n
        | Some G \<Rightarrow> (case folder_add (the (base n)) G of Inl e \<Rightarrow> None | Inr R \<Rightarrow> Some R)))"
proof -
  obtain m fs ds where g: "g = Folder m fs ds" by (cases g) auto
  have "\<exists>files' folders'. foldE (add_file ds) fs (fo_files f, fo_folders f) = Inr (files', folders')
      \<and> set files' = set (fo_files f) \<union> set fs \<and> distinct files' \<and> distinct (map fo_name folders')
      \<and> (\<forall>n. sub n folders' = (if removes_dir (set fs - set (fo_files f)) n then Some (Folder n [] []) else sub n (fo_folders f)))"
    by (rule add_files) (use assms(1,3,4) dirs in \<open>simp_all add: g\<close>)
  then obtain files folders where 1: "foldE (add_file ds) fs (fo_files f, fo_folders f) = Inr (files, folders)"
      "set files = set (fo_files f) \<union> set fs" "distinct files" "distinct (map fo_name folders)"
      "\<forall>n. sub n folders = base n"
    using base by (auto simp: g)
  define h where "h T r = folder_add r T" for T r
  have "\<exists>r r'. sub n folders = Some r \<and> h T r = Inr r' \<and> fo_name r' = fo_name r" if T: "sub n ds = Some T" for n T
  proof -
    obtain F R where "base n = Some F" "folder_add F T = Inr R" using step [of n T] T by (auto simp: g)
    with 1(5) name_add show ?thesis by (auto simp: h_def)
  qed
  moreover have "distinct (map fo_name ds)" using assms(2) g by simp
  ultimately obtain folders' where 2: "foldE (\<lambda>T. in_folderE (h T) T) ds folders = Inr folders'"
      "distinct (map fo_name folders')"
      "\<forall>n. sub n folders' = (case sub n ds of None \<Rightarrow> sub n folders
          | Some T \<Rightarrow> (case h T (the (sub n folders)) of Inl e \<Rightarrow> None | Inr r' \<Rightarrow> Some r'))"
    using fold_in_folderE [of ds folders h] 1(4) by blast
  have "folder_add f g = Inr (Folder (fo_name f) files folders')"
    using 1(1) 2(1) unfolding g h_def by simp
  moreover have "sub n folders' = (case sub n (fo_folders g) of None \<Rightarrow> base n
        | Some G \<Rightarrow> (case folder_add (the (base n)) G of Inl e \<Rightarrow> None | Inr R \<Rightarrow> Some R))" for n
    using 1(5) 2(3) by (simp only: h_def) (simp add: g)
  ultimately show ?thesis using 1(2,3) 2(2) by (simp add: g)
qed

lemma wf_alt: "wf_folder f \<longleftrightarrow> distinct (map f_name (fo_files f)) \<and> distinct (map fo_name (fo_folders f))
    \<and> (\<forall>x \<in> set (fo_files f). f_is_folder x \<noteq> 0 \<longrightarrow> x = dir_entry (f_name x) \<and> sub (f_name x) (fo_folders f) \<noteq> None)
    \<and> (\<forall>n d. sub n (fo_folders f) = Some d \<longrightarrow> dir_entry n \<in> set (fo_files f) \<and> wf_folder d)"
proof (cases f)
  case (Folder m fs ds)
  have "(\<forall>d \<in> set ds. dir_entry (fo_name d) \<in> set fs \<and> wf_folder d)
      \<longleftrightarrow> (\<forall>n d. sub n ds = Some d \<longrightarrow> dir_entry n \<in> set fs \<and> wf_folder d)"
    if "distinct (map fo_name ds)" using sub_Some [OF that] by auto
  then show ?thesis by (auto simp: Folder sub_None)
qed

lemma remove_empty: "empty_folder g \<Longrightarrow> folder_remove f g = f"
  by (cases g; cases f) (simp add: empty_folder_def)

lemma add_empty: "empty_folder g \<Longrightarrow> folder_add f g = Inr f"
  by (cases g; cases f) (simp add: empty_folder_def)

lemma subtract_empty: "empty_folder g \<Longrightarrow> folder_subtract file_equals f g = f"
  by (cases g; cases f) (simp add: empty_folder_def)

lemma subtract_from_empty: "folder_subtract file_equals (Folder n [] []) g = Folder n [] []"
proof -
  have "fold (\<lambda>t files. remove_first (P t) files) fs [] = []" for P :: "fileinfo \<Rightarrow> fileinfo \<Rightarrow> bool" and fs
    by (induction fs) auto
  moreover have "fold (\<lambda>T. in_folder (h T) T) ds [] = []" for h ds
    by (induction ds) (auto simp: in_folder_def)
  ultimately show ?thesis by (cases g) simp
qed

lemma distinct_subset: "set xs \<subseteq> set ys \<Longrightarrow> distinct xs \<Longrightarrow> distinct (map f ys) \<Longrightarrow> distinct (map f xs)"
  by (auto simp: distinct_map intro: inj_on_subset)

section \<open>Bringing one tree to another\<close>

lemma files_dir:
  assumes "wf_folder f"
  shows "removes_dir (set (fo_files f) - X) n \<longleftrightarrow> sub n (fo_folders f) \<noteq> None \<and> dir_entry n \<notin> X"
proof
  assume "removes_dir (set (fo_files f) - X) n"
  then obtain x where x: "x \<in> set (fo_files f)" "x \<notin> X" "f_is_folder x \<noteq> 0" "f_name x = n"
    by (auto simp: removes_dir_def)
  then have "x = dir_entry n" using wf_is_folder [OF assms x(1,3)] by simp
  with x wf_dir [OF assms, of n] show "sub n (fo_folders f) \<noteq> None \<and> dir_entry n \<notin> X" by simp
next
  assume "sub n (fo_folders f) \<noteq> None \<and> dir_entry n \<notin> X"
  then have "dir_entry n \<in> set (fo_files f) - X" using wf_dir [OF assms, of n] by simp
  then show "removes_dir (set (fo_files f) - X) n"
    unfolding removes_dir_def by (rule bexI [rotated]) simp
qed

text \<open>
  Two trees with the same entries; their queues may hold them in different orders, as those of the tracker
  and of a client do.
\<close>

definition alike :: "folder \<Rightarrow> folder \<Rightarrow> bool" where
  "alike f g \<longleftrightarrow> wf_folder f \<and> wf_folder g \<and> entries f = entries g"

lemma alike_refl: "wf_folder f \<Longrightarrow> alike f f"
  by (simp add: alike_def)

lemma alike_level:
  assumes "alike f g"
  shows "set (fo_files f) = set (fo_files g)" "sub n (fo_folders f) = None \<longleftrightarrow> sub n (fo_folders g) = None"
    "sub n (fo_folders f) = Some F \<Longrightarrow> sub n (fo_folders g) = Some G \<Longrightarrow> alike F G"
proof -
  have wf: "wf_folder f" "wf_folder g" and e: "entries f = entries g" using assms by (simp_all add: alike_def)
  have "x \<in> set (fo_files f) \<longleftrightarrow> x \<in> set (fo_files g)" for x
    using e entries_top [of x f] entries_top [of x g] by blast
  then show files: "set (fo_files f) = set (fo_files g)" by blast
  show "sub n (fo_folders f) = None \<longleftrightarrow> sub n (fo_folders g) = None"
    using wf_dir [OF wf(1), of n] wf_dir [OF wf(2), of n] unfolding files by blast
  show "alike F G" if s: "sub n (fo_folders f) = Some F" "sub n (fo_folders g) = Some G"
  proof -
    have d: "distinct (map fo_name (fo_folders f))" "distinct (map fo_name (fo_folders g))"
      using wf_distinct [OF wf(1)] wf_distinct [OF wf(2)] by simp_all
    have "x \<in> entries F \<longleftrightarrow> x \<in> entries G" for x
      using e entries_sub [OF d(1), of n "fst x" "snd x"] entries_sub [OF d(2), of n "fst x" "snd x"] s by simp
    then show ?thesis using wf_sub [OF wf(1) s(1)] wf_sub [OF wf(2) s(2)] by (auto simp: alike_def)
  qed
qed

text \<open>What \<open>folder_remove\<close> leaves of a tree like \<open>old\<close> when it removes what \<open>new\<close> does not have.\<close>

lemma kept_level:
  assumes like: "alike tree old" and new: "wf_folder new"
  defines "kept \<equiv> folder_remove tree (folder_subtract file_equals old new)"
  shows "set (fo_files kept) = set (fo_files old) \<inter> set (fo_files new)" "distinct (fo_files kept)"
    "distinct (map fo_name (fo_folders kept))"
    "sub n (fo_folders kept) = (case sub n (fo_folders old) of None \<Rightarrow> None | Some F \<Rightarrow>
       (case sub n (fo_folders new) of None \<Rightarrow> None | Some G \<Rightarrow>
          Some (folder_remove (the (sub n (fo_folders tree))) (folder_subtract file_equals F G))))"
proof -
  let ?D = "folder_subtract file_equals old new"
  have tree: "wf_folder tree" and old: "wf_folder old" using like by (simp_all add: alike_def)
  note same = alike_level [OF like]
  have t: "distinct (fo_files tree)" "distinct (map fo_name (fo_folders tree))" using wf_distinct [OF tree] by simp_all
  have d: "distinct (fo_files old)" "distinct (map fo_name (fo_folders old))" "distinct (map fo_name (fo_folders new))"
    using wf_distinct [OF old] wf_distinct [OF new] by simp_all
  have names: "distinct (map f_name (fo_files old))" "distinct (map f_name (fo_files new))"
    using wf_names [OF old] wf_names [OF new] by simp_all
  note D = exact.subtract_level [OF names(1) d(2,3)]
  have D1: "set (fo_files ?D) = set (fo_files old) - set (fo_files new)" using D(1) by auto
  note l = remove_level [OF t D(3)]
  show "set (fo_files kept) = set (fo_files old) \<inter> set (fo_files new)" "distinct (fo_files kept)"
    "distinct (map fo_name (fo_folders kept))"
    using l(1-3) D1 same(1) by (auto simp: kept_def)
  have "set (fo_files tree) \<inter> set (fo_files ?D) = set (fo_files old) - set (fo_files new)" using D1 same(1) by auto
  then have r: "removes_dir (set (fo_files tree) \<inter> set (fo_files ?D)) n
      \<longleftrightarrow> sub n (fo_folders old) \<noteq> None \<and> sub n (fo_folders new) = None"
    using files_dir [OF old] wf_dir [OF new] by simp
  show "sub n (fo_folders kept) = (case sub n (fo_folders old) of None \<Rightarrow> None | Some F \<Rightarrow>
       (case sub n (fo_folders new) of None \<Rightarrow> None | Some G \<Rightarrow>
          Some (folder_remove (the (sub n (fo_folders tree))) (folder_subtract file_equals F G))))"
    unfolding kept_def l(4) r D(4) using same(2) [of n] by (auto simp: remove_empty split: option.splits)
qed

definition brought :: "folder \<Rightarrow> folder \<Rightarrow> folder \<Rightarrow> folder \<Rightarrow> bool" where
  "brought tree old new r \<longleftrightarrow> folder_add (folder_remove tree (folder_subtract file_equals old new))
       (folder_subtract file_equals new old) = Inr r
     \<and> wf_folder r \<and> entries r = entries new"

text \<open>One level: what every sub-folder of \<open>new\<close> needs, and what follows for \<open>new\<close>.\<close>

lemma brought_level:
  assumes like: "alike tree old" and new: "wf_folder new"
    and IH: "\<And>n G T F. sub n (fo_folders new) = Some G \<Longrightarrow> alike T F \<Longrightarrow> \<exists>r. brought T F G r"
  shows "\<exists>r. brought tree old new r"
proof -
  let ?kept = "folder_remove tree (folder_subtract file_equals old new)"
  have old: "wf_folder old" using like by (simp add: alike_def)
  note same = alike_level [OF like]
  let ?A = "folder_subtract file_equals new old"
  have d: "distinct (fo_files new)" "distinct (map fo_name (fo_folders new))" "distinct (map fo_name (fo_folders old))"
    using wf_distinct [OF old] wf_distinct [OF new] by simp_all
  have names: "distinct (map f_name (fo_files old))" "distinct (map f_name (fo_files new))"
    using wf_names [OF old] wf_names [OF new] by simp_all
  note A' = exact.subtract_level [OF names(2) d(2,3)]
  have A: "set (fo_files ?A) = set (fo_files new) - set (fo_files old)" "distinct (fo_files ?A)"
    "distinct (map fo_name (fo_folders ?A))"
    "sub n (fo_folders ?A) = (case sub n (fo_folders old) of
        None \<Rightarrow> sub n (fo_folders new)
      | Some G \<Rightarrow> (case sub n (fo_folders new) of None \<Rightarrow> None | Some F \<Rightarrow>
          if empty_folder (folder_subtract file_equals F G) then None else Some (folder_subtract file_equals F G)))" for n
    using A'(1) distinct_mapI [OF A'(2)] A'(3) A'(4) [of n] by auto
  note kept = kept_level [OF like new]
  have A_names: "distinct (map f_name (fo_files ?A))" by (rule A'(2))
  have diff: "set (fo_files ?A) - set (fo_files ?kept) = set (fo_files new) - set (fo_files old)"
    unfolding A(1) kept(1) by auto
  define base where "base n = (if removes_dir (set (fo_files ?A) - set (fo_files ?kept)) n
      then Some (Folder n [] []) else sub n (fo_folders ?kept))" for n
  have base: "base n = (case sub n (fo_folders new) of None \<Rightarrow> None | Some G \<Rightarrow>
      (case sub n (fo_folders old) of None \<Rightarrow> Some (Folder n [] [])
       | Some F \<Rightarrow> Some (folder_remove (the (sub n (fo_folders tree))) (folder_subtract file_equals F G))))" for n
    unfolding base_def diff files_dir [OF new] wf_dir [OF old] kept(4) by (auto split: option.splits)
  have dir: "sub (f_name a) (fo_folders new) \<noteq> None \<and> sub (f_name a) (fo_folders old) = None"
    if "a \<in> set (fo_files ?A)" "f_is_folder a \<noteq> 0" for a
  proof -
    have a: "a \<in> set (fo_files new)" "a \<notin> set (fo_files old)" using that(1) A(1) by auto
    then have "a = dir_entry (f_name a)" using wf_is_folder [OF new] that(2) by blast
    with a wf_dir [OF new, of "f_name a"] wf_dir [OF old, of "f_name a"] show ?thesis by auto
  qed
  have brought_new: "\<exists>r. folder_add (Folder n [] []) G = Inr r \<and> wf_folder r \<and> entries r = entries G"
    if G: "sub n (fo_folders new) = Some G" for n G
  proof -
    have e: "empty_folder (Folder n [] [])" "wf_folder (Folder n [] [])" by (simp_all add: empty_folder_def)
    obtain r where "brought (Folder n [] []) (Folder n [] []) G r" using IH [OF G alike_refl [OF e(2)]] by blast
    moreover have "folder_subtract file_equals (Folder n [] []) G = Folder n [] []"
      by (rule subtract_from_empty)
    ultimately show ?thesis
      by (simp add: brought_def remove_empty subtract_empty empty_folder_def)
  qed
  have step: "\<exists>F R. base n = Some F \<and> folder_add F H = Inr R" if H: "sub n (fo_folders ?A) = Some H" for n H
  proof -
    obtain G where G: "sub n (fo_folders new) = Some G"
      using H A(4) [of n] by (cases "sub n (fo_folders new)") (auto split: option.splits)
    show ?thesis
    proof (cases "sub n (fo_folders old)")
      case None
      with H A(4) [of n] base [of n] G brought_new [OF G] show ?thesis by auto
    next
      case (Some F)
      with H A(4) [of n] G have "H = folder_subtract file_equals G F" by (simp split: if_splits)
      moreover obtain T where T: "sub n (fo_folders tree) = Some T" using same(2) [of n] Some by auto
      ultimately show ?thesis using Some G base [of n] IH [OF G same(3) [OF T Some]]
        by (auto simp: brought_def)
    qed
  qed
  have kept_names: "distinct (fo_files ?kept)" "distinct (map fo_name (fo_folders ?kept))"
    using kept(2,3) .
  have "\<exists>r. folder_add ?kept ?A = Inr r \<and> fo_name r = fo_name ?kept
    \<and> set (fo_files r) = set (fo_files ?kept) \<union> set (fo_files ?A) \<and> distinct (fo_files r)
    \<and> distinct (map fo_name (fo_folders r))
    \<and> (\<forall>n. sub n (fo_folders r) = (case sub n (fo_folders ?A) of None \<Rightarrow> base n
        | Some G \<Rightarrow> (case folder_add (the (base n)) G of Inl e \<Rightarrow> None | Inr R \<Rightarrow> Some R)))"
  proof (rule add_level [OF A_names A(3) kept_names _ _ base_def step])
    fix a assume a: "a \<in> set (fo_files ?A)" "f_is_folder a \<noteq> 0"
    show "sub (f_name a) (fo_folders ?A) \<noteq> None"
      using dir [OF a] A(4) [of "f_name a"] by auto
    show "a \<in> set (fo_files ?kept) \<longleftrightarrow> sub (f_name a) (fo_folders ?kept) \<noteq> None"
      using dir [OF a] kept(1) kept(4) [of "f_name a"] a(1) A(1) by auto
  qed
  then obtain r where r: "folder_add ?kept ?A = Inr r"
      "set (fo_files r) = set (fo_files ?kept) \<union> set (fo_files ?A)" "distinct (fo_files r)"
      "distinct (map fo_name (fo_folders r))"
      "\<And>n. sub n (fo_folders r) = (case sub n (fo_folders ?A) of None \<Rightarrow> base n
        | Some G \<Rightarrow> (case folder_add (the (base n)) G of Inl e \<Rightarrow> None | Inr R \<Rightarrow> Some R))"
    by blast
  have files: "set (fo_files r) = set (fo_files new)" unfolding r(2) A(1) kept(1) by auto
  have none: "sub n (fo_folders r) = None" if "sub n (fo_folders new) = None" for n
    using that r(5) [of n] A(4) [of n] base [of n] by (auto split: option.splits)
  have some: "\<exists>R. sub n (fo_folders r) = Some R \<and> wf_folder R \<and> entries R = entries G"
    if G: "sub n (fo_folders new) = Some G" for n G
  proof (cases "sub n (fo_folders old)")
    case None
    with r(5) [of n] A(4) [of n] base [of n] G brought_new [OF G] show ?thesis by auto
  next
    case (Some F)
    obtain T where T: "sub n (fo_folders tree) = Some T" using same(2) [of n] Some by auto
    obtain R where R: "brought T F G R" using IH [OF G same(3) [OF T Some]] by blast
    show ?thesis
    proof (cases "empty_folder (folder_subtract file_equals G F)")
      case True
      with R have "R = folder_remove T (folder_subtract file_equals F G)"
        by (simp add: brought_def add_empty)
      with True Some G R T r(5) [of n] A(4) [of n] base [of n] show ?thesis by (simp add: brought_def)
    next
      case False
      with Some G R T r(5) [of n] A(4) [of n] base [of n] show ?thesis by (simp add: brought_def)
    qed
  qed
  have "wf_folder r"
  proof (subst wf_alt, intro conjI allI ballI impI)
    show "distinct (map f_name (fo_files r))"
      using distinct_subset [OF _ r(3), of "fo_files new" f_name] files wf_names [OF new] by simp
    show "distinct (map fo_name (fo_folders r))" by (rule r(4))
  next
    fix x assume x: "x \<in> set (fo_files r)" "f_is_folder x \<noteq> 0"
    then have e: "x = dir_entry (f_name x)" using wf_is_folder [OF new] files by blast
    then show "x = dir_entry (f_name x)" .
    have "sub (f_name x) (fo_folders new) \<noteq> None" using e x(1) files wf_dir [OF new, of "f_name x"] by simp
    then show "sub (f_name x) (fo_folders r) \<noteq> None" using some by fastforce
  next
    fix n R assume R: "sub n (fo_folders r) = Some R"
    then obtain G where G: "sub n (fo_folders new) = Some G" using none [of n] by (cases "sub n (fo_folders new)") auto
    then show "dir_entry n \<in> set (fo_files r)" using files wf_dir [OF new, of n] by simp
    show "wf_folder R" using some [OF G] R by simp
  qed
  moreover have "entries r = entries new"
  proof (rule entries_eqI [OF r(4) d(2) files])
    fix n
    show "below n r = below n new"
    proof (cases "sub n (fo_folders new)")
      case None
      then show ?thesis by (simp add: below_def none)
    next
      case (Some G)
      obtain R where "sub n (fo_folders r) = Some R" "entries R = entries G" using some [OF Some] by blast
      with Some show ?thesis by (simp only: below_def option.case)
    qed
  qed
  ultimately show ?thesis using r(1) by (auto simp: brought_def)
qed

lemma brought: "alike tree old \<Longrightarrow> wf_folder new \<Longrightarrow> \<exists>r. brought tree old new r"
proof (induction new arbitrary: tree old)
  case (Folder m fs ds)
  show ?case
  proof (rule brought_level [OF Folder.prems])
    fix n G T F assume G: "sub n (fo_folders (Folder m fs ds)) = Some G" and F: "alike T F"
    then have "G \<in> set ds" using sub_name by simp
    moreover have "wf_folder G" using wf_sub [OF Folder.prems(2) G] .
    ultimately show "\<exists>r. brought T F G r" by (rule Folder.IH [OF _ F])
  qed
qed

lemma subset_empty:
  "wf_folder f \<Longrightarrow> wf_folder g \<Longrightarrow> entries f \<subseteq> entries g \<Longrightarrow> empty_folder (folder_subtract file_equals f g)"
proof (induction g arbitrary: f)
  case (Folder m fs ds)
  let ?g = "Folder m fs ds"
  have u: "distinct (map f_name (fo_files f))" "distinct (map fo_name (fo_folders f))" "distinct (map fo_name (fo_folders ?g))"
    using wf_names [OF Folder.prems(1)] wf_names [OF Folder.prems(2)] by simp_all
  note l = exact.subtract_level [OF u]
  have top: "set (fo_files f) \<subseteq> set (fo_files ?g)"
    using Folder.prems(3) entries_top [of _ f] entries_top [of _ ?g] by blast
  have "set (fo_files (folder_subtract file_equals f ?g)) = {}"
    unfolding l(1) using top by auto
  then have "fo_files (folder_subtract file_equals f ?g) = []" by (simp only: set_empty)
  moreover have "sub n (fo_folders (folder_subtract file_equals f ?g)) = None" for n
  proof (cases "sub n (fo_folders f)")
    case None
    with l(4) [of n] show ?thesis by (auto split: option.splits)
  next
    case F: (Some F)
    then have "dir_entry n \<in> set (fo_files ?g)" using wf_dir [OF Folder.prems(1), of n] top by auto
    then obtain G where G: "sub n (fo_folders ?g) = Some G" using wf_dir [OF Folder.prems(2), of n] by auto
    have "entries F \<subseteq> entries G"
    proof
      fix e assume e: "e \<in> entries F"
      then have "(n # fst e, snd e) \<in> entries f" using entries_sub [OF u(2)] F by auto
      then have "(n # fst e, snd e) \<in> entries ?g" using Folder.prems(3) by blast
      then show "e \<in> entries G" using entries_sub [OF u(3)] G by auto
    qed
    moreover have "G \<in> set ds" using sub_name [OF G] by simp
    ultimately have "empty_folder (folder_subtract file_equals F G)"
      using Folder.IH wf_sub [OF Folder.prems(1) F] wf_sub [OF Folder.prems(2) G] by simp
    with F G l(4) [of n] show ?thesis by simp
  qed
  then have "fo_folders (folder_subtract file_equals f ?g) = []" using all_sub_None by blast
  ultimately show ?case by (simp add: empty_folder_def)
qed

lemma empty_difference:
  "wf_folder f \<Longrightarrow> wf_folder g \<Longrightarrow> empty_folder (folder_subtract file_equals f g) \<longleftrightarrow> entries f \<subseteq> entries g"
  using subset_empty entries_empty entries_minus [OF wf_uniq wf_uniq] by (metis Diff_eq_empty_iff)

text \<open>Two small trees: \<open>a\<close> is changed, the directory \<open>d\<close> with its file goes, \<open>e\<close> comes.\<close>

definition old_tree :: folder where
  "old_tree = Folder [] [file_new 1 10 [97], dir_entry [100]] [Folder [100] [file_new 2 20 [98]] []]"

definition new_tree :: folder where
  "new_tree = Folder [] [file_new 3 30 [97], dir_entry [101]] [Folder [101] [file_new 2 20 [98]] []]"

lemma example_trees: "wf_folder old_tree" "wf_folder new_tree"
  by (simp_all add: old_tree_def new_tree_def file_new_def dir_entry_def)

lemma equals_entries:
  assumes "wf_folder (fs_root fs0)" "wf_folder (fs_root fs1)"
  shows "filesystem_equals fs0 fs1 \<longleftrightarrow> entries (fs_root fs0) = entries (fs_root fs1)"
  using empty_difference [OF assms] empty_difference [OF assms(2,1)]
  by (auto simp: filesystem_equals_def filesystem_diff_def filesystem_diff_helper_def filesystem_minus_equals_diff_def
      filesystem_is_empty_def empty_folder_def)

lemma diff_applied_alike:
  assumes "alike (fs_root tree) (fs_root old)" "wf_folder (fs_root new)"
    and "filesystem_diff old new = (additions, deletions)"
  shows "\<exists>r. filesystem_plus_equals (filesystem_minus_equals tree deletions) additions = Inr r
    \<and> fs_root_path r = fs_root_path tree \<and> wf_folder (fs_root r)
    \<and> entries (fs_root r) = entries (fs_root new) \<and> filesystem_equals r new"
proof -
  obtain t where t: "brought (fs_root tree) (fs_root old) (fs_root new) t" using brought [OF assms(1,2)] by blast
  have d: "fs_root additions = folder_subtract file_equals (fs_root new) (fs_root old)"
    "fs_root deletions = folder_subtract file_equals (fs_root old) (fs_root new)"
    using assms(3) by (auto simp: filesystem_diff_def filesystem_diff_helper_def filesystem_minus_equals_diff_def Let_def)
  have "filesystem_plus_equals (filesystem_minus_equals tree deletions) additions = Inr (tree\<lparr>fs_root := t\<rparr>)"
    using t by (simp add: filesystem_plus_equals_def filesystem_minus_equals_def d brought_def)
  moreover have "filesystem_equals (tree\<lparr>fs_root := t\<rparr>) new"
    using t equals_entries [OF _ assms(2), of "tree\<lparr>fs_root := t\<rparr>"] by (simp add: brought_def)
  ultimately show ?thesis using t by (auto simp: brought_def)
qed

lemmas diff_applied = diff_applied_alike [OF alike_refl]

text \<open>C3. Applying the difference of two file systems to the older one, or to any tree with its entries, yields
  the newer one: when the deletions that \<open>filesystem_diff\<close> returns are removed with \<open>filesystem_minus_equals\<close>
  and the additions are then added with \<open>filesystem_plus_equals\<close>, no assertion of \<open>folder_add\<close> fails, the
  result is again a well-formed tree with exactly the files and folders of the newer file system, and
  \<open>filesystem_equals\<close> says so. This is what the tracker does with an update of a client, and a client with
  one of the tracker, each on its own tree, whose queues may be in another order.\<close>

theorem filesystem_sync:
  assumes "wf_folder (fs_root tree)" "wf_folder (fs_root old)" "entries (fs_root tree) = entries (fs_root old)"
    and "wf_folder (fs_root new)" "filesystem_diff old new = (additions, deletions)"
  shows "\<exists>r. filesystem_plus_equals (filesystem_minus_equals tree deletions) additions = Inr r
    \<and> fs_root_path r = fs_root_path tree \<and> wf_folder (fs_root r)
    \<and> entries (fs_root r) = entries (fs_root new) \<and> filesystem_equals r new"
  using assms(1-3) by (intro diff_applied_alike [OF _ assms(4,5)]) (simp add: alike_def)

text \<open>The tree to which the difference is applied holds the entries of \<open>old_tree\<close> in the other order.\<close>

theorem filesystem_sync_witness:
  "\<exists>r. filesystem_plus_equals (filesystem_minus_equals
      \<lparr>fs_root_path = Some [47], fs_root = Folder [] [dir_entry [100], file_new 1 10 [97]] [Folder [100] [file_new 2 20 [98]] []]\<rparr>
      (snd (filesystem_diff \<lparr>fs_root_path = Some [47], fs_root = old_tree\<rparr> \<lparr>fs_root_path = None, fs_root = new_tree\<rparr>)))
      (fst (filesystem_diff \<lparr>fs_root_path = Some [47], fs_root = old_tree\<rparr> \<lparr>fs_root_path = None, fs_root = new_tree\<rparr>))
    = Inr r \<and> entries (fs_root r) = entries new_tree"
proof -
  let ?tree = "\<lparr>fs_root_path = Some [47], fs_root = Folder [] [dir_entry [100], file_new 1 10 [97]] [Folder [100] [file_new 2 20 [98]] []]\<rparr>"
  have "wf_folder (fs_root ?tree)" by (simp add: file_new_def dir_entry_def)
  moreover have "entries (fs_root ?tree) = entries (fs_root \<lparr>fs_root_path = Some [47], fs_root = old_tree\<rparr>)"
    by (simp add: old_tree_def insert_commute)
  ultimately show ?thesis
    using filesystem_sync [of ?tree "\<lparr>fs_root_path = Some [47], fs_root = old_tree\<rparr>"
        "\<lparr>fs_root_path = None, fs_root = new_tree\<rparr>"] example_trees
    by (metis filesystem.select_convs(2) prod.collapse)
qed

text \<open>C20. \<open>filesystem_equals\<close> holds of two well-formed file systems exactly when they have the same
  entries: the same files with the same sizes and times in the same folders, whatever order the queues
  hold them in.\<close>

theorem filesystem_equals_same_entries:
  assumes "wf_folder (fs_root fs0)" "wf_folder (fs_root fs1)"
  shows "filesystem_equals fs0 fs1 \<longleftrightarrow> entries (fs_root fs0) = entries (fs_root fs1)"
  by (rule equals_entries [OF assms])

theorem filesystem_equals_same_entries_witness:
  "\<not> filesystem_equals \<lparr>fs_root_path = None, fs_root = old_tree\<rparr> \<lparr>fs_root_path = None, fs_root = new_tree\<rparr>"
proof -
  have "([], file_new 1 10 [97]) \<in> entries old_tree - entries new_tree"
    by (simp add: old_tree_def new_tree_def file_new_def dir_entry_def)
  then show ?thesis
    using filesystem_equals_same_entries [of "\<lparr>fs_root_path = None, fs_root = old_tree\<rparr>"
        "\<lparr>fs_root_path = None, fs_root = new_tree\<rparr>"] example_trees by auto
qed

lemma entries_name_unique:
  "uniq f \<Longrightarrow> (p, x) \<in> entries f \<Longrightarrow> (p, y) \<in> entries f \<Longrightarrow> f_name x = f_name y \<Longrightarrow> x = y"
proof (induction p arbitrary: f)
  case Nil
  then have "distinct (map f_name (fo_files f))" "x \<in> set (fo_files f)" "y \<in> set (fo_files f)"
    by (simp_all only: entries_top) (cases f, simp)
  with Nil.prems(4) show ?case by (auto simp: distinct_map dest: inj_onD)
next
  case (Cons n p)
  have d: "distinct (map fo_name (fo_folders f))" using Cons.prems(1) by (cases f) simp
  obtain d where d: "sub n (fo_folders f) = Some d" "(p, x) \<in> entries d" "(p, y) \<in> entries d"
    using Cons.prems(2,3) unfolding entries_sub [OF d] by auto
  show ?case by (rule Cons.IH [OF uniq_sub [OF Cons.prems(1) d(1)] d(2,3) Cons.prems(4)])
qed

lemma without_cong: "(\<And>p x. (p, x) \<in> S \<Longrightarrow> P p x \<longleftrightarrow> Q p x) \<Longrightarrow> {(p, x) \<in> S. \<not> P p x} = {(p, x) \<in> S. \<not> Q p x}"
  by auto

lemma diff_entries:
  assumes "uniq (fs_root old)" "uniq (fs_root new)" and "filesystem_diff old new = (additions, deletions)"
  shows "entries (fs_root additions) = entries (fs_root new) - entries (fs_root old)
    \<and> entries (fs_root deletions) = entries (fs_root old) - entries (fs_root new)
    \<and> uniq (fs_root additions) \<and> uniq (fs_root deletions)"
proof -
  have "fs_root additions = folder_subtract file_equals (fs_root new) (fs_root old)"
    "fs_root deletions = folder_subtract file_equals (fs_root old) (fs_root new)"
    using assms(3) by (auto simp: filesystem_diff_def filesystem_diff_helper_def filesystem_minus_equals_diff_def Let_def)
  then show ?thesis
    using entries_minus [OF assms(1,2)] entries_minus [OF assms(2,1)]
      exact.uniq_subtract [OF assms(1,2)] exact.uniq_subtract [OF assms(2,1)] by simp
qed

text \<open>\<open>filesystem_diff\<close> returns the entries the new file system has and the old has not as
  additions, and those the old has and the new has not as deletions; a file that changed its size or
  time is in both. This holds of all trees without two files or two folders of one name in a folder, the
  partial trees earlier differences left included.\<close>

theorem filesystem_diff_entries:
  assumes "uniq (fs_root old)" "uniq (fs_root new)" and "filesystem_diff old new = (additions, deletions)"
  shows "entries (fs_root additions) = entries (fs_root new) - entries (fs_root old)
    \<and> entries (fs_root deletions) = entries (fs_root old) - entries (fs_root new)
    \<and> uniq (fs_root additions) \<and> uniq (fs_root deletions)"
  by (rule diff_entries [OF assms])

theorem filesystem_diff_entries_witness:
  "([], file_new 3 30 [97]) \<in> entries (fs_root (fst (filesystem_diff
      \<lparr>fs_root_path = None, fs_root = old_tree\<rparr> \<lparr>fs_root_path = None, fs_root = new_tree\<rparr>)))"
proof -
  have "([], file_new 3 30 [97]) \<in> entries new_tree - entries old_tree"
    by (simp add: old_tree_def new_tree_def file_new_def dir_entry_def)
  then show ?thesis
    using filesystem_diff_entries [of "\<lparr>fs_root_path = None, fs_root = old_tree\<rparr>"
        "\<lparr>fs_root_path = None, fs_root = new_tree\<rparr>"] example_trees wf_uniq
    by (metis filesystem.select_convs(2) prod.collapse)
qed



section \<open>Reading a directory\<close>

definition entry_of :: "cstring \<times> disk \<Rightarrow> fileinfo" where
  "entry_of e = (case snd e of DiskFile sz mtime \<Rightarrow> file_new sz mtime (fst e) | DiskDir c \<Rightarrow> dir_entry (fst e))"

function disk_entries :: "disk \<Rightarrow> (cstring list \<times> fileinfo) set" where
  "disk_entries (DiskFile sz mtime) = {}"
| "disk_entries (DiskDir contents) = (\<Union>e \<in> set contents. if hidden (fst e) then {}
     else insert ([], entry_of e) ((\<lambda>(p, x). (fst e # p, x)) ` disk_entries (snd e)))"
  by pat_completeness auto
termination
  by (relation "measure size") (auto dest!: size_disk_entry)

function wf_disk :: "disk \<Rightarrow> bool" where
  "wf_disk (DiskFile sz mtime) = True"
| "wf_disk (DiskDir contents) \<longleftrightarrow> distinct (map fst contents) \<and> (\<forall>e \<in> set contents. wf_disk (snd e))"
  by pat_completeness auto
termination
  by (relation "measure size") (auto dest!: size_disk_entry)

lemma entry_of_name [simp]: "f_name (entry_of e) = fst e"
  by (simp add: entry_of_def file_new_def split: disk.splits)

lemma disk_entries_snoc: "disk_entries (DiskDir (es @ [e])) = disk_entries (DiskDir es) \<union>
    (if hidden (fst e) then {} else insert ([], entry_of e) ((\<lambda>(p, x). (fst e # p, x)) ` disk_entries (snd e)))"
  by (simp add: Un_commute)

lemma top_disk: "([], x) \<in> disk_entries (DiskDir es) \<Longrightarrow> f_name x \<in> fst ` set es"
  by (force split: if_splits)

lemma wf_add_file: "wf_folder f \<Longrightarrow> n \<notin> f_name ` set (fo_files f) \<Longrightarrow>
    wf_folder (Folder (fo_name f) (fo_files f @ [file_new s t n]) (fo_folders f))
    \<and> entries (Folder (fo_name f) (fo_files f @ [file_new s t n]) (fo_folders f)) = entries f \<union> {([], file_new s t n)}"
  by (cases f) (auto simp: file_new_def)

lemma wf_add_dir: "wf_folder f \<Longrightarrow> wf_folder c \<Longrightarrow> fo_name c \<notin> f_name ` set (fo_files f) \<Longrightarrow>
    wf_folder (Folder (fo_name f) (fo_files f @ [dir_entry (fo_name c)]) (fo_folders f @ [c]))
    \<and> entries (Folder (fo_name f) (fo_files f @ [dir_entry (fo_name c)]) (fo_folders f @ [c]))
      = entries f \<union> insert ([], dir_entry (fo_name c)) ((\<lambda>(p, x). (fo_name c # p, x)) ` entries c)"
proof (cases f)
  case (Folder m fs ds)
  assume a: "wf_folder f" "wf_folder c" "fo_name c \<notin> f_name ` set (fo_files f)"
  have "fo_name c \<notin> fo_name ` set ds"
  proof
    assume "fo_name c \<in> fo_name ` set ds"
    then have "dir_entry (fo_name c) \<in> set fs" using a(1) by (auto simp: Folder)
    then have "f_name (dir_entry (fo_name c)) \<in> f_name ` set fs" by (rule imageI)
    with a(3) show False by (simp add: Folder)
  qed
  with a show ?thesis by (auto simp: Folder)
qed

lemma folder_new_wf:
  "wf_disk (DiskDir contents) \<Longrightarrow> \<exists>f. folder_new (DiskDir contents) n = Inr f \<and> fo_name f = n
    \<and> wf_folder f \<and> entries f = disk_entries (DiskDir contents)"
proof (induction "size (DiskDir contents)" arbitrary: contents n rule: less_induct)
  case less
  define step where "step = (\<lambda>dir folder. if hidden (fst dir) then Inr folder
       else case snd dir of
         DiskDir c \<Rightarrow> bindE (folder_new (snd dir) (fst dir)) (\<lambda>child.
           Inr (Folder (fo_name folder) (fo_files folder @ [dir_entry (fo_name child)]) (fo_folders folder @ [child])))
       | DiskFile s t \<Rightarrow>
           Inr (Folder (fo_name folder) (fo_files folder @ [file_new s t (fst dir)]) (fo_folders folder)))"
  have "set es \<subseteq> set contents \<Longrightarrow> distinct (map fst es) \<Longrightarrow> \<exists>f. foldE step es (Folder n [] []) = Inr f \<and> fo_name f = n
      \<and> wf_folder f \<and> entries f = disk_entries (DiskDir es)" for es
  proof (induction es rule: rev_induct)
    case Nil
    then show ?case by simp
  next
    case (snoc e es)
    then obtain f where f: "foldE step es (Folder n [] []) = Inr f" "fo_name f = n" "wf_folder f"
      "entries f = disk_entries (DiskDir es)" by auto
    have fresh: "fst e \<notin> f_name ` set (fo_files f)"
    proof
      assume "fst e \<in> f_name ` set (fo_files f)"
      then obtain x where x: "([], x) \<in> entries f" "f_name x = fst e" by (auto simp: entries_top)
      then have "fst e \<in> fst ` set es" using top_disk [of x es] f(4) by simp
      with snoc.prems(2) show False by simp
    qed
    have run: "foldE step (es @ [e]) (Folder n [] []) = step e f" by (simp add: foldE_append f(1))
    show ?case
    proof (cases "hidden (fst e)")
      case True
      then show ?thesis unfolding run disk_entries_snoc using f by (simp add: step_def)
    next
      case False
      show ?thesis
      proof (cases "snd e")
        case (DiskFile s t)
        with False have "step e f = Inr (Folder (fo_name f) (fo_files f @ [file_new s t (fst e)]) (fo_folders f))"
          "entry_of e = file_new s t (fst e)"
          by (simp_all add: step_def entry_of_def)
        with wf_add_file [OF f(3) fresh, of s t] False f(2,4) DiskFile show ?thesis
          unfolding run disk_entries_snoc by simp
      next
        case (DiskDir c)
        have e: "e \<in> set contents" using snoc.prems(1) by simp
        have "size (DiskDir c) < size (DiskDir contents)" using size_disk_entry [OF e] DiskDir by simp
        moreover have "wf_disk (DiskDir c)" using less.prems e DiskDir by (metis wf_disk.simps(2))
        ultimately obtain child where child: "folder_new (DiskDir c) (fst e) = Inr child" "fo_name child = fst e"
          "wf_folder child" "entries child = disk_entries (DiskDir c)" using less.hyps by blast
        have "step e f = Inr (Folder (fo_name f) (fo_files f @ [dir_entry (fst e)]) (fo_folders f @ [child]))"
          using False child(1,2) by (simp add: step_def DiskDir del: folder_new.simps)
        moreover have "entry_of e = dir_entry (fst e)" by (simp add: entry_of_def DiskDir)
        ultimately show ?thesis
          unfolding run disk_entries_snoc using wf_add_dir [OF f(3) child(3)] fresh False f(2,4) child(2,4) DiskDir
          by (simp del: disk_entries.simps)
      qed
    qed
  qed
  from this [of contents] less.prems show ?case
    by (simp add: step_def)
qed

section \<open>Removing a path\<close>

definition has_path :: "cstring list \<Rightarrow> folder \<Rightarrow> bool" where
  "has_path cs f \<longleftrightarrow> (\<exists>x. (butlast cs, x) \<in> entries f \<and> f_name x = last cs)"

text \<open>The entries that are not at the path and not below it.\<close>

definition off_path :: "cstring list \<Rightarrow> folder \<Rightarrow> (cstring list \<times> fileinfo) set" where
  "off_path cs f = {(p, x) \<in> entries f. \<not> (p = butlast cs \<and> f_name x = last cs) \<and> take (length cs) p \<noteq> cs}"

definition removed :: "cstring list \<Rightarrow> folder \<Rightarrow> folder outcome \<Rightarrow> bool" where
  "removed cs f res \<longleftrightarrow> (if has_path cs f
     then \<exists>r. res = Inr r \<and> fo_name r = fo_name f \<and> wf_folder r \<and> entries r = off_path cs f
     else res = Inl AssertFail)"

lemma find_name: "distinct (map f_name fs) \<Longrightarrow> find (\<lambda>x. f_name x = n) fs = Some x \<longleftrightarrow> x \<in> set fs \<and> f_name x = n"
  by (induction fs) auto

lemma find_sub: "find (\<lambda>d. fo_name d = n) ds = sub n ds"
  by (simp add: sub_def)

lemma remove_named:
  fixes fs :: "fileinfo list"
  assumes "distinct (map f_name fs)"
  shows "set (remove_first (\<lambda>x. f_name x = n) fs) = {x \<in> set fs. f_name x \<noteq> n}
    \<and> distinct (map f_name (remove_first (\<lambda>x. f_name x = n) fs))"
proof -
  have "(\<lambda>x. f_name x = n) = file_equals_name_only (dir_entry n)"
    by (auto simp: file_equals_name_only_def)
  then show ?thesis
    using by_name.drop_first [OF assms, of "dir_entry n"] by (auto simp: file_equals_name_only_def)
qed

lemma wf_named_dir:
  assumes "wf_folder f" "x \<in> set (fo_files f)"
  shows "f_is_folder x \<noteq> 0 \<longleftrightarrow> sub (f_name x) (fo_folders f) \<noteq> None"
proof
  assume "f_is_folder x \<noteq> 0"
  then have "x = dir_entry (f_name x)" by (rule wf_is_folder [OF assms])
  with assms(2) wf_dir [OF assms(1), of "f_name x"] show "sub (f_name x) (fo_folders f) \<noteq> None" by simp
next
  assume "sub (f_name x) (fo_folders f) \<noteq> None"
  then have "dir_entry (f_name x) \<in> set (fo_files f)" using wf_dir [OF assms(1)] by blast
  with assms(2) have "x = dir_entry (f_name x)"
    using wf_names [OF assms(1)] by (simp add: distinct_map inj_on_def)
  then show "f_is_folder x \<noteq> 0" by (metis dir_entry_simps(2) zero_neq_one)
qed

lemma removed_last:
  assumes wf: "wf_folder f"
  shows "removed [c] f (folder_remove_file_at_path [c] f)"
proof (cases "find (\<lambda>x. f_name x = c) (fo_files f)")
  case None
  then have "\<not> has_path [c] f" by (auto simp: has_path_def entries_top find_None_all)
  with None show ?thesis by (simp add: removed_def)
next
  case (Some x)
  have d: "distinct (map f_name (fo_files f))" "distinct (map fo_name (fo_folders f))" using wf_names [OF wf] by simp_all
  have x: "x \<in> set (fo_files f)" "f_name x = c" using Some find_name [OF d(1)] by auto
  then have h: "has_path [c] f" by (auto simp: has_path_def entries_top)
  define fs where "fs = remove_first (\<lambda>x. f_name x = c) (fo_files f)"
  define ds where "ds = (if f_is_folder x \<noteq> 0 then remove_first (\<lambda>d. fo_name d = c) (fo_folders f) else fo_folders f)"
  have fs: "set fs = {x \<in> set (fo_files f). f_name x \<noteq> c}" "distinct (map f_name fs)"
    using remove_named [OF d(1)] by (simp_all add: fs_def)
  have ds: "distinct (map fo_name ds)" using distinct_map_remove_first [OF d(2)] d(2) by (simp add: ds_def)
  have sub: "sub n ds = (if n = c then None else sub n (fo_folders f))" for n
    using sub_remove [OF d(2), of n c] wf_named_dir [OF wf x(1)] x(2) by (auto simp: ds_def)
  have r: "folder_remove_file_at_path [c] f = Inr (Folder (fo_name f) fs ds)"
    using Some wf_named_dir [OF wf x(1)] x(2) by (auto simp: fs_def ds_def find_sub)
  have "wf_folder (Folder (fo_name f) fs ds)"
    unfolding wf_alt [of "Folder (fo_name f) fs ds"]
    using fs ds sub wf_is_folder [OF wf] wf_dir [OF wf] wf_sub [OF wf] wf_named_dir [OF wf]
    by (auto split: if_splits)
  moreover have "entries (Folder (fo_name f) fs ds) = off_path [c] f"
  proof -
    have "(p, y) \<in> entries (Folder (fo_name f) fs ds) \<longleftrightarrow> (p, y) \<in> off_path [c] f" for p y
    proof (cases p)
      case Nil
      then show ?thesis using fs(1) by (simp add: off_path_def entries_top del: entries.simps)
    next
      case (Cons n q)
      then show ?thesis
        using entries_below [of f n q y] d(2) entries_below [of "Folder (fo_name f) fs ds" n q y] ds sub [of n]
        by (simp add: off_path_def below_def del: entries.simps split: if_splits)
    qed
    then show ?thesis by (auto simp del: entries.simps)
  qed
  ultimately show ?thesis using h r by (simp add: removed_def)
qed

lemma has_path_Cons:
  "distinct (map fo_name (fo_folders f)) \<Longrightarrow> cs \<noteq> [] \<Longrightarrow>
    has_path (c # cs) f \<longleftrightarrow> (\<exists>d. sub c (fo_folders f) = Some d \<and> has_path cs d)"
  by (auto simp: has_path_def entries_sub)

lemma removed_step:
  assumes wf: "wf_folder f" and cs: "cs \<noteq> []"
    and IH: "\<And>d. sub c (fo_folders f) = Some d \<Longrightarrow> removed cs d (folder_remove_file_at_path cs d)"
  shows "removed (c # cs) f (folder_remove_file_at_path (c # cs) f)"
proof (cases "sub c (fo_folders f)")
  case None
  have "distinct (map fo_name (fo_folders f))" using wf_names [OF wf] by simp
  with None cs show ?thesis
    using has_path_Cons [of f cs c] by (cases cs) (simp_all add: removed_def find_sub)
next
  case d: (Some d)
  have u: "distinct (map fo_name (fo_folders f))" using wf_names [OF wf] by simp
  have run: "folder_remove_file_at_path (c # cs) f = bindE (folder_remove_file_at_path cs d) (\<lambda>changed.
      Inr (Folder (fo_name f) (fo_files f) (update_first (\<lambda>d. fo_name d = c) (\<lambda>_. changed) (fo_folders f))))"
    using cs d by (cases cs) (simp_all add: find_sub)
  show ?thesis
  proof (cases "has_path cs d")
    case False
    then have "\<not> has_path (c # cs) f" using has_path_Cons [OF u cs] d by auto
    moreover have "folder_remove_file_at_path cs d = Inl AssertFail" using IH [OF d] False by (simp add: removed_def)
    ultimately show ?thesis by (simp add: removed_def run)
  next
    case True
    then have h: "has_path (c # cs) f" using has_path_Cons [OF u cs] d by auto
    obtain e where e: "folder_remove_file_at_path cs d = Inr e" "fo_name e = fo_name d" "wf_folder e" "entries e = off_path cs d"
      using IH [OF d] True by (auto simp: removed_def)
    have name: "fo_name e = c" using e(2) sub_name [OF d] by simp
    define ds where "ds = update_first (\<lambda>d. fo_name d = c) (\<lambda>_. e) (fo_folders f)"
    have sub: "sub n ds = (if n = c then Some e else sub n (fo_folders f))" for n
      using sub_update [OF name, of n] d by (auto simp: ds_def)
    have "map fo_name ds = map fo_name (fo_folders f)" unfolding ds_def by (rule names_update) (simp add: name)
    then have ds: "distinct (map fo_name ds)" using u by (rule ssubst)
    let ?r = "Folder (fo_name f) (fo_files f) ds"
    have "wf_folder ?r"
      unfolding wf_alt [of ?r]
      using wf_names [OF wf] ds sub wf_is_folder [OF wf] wf_dir [OF wf] wf_sub [OF wf] wf_named_dir [OF wf] e(3) d
      by (auto split: if_splits)
    moreover have "entries ?r = off_path (c # cs) f"
    proof -
      have "(p, y) \<in> entries ?r \<longleftrightarrow> (p, y) \<in> off_path (c # cs) f" for p y
      proof (cases p)
        case Nil
        then show ?thesis using cs by (simp add: off_path_def entries_top del: entries.simps)
      next
        case (Cons n q)
        then show ?thesis
          using entries_below [OF u, of n q y] entries_below [of ?r n q y] ds sub [of n] d e(4) cs
          by (auto simp: off_path_def below_def simp del: entries.simps)
      qed
      then show ?thesis by (auto simp del: entries.simps)
    qed
    ultimately show ?thesis using h e(1) by (simp add: removed_def run ds_def)
  qed
qed

lemma removed: "wf_folder f \<Longrightarrow> cs \<noteq> [] \<Longrightarrow> removed cs f (folder_remove_file_at_path cs f)"
proof (induction cs arbitrary: f)
  case Nil
  then show ?case by simp
next
  case (Cons c cs)
  show ?case
  proof (cases "cs = []")
    case True
    then show ?thesis using removed_last [OF Cons.prems(1)] by simp
  next
    case False
    show ?thesis
      by (rule removed_step [OF Cons.prems(1) False]) (rule Cons.IH [OF wf_sub [OF Cons.prems(1)] False])
  qed
qed

text \<open>A path as it is written: every component after a slash.\<close>

definition joined :: "cstring list \<Rightarrow> cstring" where
  "joined cs = concat (map (\<lambda>c. 47 # c) cs)"

definition is_component :: "cstring \<Rightarrow> bool" where
  "is_component c \<longleftrightarrow> c \<noteq> [] \<and> 47 \<notin> set c \<and> 0 \<notin> set c"

lemma while_no_zero:
  fixes bs :: "byte list"
  assumes "0 \<notin> set bs" "ys = [] \<or> (\<exists>xs. ys = 0 # xs)"
  shows "takeWhile (\<lambda>c. c \<noteq> 0) (bs @ ys) = bs \<and> dropWhile (\<lambda>c. c \<noteq> 0) (bs @ ys) = ys"
  using assms by (induction bs) auto

lemma path_loop_joined:
  "list_all is_component cs \<Longrightarrow> path_loop p (map (\<lambda>b. if b = 47 then 0 else b) (joined cs)) = Inr cs"
proof (induction cs arbitrary: p)
  case Nil
  then show ?case by (simp add: joined_def)
next
  case (Cons c cs)
  then obtain b bs where c: "c = b # bs" "b \<noteq> 0" "47 \<notin> set c" "0 \<notin> set c"
    by (cases c) (auto simp: is_component_def)
  let ?z = "map (\<lambda>b. if b = 47 then 0 else b)"
  have i: "?z c = c" using c(3) by (intro map_idI) auto
  have start: "joined cs = [] \<or> (\<exists>xs. joined cs = 47 # xs)" by (cases cs) (simp_all add: joined_def)
  have "takeWhile (\<lambda>c. c \<noteq> 0) (bs @ ?z (joined cs)) = bs" "dropWhile (\<lambda>c. c \<noteq> 0) (bs @ ?z (joined cs)) = ?z (joined cs)"
    using while_no_zero [of bs "?z (joined cs)"] start c(1,4) by auto
  moreover have "?z (joined (c # cs)) = 0 # b # bs @ ?z (joined cs)"
    using i c(1) by (simp add: joined_def)
  ultimately show ?case using Cons.IH [of True] Cons.prems c(1,2) by simp
qed

text \<open>C21. Reading a directory whose names are distinct at every level succeeds and gives a
  well-formed tree with exactly the visible entries below the directory: a file with its size and
  time, a directory with everything in it, and nothing whose name, or a directory on the way to it,
  starts with a dot.\<close>

theorem folder_new_reads_disk:
  assumes "wf_disk (DiskDir contents)"
  shows "\<exists>f. folder_new (DiskDir contents) name = Inr f \<and> fo_name f = name
    \<and> wf_folder f \<and> entries f = disk_entries (DiskDir contents)"
  using assms by (rule folder_new_wf)

theorem folder_new_reads_disk_witness:
  "\<exists>f. folder_new (DiskDir [([46, 97], DiskFile 1 2), ([98], DiskDir [([99], DiskFile 3 4)])]) [] = Inr f
    \<and> entries f = {([], dir_entry [98]), ([[98]], file_new 3 4 [99])}"
  using folder_new_reads_disk [of "[([46, 97], DiskFile 1 2), ([98], DiskDir [([99], DiskFile 3 4)])]" "[]"]
  by (auto simp: hidden_def entry_of_def)

text \<open>C37. Removing a path written with a slash before every component from a well-formed file system
  takes out the file or folder at the path, with everything below it, and nothing else, and leaves a
  well-formed tree; when nothing is at the path the function stops at its assertion.\<close>

theorem filesystem_remove_path:
  assumes "wf_folder (fs_root fs)" "cs \<noteq> []" "list_all is_component cs"
  shows "if has_path cs (fs_root fs)
    then \<exists>r. filesystem_remove_file_at_path fs (joined cs) = Inr (fs\<lparr>fs_root := r\<rparr>)
      \<and> wf_folder r \<and> entries r = off_path cs (fs_root fs)
    else filesystem_remove_file_at_path fs (joined cs) = Inl AssertFail"
proof -
  have "get_path_components (joined cs) = Inr cs"
    unfolding get_path_components_def by (rule path_loop_joined [OF assms(3)])
  with removed [OF assms(1,2)] show ?thesis
    by (auto simp: filesystem_remove_file_at_path_def removed_def split: if_splits)
qed

theorem filesystem_remove_path_witness:
  "\<exists>r. filesystem_remove_file_at_path \<lparr>fs_root_path = None, fs_root = old_tree\<rparr> [47, 100, 47, 98]
      = Inr \<lparr>fs_root_path = None, fs_root = r\<rparr>
    \<and> entries r = {([], file_new 1 10 [97]), ([], dir_entry [100])}"
proof -
  have h: "has_path [[100], [98]] old_tree"
    by (auto simp: has_path_def old_tree_def file_new_def)
  have o: "off_path [[100], [98]] old_tree = {([], file_new 1 10 [97]), ([], dir_entry [100])}"
    by (auto simp: off_path_def old_tree_def file_new_def)
  have "joined [[100], [98]] = [47, 100, 47, 98]" by (simp add: joined_def)
  with h o filesystem_remove_path [of "\<lparr>fs_root_path = None, fs_root = old_tree\<rparr>" "[[100], [98]]"] example_trees
  show ?thesis by (auto simp: is_component_def)
qed

text \<open>\<open>get_path_components\<close> splits a path in which every component is written after a slash into
  its components; on a path that starts with anything but a slash its loop does not end.\<close>

theorem get_path_components_joined:
  "(list_all is_component cs \<longrightarrow> get_path_components (joined cs) = Inr cs)
   \<and> (c \<noteq> 47 \<and> c \<noteq> 0 \<longrightarrow> get_path_components (c # path) = Inl NoReturn)"
  by (simp add: get_path_components_def path_loop_joined)

theorem get_path_components_joined_witness:
  "get_path_components [47, 97, 98, 47, 99] = Inr [[97, 98], [99]] \<and> get_path_components [97, 47, 98] = Inl NoReturn"
  using get_path_components_joined [of "[[97, 98], [99]]" 97 "[47, 98]"]
  by (simp add: joined_def is_component_def)

end
