(* ===== verification/FileSysCodec.thy ===== *)
theory FileSysCodec
  imports FileSys
begin

text \<open>
  File systems as bytes: \<open>filesystem_serialize\<close> and \<open>filesystem_deserialize\<close> of
  \<open>utility/FileSystem/FileSystem.c\<close>. The serializer collects the bytes in a queue, here a list. The
  parser recurses on folders and loops on markers; \<open>fuel\<close> bounds the markers it reads, and the length of
  the data is enough for any data, since every marker is a byte. A read past the data is
  \<open>OutOfBounds\<close>; numbers \<open>sscanf\<close> does not find leave memory uninitialised, \<open>WildDeref\<close>.
\<close>

section \<open>The serializer\<close>

definition FILE_MARKER :: byte where "FILE_MARKER = 0xFF"

definition FOLDER_START :: byte where "FOLDER_START = 0xFE"

definition FOLDER_END :: byte where "FOLDER_END = 0xFD"

text \<open>\<open>%ld\<close> prints the unsigned size as a signed number.\<close>

definition file_fields :: "fileinfo \<Rightarrow> byte list" where
  "file_fields file = print_int (sint (f_size file)) @ 32 # print_int (f_last_modified file) @ 32 # print_int (f_is_folder file)"

definition push_string :: "byte list \<Rightarrow> cstring \<Rightarrow> byte list" where
  "push_string queue str = queue @ str @ [0]"

fun filesystem_serialize_helper :: "folder \<Rightarrow> byte list \<Rightarrow> byte list" where
  "filesystem_serialize_helper (Folder name files folders) data =
     fold filesystem_serialize_helper folders
       (fold (\<lambda>file data. push_string (push_string (data @ [FILE_MARKER]) (f_name file)) (file_fields file)) files
         (push_string (data @ [FOLDER_START]) name)) @ [FOLDER_END]"

definition filesystem_serialize :: "filesystem \<Rightarrow> byte list \<times> nat" where
  "filesystem_serialize fs = (let serialized = filesystem_serialize_helper (fs_root fs) []
     in (serialized, length serialized))"

section \<open>The parser\<close>

text \<open>\<open>%lu\<close> and \<open>%ld\<close> stop at the ends of their range, \<open>%d\<close> then drops the high half.\<close>

definition scan_lu :: "int \<Rightarrow> 64 word" where
  "scan_lu v = (if \<bar>v\<bar> < 2 ^ 64 then word_of_int v else - 1)"

definition scan_ld :: "int \<Rightarrow> int" where
  "scan_ld v = max (- (2 ^ 63)) (min (2 ^ 63 - 1) v)"

definition scan_d :: "int \<Rightarrow> int" where
  "scan_d v = sint (word_of_int (scan_ld v) :: 32 word)"

definition read_number :: "byte list \<Rightarrow> (int \<times> byte list) outcome" where
  "read_number bs = (case scan_int bs of None \<Rightarrow> Inl WildDeref | Some r \<Rightarrow> Inr r)"

definition read_file :: "byte list \<Rightarrow> (fileinfo \<times> byte list) outcome" where
  "read_file data =
     bindE (read_string data) (\<lambda>(name, data).
     bindE (read_number data) (\<lambda>(size, data).
     bindE (read_number data) (\<lambda>(last_modified, data).
     bindE (read_number data) (\<lambda>(is_folder, data).
       Inr (\<lparr>f_name = name, f_size = scan_lu size, f_last_modified = scan_ld last_modified,
             f_is_folder = scan_d is_folder\<rparr>, drop 1 data)))))"

fun deserialize_loop :: "nat \<Rightarrow> folder \<Rightarrow> byte list \<Rightarrow> (folder \<times> byte list) outcome" where
  "deserialize_loop 0 folder data = Inl NoReturn"
| "deserialize_loop (Suc fuel) folder [] = Inl OutOfBounds"
| "deserialize_loop (Suc fuel) folder (marker # data) =
     (if marker = FOLDER_START then
        bindE (read_string data) (\<lambda>(name, data).
        bindE (deserialize_loop fuel (Folder name [] []) data) (\<lambda>(child, data).
          deserialize_loop fuel (Folder (fo_name folder) (fo_files folder) (fo_folders folder @ [child])) data))
      else if marker = FILE_MARKER then
        bindE (read_file data) (\<lambda>(file, data).
          deserialize_loop fuel (Folder (fo_name folder) (fo_files folder @ [file]) (fo_folders folder)) data)
      else if marker = FOLDER_END then Inr (folder, data)
      else Inl AssertFail)"

definition filesystem_deserialize_helper :: "byte list \<Rightarrow> (folder \<times> byte list) outcome" where
  "filesystem_deserialize_helper data =
     bindE (read_string data) (\<lambda>(name, data). deserialize_loop (Suc (length data)) (Folder name [] []) data)"

text \<open>Returns the file system and the number of bytes read.\<close>

definition filesystem_deserialize :: "byte list \<Rightarrow> (filesystem \<times> nat) outcome" where
  "filesystem_deserialize data =
     bindE (filesystem_deserialize_helper (drop 1 data)) (\<lambda>(root, rest).
       Inr (\<lparr>fs_root_path = None, fs_root = root\<rparr>, length data - length rest))"

section \<open>What the parser reads\<close>

fun ok_folder :: "folder \<Rightarrow> bool" where
  "ok_folder (Folder name files folders) \<longleftrightarrow> is_cstring name
     \<and> (\<forall>x \<in> set files. is_cstring (f_name x) \<and> - (2 ^ 63) \<le> f_last_modified x \<and> f_last_modified x < 2 ^ 63
          \<and> is_int (f_is_folder x))
     \<and> (\<forall>d \<in> set folders. ok_folder d)"

definition file_image :: "fileinfo \<Rightarrow> byte list" where
  "file_image x = FILE_MARKER # string_bytes (f_name x) @ string_bytes (file_fields x)"

fun folder_image :: "folder \<Rightarrow> byte list" where
  "folder_image (Folder name files folders) =
     FOLDER_START # string_bytes name @ concat (map file_image files) @ concat (map folder_image folders) @ [FOLDER_END]"

lemma serialize_image: "filesystem_serialize_helper f data = data @ folder_image f"
proof (induction f arbitrary: data)
  case (Folder name files folders)
  have files: "fold (\<lambda>file data. push_string (push_string (data @ [FILE_MARKER]) (f_name file)) (file_fields file)) files data
      = data @ concat (map file_image files)" for data
    by (induction files arbitrary: data) (simp_all add: push_string_def file_image_def string_bytes_def)
  have "(\<And>d data. d \<in> set ds \<Longrightarrow> filesystem_serialize_helper d data = data @ folder_image d) \<Longrightarrow>
      fold filesystem_serialize_helper ds data = data @ concat (map folder_image ds)" for ds data
    by (induction ds arbitrary: data) simp_all
  from this [OF Folder.IH] show ?case
    unfolding filesystem_serialize_helper.simps files by (simp add: push_string_def string_bytes_def)
qed

lemma read_number_print [simp]: "stops rest \<Longrightarrow> read_number (print_int i @ rest) = Inr (i, rest)"
  by (simp add: read_number_def scan_int_print)

lemma read_number_space [simp]: "read_number (32 # bs) = read_number bs"
  by (simp add: read_number_def scan_int_space)

lemma scan_lu_sint [simp]: "scan_lu (sint w) = w"
proof -
  have "- (2 ^ 63) \<le> sint w" "sint w < 2 ^ 63" using sint_ge [of w] sint_lt [of w] by simp_all
  then have "\<bar>sint w\<bar> < 2 ^ 64" by (simp add: abs_less_iff)
  then show ?thesis by (simp add: scan_lu_def)
qed

lemma scan_ld_id: "- (2 ^ 63) \<le> v \<Longrightarrow> v < 2 ^ 63 \<Longrightarrow> scan_ld v = v"
  by (simp add: scan_ld_def)

lemma scan_d_id: "is_int v \<Longrightarrow> scan_d v = v"
proof -
  assume v: "is_int v"
  then have "scan_ld v = v" by (simp add: scan_ld_def is_int_def)
  moreover have "sint (word_of_int v :: 32 word) = v"
    using v by (simp add: sint_sbintrunc' signed_take_bit_int_eq_self is_int_def)
  ultimately show ?thesis by (simp add: scan_d_def)
qed

lemma read_file_image:
  assumes "is_cstring (f_name x)" "- (2 ^ 63) \<le> f_last_modified x" "f_last_modified x < 2 ^ 63" "is_int (f_is_folder x)"
  shows "read_file (string_bytes (f_name x) @ string_bytes (file_fields x) @ rest) = Inr (x, rest)"
proof -
  have "read_string (string_bytes (f_name x) @ r) = Inr (f_name x, r)" for r
    by (rule string_codec.dec_enc [OF assms(1)])
  then show ?thesis
    using scan_ld_id [OF assms(2,3)] scan_d_id [OF assms(4)]
    by (simp add: read_file_def string_bytes_def file_fields_def)
qed

definition body :: "folder \<Rightarrow> byte list" where
  "body g = concat (map file_image (fo_files g)) @ concat (map folder_image (fo_folders g)) @ [FOLDER_END]"

lemma folder_image_body: "folder_image g = FOLDER_START # string_bytes (fo_name g) @ body g"
  by (cases g) (simp add: body_def)

lemma marker_simps [simp]: "FILE_MARKER \<noteq> FOLDER_START" "FOLDER_END \<noteq> FOLDER_START" "FOLDER_END \<noteq> FILE_MARKER"
  by (simp_all add: FILE_MARKER_def FOLDER_START_def FOLDER_END_def)

lemma loop_files:
  assumes "\<And>x. x \<in> set files \<Longrightarrow> is_cstring (f_name x) \<and> - (2 ^ 63) \<le> f_last_modified x
      \<and> f_last_modified x < 2 ^ 63 \<and> is_int (f_is_folder x)"
    and "length (concat (map file_image files) @ data) < fuel"
  shows "\<exists>fuel'. length data < fuel' \<and> deserialize_loop fuel (Folder n fs ds) (concat (map file_image files) @ data)
    = deserialize_loop fuel' (Folder n (fs @ files) ds) data"
  using assms
proof (induction files arbitrary: fuel fs)
  case Nil
  then show ?case by auto
next
  case (Cons x files)
  obtain k where k: "fuel = Suc k" using Cons.prems(2) by (cases fuel) auto
  have "\<exists>fuel'. length data < fuel' \<and> deserialize_loop k (Folder n (fs @ [x]) ds) (concat (map file_image files) @ data)
    = deserialize_loop fuel' (Folder n ((fs @ [x]) @ files) ds) data"
    by (rule Cons.IH) (use Cons.prems k in \<open>auto simp: file_image_def string_bytes_def\<close>)
  then show ?case
    using read_file_image [of x] Cons.prems(1) [of x] by (simp add: k file_image_def [of x])
qed

lemma loop_body:
  "ok_folder g \<Longrightarrow> length (body g @ rest) < fuel \<Longrightarrow>
    deserialize_loop fuel (Folder n fs ds) (body g @ rest) = Inr (Folder n (fs @ fo_files g) (ds @ fo_folders g), rest)"
proof (induction g arbitrary: fuel n fs ds rest)
  case (Folder m files folders)
  define tail where "tail = FOLDER_END # rest"
  have folders: "(\<And>d. d \<in> set es \<Longrightarrow> d \<in> set folders) \<Longrightarrow> length (concat (map folder_image es) @ tail) < k \<Longrightarrow>
      deserialize_loop k (Folder n fs' ds') (concat (map folder_image es) @ tail) = Inr (Folder n fs' (ds' @ es), rest)"
    for es k fs' ds'
  proof (induction es arbitrary: k ds')
    case Nil
    then show ?case by (cases k) (simp_all add: tail_def)
  next
    case (Cons d es)
    obtain j where k: "k = Suc j" using Cons.prems(2) by (cases k) auto
    have d: "d \<in> set folders" "ok_folder d" using Cons.prems(1) Folder.prems(1) by auto
    have name: "is_cstring (fo_name d)" using d(2) by (cases d) auto
    let ?r = "concat (map folder_image es) @ tail"
    have l: "length (body d @ ?r) < j" "length ?r < j"
      using Cons.prems(2) by (simp_all add: k folder_image_body [of d] string_bytes_def)
    have child: "deserialize_loop j (Folder (fo_name d) [] []) (body d @ ?r) = Inr (d, ?r)"
      using Folder.IH [OF d l(1), of "fo_name d" "[]" "[]"] by simp
    have more: "deserialize_loop j (Folder n fs' (ds' @ [d])) ?r = Inr (Folder n fs' ((ds' @ [d]) @ es), rest)"
      by (rule Cons.IH) (use Cons.prems(1) l(2) in auto)
    have "read_string (string_bytes (fo_name d) @ body d @ ?r) = Inr (fo_name d, body d @ ?r)"
      by (rule string_codec.dec_enc [OF name])
    with child more show ?case by (simp add: k folder_image_body [of d])
  qed
  let ?data = "concat (map folder_image folders) @ tail"
  have b: "body (Folder m files folders) @ rest = concat (map file_image files) @ ?data"
    by (simp add: body_def tail_def)
  obtain fuel' where f: "length ?data < fuel'"
      "deserialize_loop fuel (Folder n fs ds) (concat (map file_image files) @ ?data)
        = deserialize_loop fuel' (Folder n (fs @ files) ds) ?data"
    using loop_files [of files ?data fuel n fs ds] Folder.prems by (auto simp: b simp del: append_assoc)
  then show ?case unfolding b using folders [of folders fuel' "fs @ files" ds] by simp
qed

definition image :: "filesystem \<Rightarrow> byte list" where
  "image fs = fst (filesystem_serialize fs)"

text \<open>What the callers of the parser do: they read one file system and go on after it.\<close>

definition parse :: "byte list \<Rightarrow> (filesystem \<times> byte list) outcome" where
  "parse data = bindE (filesystem_deserialize data) (\<lambda>(fs, bytesRead). Inr (fs, drop bytesRead data))"

definition ok_filesystem :: "filesystem \<Rightarrow> bool" where
  "ok_filesystem fs \<longleftrightarrow> fs_root_path fs = None \<and> ok_folder (fs_root fs)"

lemma deserialize_image:
  assumes "ok_folder g"
  shows "filesystem_deserialize (folder_image g @ rest) = Inr (\<lparr>fs_root_path = None, fs_root = g\<rparr>, length (folder_image g))"
proof -
  have name: "is_cstring (fo_name g)" using assms by (cases g) auto
  have "read_string (string_bytes (fo_name g) @ body g @ rest) = Inr (fo_name g, body g @ rest)"
    by (rule string_codec.dec_enc [OF name])
  moreover have "deserialize_loop (Suc (length (body g @ rest))) (Folder (fo_name g) [] []) (body g @ rest) = Inr (g, rest)"
    using loop_body [OF assms, of rest _ "fo_name g" "[]" "[]"] by simp
  ultimately show ?thesis
    by (simp add: filesystem_deserialize_def filesystem_deserialize_helper_def folder_image_body)
qed

interpretation fs_codec: codec image parse ok_filesystem
proof
  fix fs and rest :: "byte list"
  assume ok: "ok_filesystem fs"
  have "image fs = folder_image (fs_root fs)"
    by (simp add: image_def filesystem_serialize_def Let_def serialize_image)
  moreover have "fs = \<lparr>fs_root_path = None, fs_root = fs_root fs\<rparr>" using ok by (simp add: ok_filesystem_def)
  ultimately show "parse (image fs @ rest) = Inr (fs, rest)"
    using deserialize_image [of "fs_root fs" rest] ok by (simp add: parse_def ok_filesystem_def)
qed

section \<open>The parser always ends\<close>

definition ends :: "('a \<times> byte list) outcome \<Rightarrow> nat \<Rightarrow> bool" where
  "ends m k \<longleftrightarrow> m \<noteq> Inl NoReturn \<and> (\<forall>x rest. m = Inr (x, rest) \<longrightarrow> length rest \<le> k)"

lemma ends_bind: "ends m k \<Longrightarrow> (\<And>x rest. length rest \<le> k \<Longrightarrow> ends (f (x, rest)) j) \<Longrightarrow> ends (bindE m f) j"
  by (cases m) (auto simp: ends_def)

lemma ends_Inl [simp]: "ends (Inl e) k \<longleftrightarrow> e \<noteq> NoReturn"
  by (simp add: ends_def)

lemma ends_Inr [simp]: "ends (Inr (x, rest)) k \<longleftrightarrow> length rest \<le> k"
  by (simp add: ends_def)

lemma ends_read_string: "ends (read_string data) (length data)"
proof (induction data)
  case Nil
  then show ?case by simp
next
  case (Cons b bs)
  show ?case
  proof (cases "b = 0")
    case False
    have "ends (bindE (read_string bs) (\<lambda>(s, rest). Inr (b # s, rest))) (length (b # bs))"
      by (rule ends_bind [OF Cons.IH]) simp
    with False show ?thesis by simp
  qed simp
qed

lemma scan_digits_length: "length (snd (scan_digits n bs)) \<le> length bs"
  by (induction n bs rule: scan_digits.induct) auto

lemma scan_nat_length: "scan_nat bs = Some (n, r) \<Longrightarrow> length r \<le> length bs"
  using scan_digits_length [of 0 bs] by (auto simp: scan_nat_def split: list.splits if_splits)

lemma scan_int_length:
  assumes "scan_int data = Some (v, rest)"
  shows "length rest \<le> length data"
proof (cases "dropWhile is_space data")
  case Nil
  with assms show ?thesis by (simp add: scan_int_def)
next
  case (Cons b bs)
  have l: "Suc (length bs) \<le> length data" using length_dropWhile_le [of is_space data] by (simp add: Cons)
  show ?thesis
  proof (cases "b = 45 \<or> b = 43")
    case True
    with assms Cons obtain n where "scan_nat bs = Some (n, rest)" by (auto simp: scan_int_def)
    from scan_nat_length [OF this] l show ?thesis by simp
  next
    case False
    with assms Cons obtain n where "scan_nat (b # bs) = Some (n, rest)" by (auto simp: scan_int_def)
    from scan_nat_length [OF this] l show ?thesis by simp
  qed
qed

lemma ends_read_number: "ends (read_number data) (length data)"
proof (cases "scan_int data")
  case None
  then show ?thesis by (simp add: read_number_def)
next
  case (Some r)
  obtain v rest where r: "r = (v, rest)" by force
  with Some scan_int_length [of data v rest] show ?thesis by (simp add: read_number_def)
qed

lemma ends_mono: "ends m k \<Longrightarrow> k \<le> j \<Longrightarrow> ends m j"
  by (auto simp: ends_def)

lemma ends_read_file: "ends (read_file data) (length data)"
proof -
  have number: "ends (read_number bs) (length data)" if "length bs \<le> length data" for bs
    using ends_mono [OF ends_read_number that] .
  show ?thesis
    unfolding read_file_def
    by (rule ends_bind [OF ends_read_string], simp only: prod.case,
        (rule ends_bind [OF number], assumption, simp only: prod.case)+) simp
qed

lemma ends_loop: "length data < fuel \<Longrightarrow> ends (deserialize_loop fuel f data) (length data)"
proof (induction fuel arbitrary: f data)
  case 0
  then show ?case by simp
next
  case (Suc fuel)
  show ?case
  proof (cases data)
    case Nil
    then show ?thesis by simp
  next
    case (Cons marker bs)
    have l: "length bs < fuel" using Suc.prems Cons by simp
    have loop: "ends (deserialize_loop fuel g r) (length data)" if "length r \<le> length bs" for g r
      by (rule ends_mono [OF Suc.IH]) (use that l Cons in simp_all)
    have child: "ends (deserialize_loop fuel g r) (length bs)" if "length r \<le> length bs" for g r
      by (rule ends_mono [OF Suc.IH]) (use that l in simp_all)
    have "ends (bindE (read_string bs) (\<lambda>(name, r). bindE (deserialize_loop fuel (Folder name [] []) r) (\<lambda>(c, r).
        deserialize_loop fuel (Folder (fo_name f) (fo_files f) (fo_folders f @ [c])) r))) (length data)"
      by (rule ends_bind [OF ends_read_string], simp only: prod.case, rule ends_bind [OF child], assumption,
          simp only: prod.case, rule loop)
    moreover have "ends (bindE (read_file bs) (\<lambda>(x, r).
        deserialize_loop fuel (Folder (fo_name f) (fo_files f @ [x]) (fo_folders f)) r)) (length data)"
      by (rule ends_bind [OF ends_read_file], simp only: prod.case, rule loop)
    ultimately show ?thesis by (simp add: Cons)
  qed
qed

text \<open>C18. What \<open>filesystem_serialize\<close> writes, \<open>filesystem_deserialize\<close> reads back: the same tree in the
  same order, with names, sizes, times and folder marks, whatever bytes follow, and it reports exactly
  the serialized length as read. So two file systems one after the other, as the FS_UPDATE message
  carries additions and deletions, are both recovered. Names hold no 0 byte, times fit in 64 bits.\<close>

theorem filesystem_round_trip:
  assumes "ok_folder (fs_root fs)" "ok_folder (fs_root gs)"
    and "filesystem_serialize fs = (data, len)" "filesystem_serialize gs = (data', len')"
  shows "filesystem_deserialize (data @ data' @ rest) = Inr (fs\<lparr>fs_root_path := None\<rparr>, len)
    \<and> filesystem_deserialize (drop len (data @ data' @ rest)) = Inr (gs\<lparr>fs_root_path := None\<rparr>, len')"
proof -
  let ?fs = "fs\<lparr>fs_root_path := None\<rparr>" and ?gs = "gs\<lparr>fs_root_path := None\<rparr>"
  have ok: "ok_filesystem ?fs" "ok_filesystem ?gs" using assms(1,2) by (simp_all add: ok_filesystem_def)
  have d: "image ?fs = data" "image ?gs = data'" "len = length data" "len' = length data'"
    using assms(3,4) by (simp_all add: image_def filesystem_serialize_def Let_def) (auto simp: Let_def)
  have d': "data = folder_image (fs_root fs)" "data' = folder_image (fs_root gs)"
    using d(1,2) by (simp_all add: image_def filesystem_serialize_def Let_def serialize_image)
  have e: "?fs = \<lparr>fs_root_path = None, fs_root = fs_root fs\<rparr>" "?gs = \<lparr>fs_root_path = None, fs_root = fs_root gs\<rparr>"
    by simp_all
  show ?thesis
    unfolding e d(3,4) using deserialize_image [OF assms(1), of "data' @ rest"] deserialize_image [OF assms(2), of rest]
    by (simp add: d')
qed

theorem filesystem_round_trip_witness:
  "filesystem_deserialize (fst (filesystem_serialize \<lparr>fs_root_path = Some [47], fs_root = old_tree\<rparr>)
      @ fst (filesystem_serialize \<lparr>fs_root_path = None, fs_root = new_tree\<rparr>) @ [7])
    = Inr (\<lparr>fs_root_path = None, fs_root = old_tree\<rparr>, snd (filesystem_serialize \<lparr>fs_root_path = Some [47], fs_root = old_tree\<rparr>))"
proof -
  have "ok_folder old_tree" "ok_folder new_tree"
    by (simp_all add: old_tree_def new_tree_def file_new_def dir_entry_def is_cstring_def is_int_def)
  then show ?thesis
    using filesystem_round_trip [of "\<lparr>fs_root_path = Some [47], fs_root = old_tree\<rparr>" "\<lparr>fs_root_path = None, fs_root = new_tree\<rparr>",
        OF _ _ prod.collapse [symmetric] prod.collapse [symmetric]] by simp
qed


end
