(* ===== verification/FileSysIter.thy ===== *)
theory FileSysIter
  imports FileSys
begin

text \<open>
  The iterator of \<open>utility/FileSystem/FileSystem.c\<close>: a list of the paths of a tree, files before the
  folders that hold them or the other way round, taken from the front. \<open>listing\<close> is the list with the
  paths still split; order and completeness are stated on it.
\<close>

section \<open>Path lists\<close>

definition path_file :: "cstring \<Rightarrow> fileinfo \<Rightarrow> fileinfo" where
  "path_file path file = \<lparr>f_name = add_strings [path, [47], f_name file], f_size = f_size file,
     f_last_modified = f_last_modified file, f_is_folder = 0\<rparr>"

definition path_folder :: "cstring \<Rightarrow> fileinfo \<Rightarrow> fileinfo" where
  "path_folder path file = \<lparr>f_name = add_strings [path, [47], f_name file], f_size = 0,
     f_last_modified = 0, f_is_folder = 1\<rparr>"

text \<open>\<open>file_list\<close> grows at its end; \<open>folders\<close> (\<open>files\<close> in the other order) is appended after the
  sub-folders.\<close>

fun filesystem_get_path_list_file_first :: "cstring \<Rightarrow> folder \<Rightarrow> fileinfo list \<Rightarrow> fileinfo list" where
  "filesystem_get_path_list_file_first path (Folder n fs ds) file_list =
     (let (file_list, folders) = fold (\<lambda>file (file_list, folders).
            if f_is_folder file = 0 then (file_list @ [path_file path file], folders)
            else (file_list, folders @ [path_folder path file])) fs (file_list, [])
      in fold (\<lambda>folder file_list.
           filesystem_get_path_list_file_first (add_strings [path, [47], fo_name folder]) folder file_list) ds file_list
         @ folders)"

fun filesystem_get_path_list_folder_first :: "cstring \<Rightarrow> folder \<Rightarrow> fileinfo list \<Rightarrow> fileinfo list" where
  "filesystem_get_path_list_folder_first path (Folder n fs ds) file_list =
     (let (file_list, files) = fold (\<lambda>file (file_list, files).
            if f_is_folder file = 0 then (file_list, files @ [path_file path file])
            else (file_list @ [path_folder path file], files)) fs (file_list, [])
      in fold (\<lambda>folder file_list.
           filesystem_get_path_list_folder_first (add_strings [path, [47], fo_name folder]) folder file_list) ds file_list
         @ files)"

section \<open>The iterator\<close>

record fs_iterator =
  fi_file_list :: "fileinfo list"
  fi_prev_file :: "fileinfo ptr"

text \<open>With no root path \<open>strlen\<close> is called with NULL as soon as the root holds anything.\<close>

definition filesystemiterator_new :: "filesystem \<Rightarrow> bool \<Rightarrow> fs_iterator outcome" where
  "filesystemiterator_new fs file_first = (case fs_root_path fs of
     None \<Rightarrow> if fo_files (fs_root fs) = [] \<and> fo_folders (fs_root fs) = []
       then Inr \<lparr>fi_file_list = [], fi_prev_file = None\<rparr> else Inl NullDeref
   | Some path \<Rightarrow> Inr \<lparr>fi_file_list =
       (if file_first then filesystem_get_path_list_file_first path (fs_root fs) []
        else filesystem_get_path_list_folder_first path (fs_root fs) []), fi_prev_file = None\<rparr>)"

text \<open>Returns the iterator and the file system with its root path restored.\<close>

definition filesystemiterator_relative_new :: "filesystem \<Rightarrow> bool \<Rightarrow> (fs_iterator \<times> filesystem) outcome" where
  "filesystemiterator_relative_new fs file_first =
     (let save_path = filesystem_get_root_path fs;
          fs = filesystem_set_root_path fs (Some [])
      in bindE (filesystemiterator_new fs file_first) (\<lambda>fsi. Inr (fsi, filesystem_set_root_path fs save_path)))"

text \<open>Returns the name, or NULL, with \<open>*length\<close> (an \<open>int\<close>) and \<open>*mod_time\<close>.\<close>

definition filesystemiterator_next :: "fs_iterator \<Rightarrow> (cstring \<times> int \<times> int) ptr \<times> fs_iterator" where
  "filesystemiterator_next fsi = (case fi_file_list fsi of
     [] \<Rightarrow> (None, fsi\<lparr>fi_prev_file := None\<rparr>)
   | file # file_list \<Rightarrow>
       (Some (f_name file, if f_is_folder file \<noteq> 0 then - 1 else file_get_size file, f_last_modified file),
        \<lparr>fi_file_list = file_list, fi_prev_file = Some file\<rparr>))"

text \<open>The loop of a client: \<open>while ((path = filesystemiterator_next(...)))\<close>.\<close>

fun iterate :: "nat \<Rightarrow> fs_iterator \<Rightarrow> (cstring \<times> int \<times> int) list outcome" where
  "iterate 0 fsi = Inl NoReturn"
| "iterate (Suc fuel) fsi = (case filesystemiterator_next fsi of
     (None, _) \<Rightarrow> Inr []
   | (Some r, fsi') \<Rightarrow> bindE (iterate fuel fsi') (\<lambda>rs. Inr (r # rs)))"

section \<open>Listings\<close>

definition plain :: "fileinfo list \<Rightarrow> (cstring list \<times> fileinfo) list" where
  "plain fs = map (\<lambda>x. ([], x)) (filter (\<lambda>x. f_is_folder x = 0) fs)"

definition dirs :: "fileinfo list \<Rightarrow> (cstring list \<times> fileinfo) list" where
  "dirs fs = map (\<lambda>x. ([], x)) (filter (\<lambda>x. f_is_folder x \<noteq> 0) fs)"

definition under :: "cstring \<Rightarrow> (cstring list \<times> fileinfo) list \<Rightarrow> (cstring list \<times> fileinfo) list" where
  "under n l = map (\<lambda>(p, x). (n # p, x)) l"

fun listing :: "bool \<Rightarrow> folder \<Rightarrow> (cstring list \<times> fileinfo) list" where
  "listing file_first (Folder n fs ds) =
     (if file_first then plain fs else dirs fs) @ concat (map (\<lambda>d. under (fo_name d) (listing file_first d)) ds)
     @ (if file_first then dirs fs else plain fs)"

text \<open>The path of an entry, each component after a slash.\<close>

definition render :: "cstring \<Rightarrow> cstring list \<times> fileinfo \<Rightarrow> fileinfo" where
  "render path e = (case e of (p, x) \<Rightarrow>
     if f_is_folder x = 0 then path_file (path @ joined p) x else path_folder (path @ joined p) x)"

lemma render_under: "map (render path) (under n l) = map (render (path @ 47 # n)) l"
  by (simp add: under_def render_def joined_def case_prod_beta comp_def)

lemma render_plain: "map (render path) (plain fs) = map (path_file path) (filter (\<lambda>x. f_is_folder x = 0) fs)"
  by (simp add: plain_def render_def joined_def comp_def cong: map_cong)

lemma render_dirs: "map (render path) (dirs fs) = map (path_folder path) (filter (\<lambda>x. f_is_folder x \<noteq> 0) fs)"
  by (simp add: dirs_def render_def joined_def comp_def cong: map_cong)

lemma fold_file_first: "fold (\<lambda>file (file_list, folders).
    if f_is_folder file = 0 then (file_list @ [path_file path file], folders)
    else (file_list, folders @ [path_folder path file])) fs (l, m)
  = (l @ map (render path) (plain fs), m @ map (render path) (dirs fs))"
  by (induction fs arbitrary: l m) (simp_all add: plain_def dirs_def render_def joined_def)

lemma fold_folder_first: "fold (\<lambda>file (file_list, files).
    if f_is_folder file = 0 then (file_list, files @ [path_file path file])
    else (file_list @ [path_folder path file], files)) fs (l, m)
  = (l @ map (render path) (dirs fs), m @ map (render path) (plain fs))"
  by (induction fs arbitrary: l m) (simp_all add: plain_def dirs_def render_def joined_def)

lemma file_first_listing:
  "filesystem_get_path_list_file_first path f l = l @ map (render path) (listing True f)"
proof (induction f arbitrary: path l)
  case (Folder n fs ds)
  have "(\<And>d path l. d \<in> set es \<Longrightarrow>
        filesystem_get_path_list_file_first path d l = l @ map (render path) (listing True d)) \<Longrightarrow>
      fold (\<lambda>d l. filesystem_get_path_list_file_first (add_strings [path, [47], fo_name d]) d l) es l
      = l @ map (render path) (concat (map (\<lambda>d. under (fo_name d) (listing True d)) es))" for es l
    by (induction es arbitrary: l) (simp_all add: render_under add_strings_def)
  from this [OF Folder.IH] show ?case by (simp add: fold_file_first)
qed

lemma folder_first_listing:
  "filesystem_get_path_list_folder_first path f l = l @ map (render path) (listing False f)"
proof (induction f arbitrary: path l)
  case (Folder n fs ds)
  have "(\<And>d path l. d \<in> set es \<Longrightarrow>
        filesystem_get_path_list_folder_first path d l = l @ map (render path) (listing False d)) \<Longrightarrow>
      fold (\<lambda>d l. filesystem_get_path_list_folder_first (add_strings [path, [47], fo_name d]) d l) es l
      = l @ map (render path) (concat (map (\<lambda>d. under (fo_name d) (listing False d)) es))" for es l
    by (induction es arbitrary: l) (simp_all add: render_under add_strings_def)
  from this [OF Folder.IH] show ?case by (simp add: fold_folder_first)
qed

text \<open>An entry is inside a folder when the folder's path is a proper prefix of its own.\<close>

definition inside :: "cstring list \<times> fileinfo \<Rightarrow> cstring list \<times> fileinfo \<Rightarrow> bool" where
  "inside a b = (case (a, b) of ((p, x), (q, y)) \<Rightarrow>
     f_is_folder y \<noteq> 0 \<and> take (length q + 1) p = q @ [f_name y])"

lemma set_listing: "set (listing b f) = entries f"
proof (induction f)
  case (Folder n fs ds)
  have "set (plain fs) \<union> set (dirs fs) = {([], x) | x. x \<in> set fs}" by (auto simp: plain_def dirs_def)
  moreover have "set (concat (map (\<lambda>d. under (fo_name d) (listing b d)) ds))
      = (\<Union>d \<in> set ds. (\<lambda>(p, x). (fo_name d # p, x)) ` entries d)"
    using Folder.IH by (simp add: under_def)
  ultimately show ?case by auto
qed

lemma under_path: "(p, x) \<in> set (under n l) \<Longrightarrow> \<exists>q. p = n # q \<and> (q, x) \<in> set l"
  by (auto simp: under_def)

lemma distinct_listing: "wf_folder f \<Longrightarrow> distinct (listing b f)"
proof (induction f)
  case (Folder n fs ds)
  have "distinct fs" using wf_distinct [OF Folder.prems] by simp
  then have top: "distinct (plain fs)" "distinct (dirs fs)" "set (plain fs) \<inter> set (dirs fs) = {}"
    by (auto simp: plain_def dirs_def distinct_map inj_on_def)
  have "distinct (map fo_name es) \<Longrightarrow> (\<And>d. d \<in> set es \<Longrightarrow> distinct (listing b d)) \<Longrightarrow>
      distinct (concat (map (\<lambda>d. under (fo_name d) (listing b d)) es))" for es
  proof (induction es)
    case Nil
    then show ?case by simp
  next
    case (Cons d es)
    have "distinct (under (fo_name d) (listing b d))"
      using Cons.prems(2) [of d] by (auto simp: under_def distinct_map inj_on_def)
    moreover have "set (under (fo_name d) (listing b d)) \<inter> set (concat (map (\<lambda>d. under (fo_name d) (listing b d)) es)) = {}"
      using Cons.prems(1) by (auto simp: under_def)
    ultimately show ?case using Cons by simp
  qed
  then have "distinct (concat (map (\<lambda>d. under (fo_name d) (listing b d)) ds))" using Folder by simp
  moreover have "set l \<inter> set (concat (map (\<lambda>d. under (fo_name d) (listing b d)) ds)) = {}"
    if "l = plain fs \<or> l = dirs fs" for l
    using that by (auto simp: plain_def dirs_def under_def)
  ultimately show ?case using top by (cases b) (simp_all add: Int_Un_distrib Int_commute)
qed

lemma inside_top [simp]: "\<not> inside ([], x) e"
  by (cases e) (simp add: inside_def)

lemma inside_under: "inside (m # p, x) (n # q, y) \<longleftrightarrow> m = n \<and> inside (p, x) (q, y)"
  by (auto simp: inside_def)

lemma sorted_under:
  assumes "\<And>p x q y n. R (n # p, x) (n # q, y) \<longleftrightarrow> R (p, x) (q, y)"
    and "\<And>p x q y m n. m \<noteq> n \<Longrightarrow> R (m # p, x) (n # q, y)"
  shows "distinct (map fo_name es) \<Longrightarrow> (\<And>d. d \<in> set es \<Longrightarrow> sorted_wrt R (l d)) \<Longrightarrow>
    sorted_wrt R (concat (map (\<lambda>d. under (fo_name d) (l d)) es))"
proof (induction es)
  case Nil
  then show ?case by simp
next
  case (Cons d es)
  have "sorted_wrt R (under (fo_name d) (l d))"
    using Cons.prems(2) [of d] assms(1) by (simp add: under_def sorted_wrt_map case_prod_beta)
  moreover have "R a e" if "a \<in> set (under (fo_name d) (l d))" "c \<in> set es" "e \<in> set (under (fo_name c) (l c))" for a e c
  proof -
    have "fo_name d \<noteq> fo_name c" using Cons.prems(1) that(2) by auto
    then show ?thesis using that(1,3) assms(2) by (auto simp: under_def)
  qed
  ultimately show ?case using Cons by (simp add: sorted_wrt_append)
qed

lemma file_first_order: "wf_folder f \<Longrightarrow> sorted_wrt (\<lambda>a b. \<not> inside b a) (listing True f)"
proof (induction f)
  case (Folder n fs ds)
  have "sorted_wrt (\<lambda>a b. \<not> inside b a) (concat (map (\<lambda>d. under (fo_name d) (listing True d)) ds))"
    by (rule sorted_under) (use Folder in \<open>auto simp: inside_under\<close>)
  moreover have top: "e \<in> set (dirs fs) \<Longrightarrow> \<not> inside e a" for e a by (auto simp: dirs_def)
  moreover have plain: "e \<in> set (plain fs) \<Longrightarrow> \<not> inside a e" for e a by (auto simp: plain_def inside_def split: prod.splits)
  moreover have "sorted_wrt (\<lambda>a b. \<not> inside b a) (plain fs)" "sorted_wrt (\<lambda>a b. \<not> inside b a) (dirs fs)"
    using sorted_wrt_mono_rel [of _ "\<lambda>_ _. True" "\<lambda>a b. \<not> inside b a"] plain top by (simp_all add: sorted_wrt_iff_nth_less)
  ultimately show ?case by (auto simp: sorted_wrt_append)
qed

lemma folder_first_order: "wf_folder f \<Longrightarrow> sorted_wrt (\<lambda>a b. \<not> inside a b) (listing False f)"
proof (induction f)
  case (Folder n fs ds)
  have "sorted_wrt (\<lambda>a b. \<not> inside a b) (concat (map (\<lambda>d. under (fo_name d) (listing False d)) ds))"
    by (rule sorted_under) (use Folder in \<open>auto simp: inside_under\<close>)
  moreover have top: "e \<in> set (dirs fs) \<Longrightarrow> \<not> inside e a" for e a by (auto simp: dirs_def)
  moreover have plain: "e \<in> set (plain fs) \<Longrightarrow> \<not> inside a e" for e a by (auto simp: plain_def inside_def split: prod.splits)
  moreover have "sorted_wrt (\<lambda>a b. \<not> inside a b) (plain fs)" "sorted_wrt (\<lambda>a b. \<not> inside a b) (dirs fs)"
    using plain top by (simp_all add: sorted_wrt_iff_nth_less)
  ultimately show ?case by (auto simp: sorted_wrt_append)
qed

section \<open>What the iterator returns\<close>

text \<open>What a call returns for an entry, below the root path.\<close>

definition shown :: "cstring \<Rightarrow> cstring list \<times> fileinfo \<Rightarrow> cstring \<times> int \<times> int" where
  "shown path e = (case e of (p, x) \<Rightarrow> (path @ joined (p @ [f_name x]),
     if f_is_folder x \<noteq> 0 then - 1 else file_get_size x, if f_is_folder x \<noteq> 0 then 0 else f_last_modified x))"

lemma iterate_all: "length l < fuel \<Longrightarrow> iterate fuel \<lparr>fi_file_list = l, fi_prev_file = q\<rparr>
    = Inr (map (\<lambda>x. (f_name x, if f_is_folder x \<noteq> 0 then - 1 else file_get_size x, f_last_modified x)) l)"
proof (induction l arbitrary: fuel q)
  case Nil
  then show ?case by (cases fuel) (simp_all add: filesystemiterator_next_def)
next
  case (Cons x l)
  then show ?case by (cases fuel) (simp_all add: filesystemiterator_next_def)
qed

lemma shown_render: "(\<lambda>x. (f_name x, if f_is_folder x \<noteq> 0 then - 1 else file_get_size x, f_last_modified x)) (render path e)
    = shown path e"
  by (cases e) (simp add: render_def shown_def path_file_def path_folder_def joined_def add_strings_def file_get_size_def)

definition in_order :: "bool \<Rightarrow> (cstring list \<times> fileinfo) list \<Rightarrow> bool" where
  "in_order file_first l = sorted_wrt (\<lambda>a b. if file_first then \<not> inside b a else \<not> inside a b) l"

lemma listing_order: "wf_folder f \<Longrightarrow> in_order b (listing b f)"
  using file_first_order folder_first_order by (cases b) (simp_all add: in_order_def)

text \<open>C22. The relative iterator over a well-formed file system, in the loop its clients write, returns
  every file and every folder exactly once, then NULL: the path of each from the root, the size of a file
  cut to an \<open>int\<close> or -1 for a folder, and the time. Files first, nothing inside a folder comes after
  the folder, so that folders can be removed in that order; folders first, nothing inside a folder comes
  before it, so that files can be created in that order. The root path of the file system is
  restored.\<close>

theorem filesystemiterator_visits_all:
  assumes "wf_folder (fs_root fs)"
  shows "\<exists>fsi order. filesystemiterator_relative_new fs file_first = Inr (fsi, fs)
    \<and> distinct order \<and> set order = entries (fs_root fs) \<and> in_order file_first order
    \<and> iterate (Suc (length order)) fsi = Inr (map (shown []) order)"
proof (intro exI conjI)
  let ?order = "listing file_first (fs_root fs)"
  let ?fsi = "\<lparr>fi_file_list = map (render []) ?order, fi_prev_file = None\<rparr>"
  show "filesystemiterator_relative_new fs file_first = Inr (?fsi, fs)"
    by (simp add: filesystemiterator_relative_new_def filesystemiterator_new_def filesystem_set_root_path_def
        filesystem_get_root_path_def file_first_listing folder_first_listing Let_def)
  show "distinct ?order" "in_order file_first ?order"
    by (rule distinct_listing [OF assms], rule listing_order [OF assms])
  show "set ?order = entries (fs_root fs)" by (rule set_listing)
  show "iterate (Suc (length ?order)) ?fsi = Inr (map (shown []) ?order)"
    unfolding iterate_all [of "map (render []) ?order", unfolded length_map, OF lessI] map_map comp_def shown_render ..
qed

theorem filesystemiterator_visits_all_witness:
  "\<exists>fsi order. filesystemiterator_relative_new \<lparr>fs_root_path = None, fs_root = old_tree\<rparr> True
      = Inr (fsi, \<lparr>fs_root_path = None, fs_root = old_tree\<rparr>)
    \<and> set order = {([], file_new 1 10 [97]), ([], dir_entry [100]), ([[100]], file_new 2 20 [98])}
    \<and> iterate (Suc (length order)) fsi = Inr (map (shown []) order)"
proof -
  have "entries old_tree = {([], file_new 1 10 [97]), ([], dir_entry [100]), ([[100]], file_new 2 20 [98])}"
    by (auto simp: old_tree_def)
  then show ?thesis
    using filesystemiterator_visits_all [of "\<lparr>fs_root_path = None, fs_root = old_tree\<rparr>" True] example_trees by auto
qed

text \<open>The low 32 bits read as a signed number.\<close>

lemma file_get_size_mod: "file_get_size x = (uint (f_size x) + 2 ^ 31) mod 2 ^ 32 - 2 ^ 31"
proof -
  have "uint (ucast (f_size x) :: 32 word) = uint (f_size x) mod 2 ^ 32"
    by (simp add: unsigned_ucast_eq take_bit_eq_mod)
  then show ?thesis
    by (simp add: file_get_size_def sint_uint signed_take_bit_eq_take_bit_shift take_bit_eq_mod mod_add_left_eq)
qed

lemma int_of_size:
  fixes u m :: int
  assumes "0 \<le> u"
  shows "(u + 2 ^ 31) mod 2 ^ 32 - 2 ^ 31 = u \<longleftrightarrow> u < 2 ^ 31"
    "(u + 2 ^ 31) mod 2 ^ 32 - 2 ^ 31 = - 1 \<longleftrightarrow> u mod 2 ^ 32 = 2 ^ 32 - 1"
proof -
  have "(u + 2 ^ 31) mod 2 ^ 32 < 2 ^ 32" by simp
  moreover have "(u + 2 ^ 31) mod 2 ^ 32 = u + 2 ^ 31" if "u < 2 ^ 31"
    by (rule mod_pos_pos_trivial) (use assms that in simp_all)
  ultimately show "(u + 2 ^ 31) mod 2 ^ 32 - 2 ^ 31 = u \<longleftrightarrow> u < 2 ^ 31" by auto
  have "(u + 2 ^ 31) mod 2 ^ 32 = (u mod 2 ^ 32 + 2 ^ 31) mod 2 ^ 32" by (simp add: mod_add_left_eq)
  moreover have "0 \<le> u mod 2 ^ 32" "u mod 2 ^ 32 < 2 ^ 32" by simp_all
  moreover have "(r + 2 ^ 31) mod 2 ^ 32 = (if r < 2 ^ 31 then r + 2 ^ 31 else r - 2 ^ 31)"
    if "0 \<le> r" "r < 2 ^ 32" for r :: int
  proof (cases "r < 2 ^ 31")
    case True
    then show ?thesis using that mod_pos_pos_trivial [of "r + 2 ^ 31" "2 ^ 32"] by simp
  next
    case False
    have "(r + 2 ^ 31) mod 2 ^ 32 = (r - 2 ^ 31 + 2 ^ 32) mod 2 ^ 32" by (rule arg_cong [where f = "\<lambda>x. x mod 2 ^ 32"]) simp
    also have "\<dots> = (r - 2 ^ 31) mod 2 ^ 32" by (rule mod_add_self2)
    also have "\<dots> = r - 2 ^ 31" by (rule mod_pos_pos_trivial) (use that False in simp_all)
    finally show ?thesis using False by (simp only: if_False)
  qed
  ultimately show "(u + 2 ^ 31) mod 2 ^ 32 - 2 ^ 31 = - 1 \<longleftrightarrow> u mod 2 ^ 32 = 2 ^ 32 - 1"
    by (auto split: if_splits)
qed

text \<open>The length the iterator gives is the file's size cut to 32 bits and read as a signed \<open>int\<close>:
  right below 2 GB, wrong from there on, and -1, the mark of a folder, for a plain file of 4 GB less a
  byte.\<close>

theorem filesystemiterator_length_cut:
  assumes "fi_file_list fsi = file # rest" "f_is_folder file = 0"
  shows "\<exists>len. fst (filesystemiterator_next fsi) = Some (f_name file, len, f_last_modified file)
    \<and> (len = uint (f_size file) \<longleftrightarrow> uint (f_size file) < 2 ^ 31)
    \<and> (len = - 1 \<longleftrightarrow> uint (f_size file) mod 2 ^ 32 = 2 ^ 32 - 1)"
proof (intro exI conjI)
  let ?u = "uint (f_size file)"
  show "fst (filesystemiterator_next fsi) = Some (f_name file, file_get_size file, f_last_modified file)"
    using assms by (simp add: filesystemiterator_next_def)
  show "file_get_size file = ?u \<longleftrightarrow> ?u < 2 ^ 31" "file_get_size file = - 1 \<longleftrightarrow> ?u mod 2 ^ 32 = 2 ^ 32 - 1"
    using int_of_size [of ?u] by (simp_all add: file_get_size_mod)
qed

theorem filesystemiterator_length_cut_witness:
  "fst (filesystemiterator_next \<lparr>fi_file_list = [\<lparr>f_name = [97], f_size = 4294967295, f_last_modified = 5, f_is_folder = 0\<rparr>],
      fi_prev_file = None\<rparr>) = Some ([97], - 1, 5)"
  using filesystemiterator_length_cut [of "\<lparr>fi_file_list = [\<lparr>f_name = [97], f_size = 4294967295, f_last_modified = 5, f_is_folder = 0\<rparr>],
      fi_prev_file = None\<rparr>" "\<lparr>f_name = [97], f_size = 4294967295, f_last_modified = 5, f_is_folder = 0\<rparr>" "[]"]
  by auto

section \<open>Loops over the iterator\<close>

text \<open>\<open>while ((path = filesystemiterator_next(fsi, &length, &mod_time))) body\<close>, on fuel; a list of
  paths longer than the fuel never comes up where the fuel is the number of paths plus one.\<close>

fun fs_while :: "nat \<Rightarrow> (cstring \<times> int \<times> int \<Rightarrow> 's \<Rightarrow> 's outcome) \<Rightarrow> fs_iterator \<Rightarrow> 's \<Rightarrow> 's outcome" where
  "fs_while 0 body fsi s = Inl NoReturn"
| "fs_while (Suc fuel) body fsi s = (case filesystemiterator_next fsi of
     (None, _) \<Rightarrow> Inr s
   | (Some r, fsi') \<Rightarrow> bindE (body r s) (fs_while fuel body fsi'))"

definition fs_each :: "filesystem \<Rightarrow> bool \<Rightarrow> (cstring \<times> int \<times> int \<Rightarrow> 's \<Rightarrow> 's outcome) \<Rightarrow> 's \<Rightarrow> 's outcome" where
  "fs_each fs file_first body s = bindE (filesystemiterator_relative_new fs file_first) (\<lambda>(fsi, fs).
     fs_while (Suc (length (fi_file_list fsi))) body fsi s)"

lemma fs_while_all: "length l < fuel \<Longrightarrow> fs_while fuel body \<lparr>fi_file_list = l, fi_prev_file = q\<rparr> s
    = foldE body (map (\<lambda>x. (f_name x, if f_is_folder x \<noteq> 0 then - 1 else file_get_size x, f_last_modified x)) l) s"
proof (induction l arbitrary: fuel q s)
  case Nil
  then show ?case by (cases fuel) (simp_all add: filesystemiterator_next_def)
next
  case (Cons x l)
  obtain k where k: "fuel = Suc k" using Cons.prems by (cases fuel) auto
  have "fs_while k body \<lparr>fi_file_list = l, fi_prev_file = Some x\<rparr>
      = foldE body (map (\<lambda>x. (f_name x, if f_is_folder x \<noteq> 0 then - 1 else file_get_size x, f_last_modified x)) l)"
    using Cons.IH [of k "Some x"] Cons.prems k by (simp add: fun_eq_iff)
  then show ?case by (simp add: k filesystemiterator_next_def del: fs_while.simps(1))
qed

lemma fs_each_listing: "fs_each fs file_first body s = foldE body (map (shown []) (listing file_first (fs_root fs))) s"
proof -
  let ?l = "map (render []) (listing file_first (fs_root fs))"
  have "filesystemiterator_relative_new fs file_first = Inr (\<lparr>fi_file_list = ?l, fi_prev_file = None\<rparr>, fs)"
    by (simp add: filesystemiterator_relative_new_def filesystemiterator_new_def filesystem_set_root_path_def
        filesystem_get_root_path_def file_first_listing folder_first_listing Let_def)
  then show ?thesis
    unfolding fs_each_def
    by (simp only: bindE.simps prod.case fs_iterator.simps fs_while_all lessI map_map comp_def shown_render)
qed

end
