(* ===== verification/FileTab.thy ===== *)
theory FileTab
  imports HashTab CQueue FileSysCodec FileSysIter Chunky
begin

text \<open>
  The file table of \<open>utility/FileTable/FileTable.c\<close>: for every path the peers that hold each chunk,
  the chunks still to fetch and the jobs under way. The table is the hash table of \<open>HashTab\<close>, whose
  contract \<open>keyed\<close> the callbacks are shown to meet. The queues of an entry are lists, on which queue
  operations act as \<open>CQueue\<close> shows; \<open>queue_shuffle\<close> is called as it is. Numbers stored in the queues as
  pointers are \<open>int\<close>s.
\<close>

section \<open>Entries\<close>

record fileentry =
  fte_path :: cstring
  fte_file :: "chunkyfile ptr"
  fte_chunks :: "int list list"
  fte_work_queue :: "int list"
  fte_outstanding_requests :: "int list"

type_synonym filetable = "fileentry hashtable"

text \<open>
  Destroying an entry frees it and then reads its \<open>file\<close>. What freed memory reads as is the
  allocator's: with \<open>stale\<close> it still holds what it held.
\<close>

definition filetableentry_destroy :: "bool \<Rightarrow> fileentry ptr \<Rightarrow> unit outcome" where
  "filetableentry_destroy stale fte = (case fte of
     None \<Rightarrow> Inl NullDeref
   | Some e \<Rightarrow> if stale then Inr () else Inl WildDeref)"

text \<open>A \<open>char\<close> is signed; the sum wraps at 32 bits.\<close>

definition pjw_step :: "byte \<Rightarrow> 32 word \<Rightarrow> 32 word" where
  "pjw_step p h = (let h = push_bit 4 h + scast p; g = and h 0xf0000000
     in if g \<noteq> 0 then xor h (xor (drop_bit 24 g) g) else h)"

definition hashPJW :: "cstring \<Rightarrow> int" where
  "hashPJW s = sint (fold pjw_step s 0)"

definition filetableentry_hash :: "fileentry ptr \<Rightarrow> int" where
  "filetableentry_hash element = (case element of None \<Rightarrow> 0 | Some e \<Rightarrow> hashPJW (fte_path e))"

definition filetableentry_equals :: "fileentry ptr \<Rightarrow> fileentry ptr \<Rightarrow> bool" where
  "filetableentry_equals e0 e1 \<longleftrightarrow> map_option fte_path e0 = map_option fte_path e1"

definition filetable_new :: filetable where
  "filetable_new = hashtable_new (\<lambda>_. 0) (Some filetableentry_hash) filetableentry_equals"

definition filetable_destroy :: "bool \<Rightarrow> filetable \<Rightarrow> unit outcome" where
  "filetable_destroy stale ft =
     bindE (hashtable_apply ft (\<lambda>e r. bindE r (\<lambda>_. filetableentry_destroy stale e)) (Inr ())) (\<lambda>r.
     bindE r (\<lambda>_. hashtable_destroy ft))"

text \<open>\<open>FileTableEntry search; search.path = path;\<close>: no callback looks at the other fields.\<close>

definition search_key :: "cstring \<Rightarrow> fileentry" where
  "search_key path = \<lparr>fte_path = path, fte_file = None, fte_chunks = [], fte_work_queue = [], fte_outstanding_requests = []\<rparr>"

definition find_entry :: "filetable \<Rightarrow> cstring \<Rightarrow> fileentry ptr outcome" where
  "find_entry ft path = hashtable_get_element ft (Some (search_key path))"

definition change_entry :: "filetable \<Rightarrow> cstring \<Rightarrow> (fileentry \<Rightarrow> fileentry) \<Rightarrow> filetable outcome" where
  "change_entry ft path g = hashtable_poke ft (Some (search_key path)) (map_option g)"

text \<open>\<open>queue_get\<close> checks no index: outside the queue it gives a cell that holds no queue.\<close>

definition queue_at :: "'b list \<Rightarrow> int \<Rightarrow> 'b outcome" where
  "queue_at xs i = (if 0 \<le> i \<and> i < int (length xs) then Inr (xs ! nat i) else Inl WildDeref)"

text \<open>\<open>queue_shuffle\<close> on a queue into which the numbers were pushed; \<open>rnd\<close> is \<open>rand\<close>.\<close>

definition shuffle_queue :: "('s \<Rightarrow> nat \<times> 's) \<Rightarrow> 's \<Rightarrow> int list \<Rightarrow> (int list \<times> 's) outcome" where
  "shuffle_queue rnd s xs =
     bindE (queue_shuffle rnd s (fold (\<lambda>x q. queue_push q (void_of_int x)) xs queue_new)) (\<lambda>(q, s').
       Inr (map int_of_void (queue_list q), s'))"

section \<open>Work and jobs\<close>

definition filetable_enqueue_work_request :: "filetable \<Rightarrow> cstring \<Rightarrow> int \<Rightarrow> filetable outcome" where
  "filetable_enqueue_work_request ft path chunk =
     bindE (find_entry ft path) (\<lambda>fte. case fte of
       None \<Rightarrow> Inl NullDeref
     | Some _ \<Rightarrow> change_entry ft path (\<lambda>e. e\<lparr>fte_work_queue := fte_work_queue e @ [chunk]\<rparr>))"

text \<open>
  The static \<open>JOB_ID\<close> is passed and returned, \<open>r\<close> is what \<open>rand()\<close> returns. The result is chunk, peer
  and job, or \<open>None\<close> for the return value 0.
\<close>

definition filetableentry_get_job ::
    "nat \<Rightarrow> int \<Rightarrow> fileentry \<Rightarrow> int \<Rightarrow> ((int \<times> int \<times> int) option \<times> int \<times> fileentry) outcome" where
  "filetableentry_get_job r job_counter entry max_pending_reqests =
     (let job_counter = (if job_counter = 0 then 1 else job_counter) in
      if int (length (fte_outstanding_requests entry)) < max_pending_reqests then
        (case fte_work_queue entry of
           [] \<Rightarrow> Inr (None, job_counter, entry)
         | chunk # work_queue \<Rightarrow>
             bindE (queue_at (fte_chunks entry) chunk) (\<lambda>peers_with_chunk.
             bindE (assertE (peers_with_chunk \<noteq> [])) (\<lambda>_.
               Inr (Some (chunk, peers_with_chunk ! (r mod length peers_with_chunk), job_counter), job_counter + 1,
                 entry\<lparr>fte_work_queue := work_queue,
                       fte_outstanding_requests := fte_outstanding_requests entry @ [job_counter]\<rparr>))))
      else Inr (None, job_counter, entry))"

text \<open>Returns the job's number, or 0 when it is not under way.\<close>

definition filetable_find_and_remove_job_id :: "filetable \<Rightarrow> cstring \<Rightarrow> int \<Rightarrow> (int \<times> filetable) outcome" where
  "filetable_find_and_remove_job_id ft path job_id =
     bindE (find_entry ft path) (\<lambda>fte. case fte of
       None \<Rightarrow> Inl NullDeref
     | Some e \<Rightarrow>
         bindE (change_entry ft path (\<lambda>e. e\<lparr>fte_outstanding_requests := remove_first ((=) job_id) (fte_outstanding_requests e)\<rparr>)) (\<lambda>ft.
           Inr (case find ((=) job_id) (fte_outstanding_requests e) of None \<Rightarrow> 0 | Some i \<Rightarrow> i, ft)))"

definition filetable_enqueue_work_for_filesystem ::
    "('s \<Rightarrow> nat \<times> 's) \<Rightarrow> filetable \<times> 's \<Rightarrow> filesystem \<Rightarrow> (filetable \<times> 's) outcome" where
  "filetable_enqueue_work_for_filesystem rnd fts filesystem =
     fs_each filesystem True (\<lambda>(path, len, mod_time) (ft, s).
       if len < 0 then Inr (ft, s)
       else bindE (find_entry ft path) (\<lambda>entry. case entry of
         None \<Rightarrow> Inl AssertFail
       | Some e \<Rightarrow>
           bindE (shuffle_queue rnd s (fte_work_queue e @ map int [0..<nat (num_chunks_for_size len)])) (\<lambda>(work, s).
           bindE (change_entry ft path (\<lambda>e. e\<lparr>fte_work_queue := work\<rparr>)) (\<lambda>ft. Inr (ft, s))))) fts"

section \<open>Files that come and go\<close>

definition remove_entry :: "bool \<Rightarrow> filetable \<Rightarrow> cstring \<Rightarrow> filetable outcome" where
  "remove_entry stale ft path =
     bindE (hashtable_remove_element ft (Some (search_key path))) (\<lambda>(removed, ft).
     bindE (filetableentry_destroy stale removed) (\<lambda>_. Inr ft))"

text \<open>The bodies of the loops over the paths.\<close>

definition add_path :: "bool \<Rightarrow> ('s \<Rightarrow> nat \<times> 's) \<Rightarrow> int \<Rightarrow> bool \<Rightarrow> cstring \<times> int \<times> int \<Rightarrow>
    filetable \<times> 's \<Rightarrow> (filetable \<times> 's) outcome" where
  "add_path stale rnd peer needs_data r fts = (case (r, fts) of ((path, len, mod_time), (ft, s)) \<Rightarrow>
     if len < 0 then Inr (ft, s)
     else bindE (find_entry ft path) (\<lambda>entry.
       bindE (if entry \<noteq> None then remove_entry stale ft path else Inr ft) (\<lambda>ft.
         let numChunks = nat (num_chunks_for_size len) in
         bindE (if needs_data then shuffle_queue rnd s (map int [0..<numChunks]) else Inr ([], s)) (\<lambda>(work, s).
         bindE (hashtable_add ft (Some \<lparr>fte_path = path, fte_file = None, fte_chunks = replicate numChunks [peer],
             fte_work_queue = work, fte_outstanding_requests = []\<rparr>)) (\<lambda>ft. Inr (ft, s))))))"

definition filetable_add_filesystem ::
    "bool \<Rightarrow> ('s \<Rightarrow> nat \<times> 's) \<Rightarrow> filetable \<times> 's \<Rightarrow> filesystem \<Rightarrow> int \<Rightarrow> bool \<Rightarrow> (filetable \<times> 's) outcome" where
  "filetable_add_filesystem stale rnd fts filesystem peer needs_data =
     fs_each filesystem True (add_path stale rnd peer needs_data) fts"

definition remove_path :: "bool \<Rightarrow> cstring \<times> int \<times> int \<Rightarrow> filetable \<Rightarrow> filetable outcome" where
  "remove_path stale r ft = (case r of (path, len, mod_time) \<Rightarrow>
     if len < 0 then Inr ft
     else bindE (find_entry ft path) (\<lambda>entry.
       if entry \<noteq> None then remove_entry stale ft path else Inr ft))"

definition filetable_remove_filesystem :: "bool \<Rightarrow> filetable \<Rightarrow> filesystem \<Rightarrow> filetable outcome" where
  "filetable_remove_filesystem stale ft filesystem = fs_each filesystem True (remove_path stale) ft"

definition filetable_remove_file :: "bool \<Rightarrow> filetable \<Rightarrow> cstring \<Rightarrow> filetable outcome" where
  "filetable_remove_file stale ft path =
     bindE (hashtable_remove_element ft (Some (search_key path))) (\<lambda>(removed, ft).
       if removed \<noteq> None then bindE (filetableentry_destroy stale removed) (\<lambda>_. Inr ft) else Inr ft)"

section \<open>Who has which chunk\<close>

definition filetable_get_num_chunks :: "filetable \<Rightarrow> cstring \<Rightarrow> int outcome" where
  "filetable_get_num_chunks ft path =
     bindE (find_entry ft path) (\<lambda>fte. case fte of None \<Rightarrow> Inl NullDeref | Some e \<Rightarrow> Inr (int (length (fte_chunks e))))"

definition filetable_get_peers_who_have_file_chunk :: "filetable \<Rightarrow> cstring \<Rightarrow> int \<Rightarrow> int list ptr outcome" where
  "filetable_get_peers_who_have_file_chunk ft path chunk =
     bindE (find_entry ft path) (\<lambda>fte. case fte of
       None \<Rightarrow> Inr None
     | Some e \<Rightarrow> if int (length (fte_chunks e)) \<ge> chunk then bindE (queue_at (fte_chunks e) chunk) (\<lambda>q. Inr (Some q))
         else Inr None)"

definition filetable_set_that_peer_has_file_chunk :: "filetable \<Rightarrow> cstring \<Rightarrow> int \<Rightarrow> int \<Rightarrow> filetable outcome" where
  "filetable_set_that_peer_has_file_chunk ft path peer chunkNum =
     bindE (filetable_get_peers_who_have_file_chunk ft path chunkNum) (\<lambda>chunk. case chunk of
       None \<Rightarrow> Inl AssertFail
     | Some q \<Rightarrow> if peer \<in> set q then Inr ft
         else change_entry ft path (\<lambda>e. e\<lparr>fte_chunks := (fte_chunks e)[nat chunkNum := q @ [peer]]\<rparr>))"

text \<open>The loop writes through the pointer to every entry; the table's iterator returns each once.\<close>

definition filetable_remove_peer :: "filetable \<Rightarrow> int \<Rightarrow> filetable" where
  "filetable_remove_peer ft peer_id = (case hashtableiterator_new ft of
     None \<Rightarrow> ft
   | Some hti \<Rightarrow> hashtable_poke_all (map_option (\<lambda>e. e\<lparr>fte_chunks := map (filter (\<lambda>p. p \<noteq> peer_id)) (fte_chunks e)\<rparr>)) ft)"

definition filetable_get_chunkyfile :: "filetable \<Rightarrow> cstring \<Rightarrow> chunkyfile ptr outcome" where
  "filetable_get_chunkyfile ft path =
     bindE (find_entry ft path) (\<lambda>fte. case fte of None \<Rightarrow> Inr None | Some e \<Rightarrow> Inr (fte_file e))"

definition filetable_set_chunkyfile :: "filetable \<Rightarrow> cstring \<Rightarrow> chunkyfile ptr \<Rightarrow> filetable outcome" where
  "filetable_set_chunkyfile ft path file =
     bindE (find_entry ft path) (\<lambda>fte. case fte of
       None \<Rightarrow> Inr ft
     | Some _ \<Rightarrow> change_entry ft path (\<lambda>e. e\<lparr>fte_file := file\<rparr>))"

section \<open>The callbacks meet the contract of the hash table\<close>

lemma high_bits: "(0xf0000000 :: 32 word) = push_bit 28 (mask 4)"
  by (simp add: mask_eq_exp_minus_1)

lemma pjw_step_high: "and (pjw_step p h) 0xf0000000 = 0"
proof -
  have clear: "and (xor w (xor (drop_bit 24 (and w M)) (and w M))) M = 0"
    if "M = push_bit 28 (mask 4)" for w M :: "32 word"
    by (rule bit_word_eqI) (auto simp: that bit_simps)
  show ?thesis using clear [OF high_bits] by (simp add: pjw_step_def Let_def)
qed

lemma fold_pjw_high: "and (fold pjw_step s h) 0xf0000000 = 0" if "and h 0xf0000000 = 0"
  using that pjw_step_high by (induction s arbitrary: h) auto

lemma hashPJW_nonneg: "0 \<le> hashPJW s"
proof -
  let ?h = "fold pjw_step s 0"
  have "and ?h (push_bit 28 (mask 4)) = 0" using fold_pjw_high [of 0 s] high_bits by simp
  then have "\<not> bit (and ?h (push_bit 28 (mask 4))) 31" by simp
  then have "\<not> bit ?h 31" by (simp add: bit_simps)
  then show ?thesis using bit_last_iff [of ?h] by (simp add: hashPJW_def)
qed

interpretation ft: keyed filetableentry_hash filetableentry_equals fte_path
  by unfold_locales (auto simp: filetableentry_hash_def filetableentry_equals_def hashPJW_nonneg)

section \<open>The table as a map from paths to entries\<close>

definition holds :: "filetable \<Rightarrow> (cstring \<rightharpoonup> fileentry) \<Rightarrow> bool" where
  "holds ft m \<longleftrightarrow> keyed_ok filetableentry_hash filetableentry_equals ft
     \<and> (\<forall>k. with_key fte_path ft k = (case m k of None \<Rightarrow> [] | Some e \<Rightarrow> [e]))"

lemma path_search_key [simp]: "fte_path (search_key path) = path"
  by (simp add: search_key_def)

lemma holds_new: "holds filetable_new (\<lambda>_. None)"
  by (simp add: holds_def filetable_new_def keyed_ok_new with_key_def hashtable_new_items)

lemma holds_path: "holds ft m \<Longrightarrow> m k = Some e \<Longrightarrow> fte_path e = k"
proof -
  assume "holds ft m" "m k = Some e"
  then have "e \<in> set (with_key fte_path ft k)" by (simp add: holds_def)
  then show "fte_path e = k" by (simp add: with_key_def)
qed

lemma holds_find: "holds ft m \<Longrightarrow> find_entry ft path = Inr (m path)"
  using ft.get_ok [of ft "search_key path"] by (auto simp: holds_def find_entry_def split: option.splits)

lemma distinct_count_list: "(\<And>k. count_list xs k \<le> 1) \<Longrightarrow> distinct xs"
proof (induction xs)
  case (Cons x xs)
  have "count_list xs k \<le> 1" for k using Cons.prems [of k] by (simp split: if_splits)
  moreover have "count_list xs x = 0" using Cons.prems [of x] by simp
  ultimately show ?case using Cons.IH by (simp add: count_list_0_iff)
qed simp

lemma holds_items:
  assumes "holds ft m" "x \<in> set (map the (hashtable_items ft))"
  shows "x \<in> ran m"
proof -
  have "x \<in> set (with_key fte_path ft (fte_path x))" using assms(2) by (simp add: with_key_def)
  moreover have "with_key fte_path ft (fte_path x) = (case m (fte_path x) of None \<Rightarrow> [] | Some e \<Rightarrow> [e])"
    using assms(1) by (simp add: holds_def)
  ultimately have "m (fte_path x) = Some x" by (cases "m (fte_path x)") simp_all
  then show ?thesis by (rule ranI)
qed

lemma holds_distinct:
  assumes "holds ft m"
  shows "distinct (map fte_path (map the (hashtable_items ft)))"
proof -
  let ?es = "map the (hashtable_items ft)"
  have "count_list (map fte_path ?es) k \<le> 1" for k
  proof -
    have "count_list (map fte_path ?es) k = length (with_key fte_path ft k)"
      by (simp add: with_key_def count_list_eq_length_filter filter_map o_def eq_commute)
    also have "\<dots> \<le> 1" using assms by (auto simp: holds_def split: option.splits)
    finally show ?thesis .
  qed
  then show ?thesis by (rule distinct_count_list)
qed

lemma holds_item: "holds ft m \<Longrightarrow> m k = Some e \<Longrightarrow> Some e \<in> set (hashtable_items ft)"
proof -
  assume h: "holds ft m" "m k = Some e"
  then have "e \<in> set (with_key fte_path ft k)" by (simp add: holds_def)
  then have "e \<in> set (map the (hashtable_items ft))" by (simp add: with_key_def)
  then obtain r where "r \<in> set (hashtable_items ft)" "e = the r" by auto
  with hashtable_items_some [of ft] h(1) show ?thesis by (auto simp: holds_def keyed_ok_def)
qed

lemma holds_change:
  assumes "holds ft m" "\<And>e. fte_path (g e) = fte_path e"
  shows "\<exists>ft'. change_entry ft path g = Inr ft' \<and> holds ft' (m(path := map_option g (m path)))"
proof -
  obtain ft' where "change_entry ft path g = Inr ft'" "keyed_ok filetableentry_hash filetableentry_equals ft'"
    "with_key fte_path ft' = (with_key fte_path ft)(path := map_head g (with_key fte_path ft path))"
    using ft.poke_ok [of ft g "search_key path"] assms by (auto simp: holds_def change_entry_def)
  with assms(1) show ?thesis by (auto simp: holds_def split: option.splits)
qed

lemma holds_add:
  assumes "holds ft m" "m (fte_path e) = None"
  shows "\<exists>ft'. hashtable_add ft (Some e) = Inr ft' \<and> holds ft' (m(fte_path e \<mapsto> e))"
proof -
  obtain ft' where "hashtable_add ft (Some e) = Inr ft'" "keyed_ok filetableentry_hash filetableentry_equals ft'"
    "with_key fte_path ft' = (with_key fte_path ft)(fte_path e := with_key fte_path ft (fte_path e) @ [e])"
    using ft.add_ok [of ft e] assms(1) by (auto simp: holds_def)
  with assms show ?thesis by (auto simp: holds_def split: option.splits)
qed

lemma holds_remove:
  assumes "holds ft m"
  shows "\<exists>ft'. hashtable_remove_element ft (Some (search_key path)) = Inr (m path, ft') \<and> holds ft' (m(path := None))"
proof -
  obtain ft' where "hashtable_remove_element ft (Some (search_key path)) = Inr (head_ptr (with_key fte_path ft path), ft')"
    "keyed_ok filetableentry_hash filetableentry_equals ft'"
    "with_key fte_path ft' = (with_key fte_path ft)(path := tl (with_key fte_path ft path))"
    using ft.remove_ok [of ft "search_key path"] assms by (auto simp: holds_def)
  with assms show ?thesis by (auto simp: holds_def split: option.splits)
qed

lemma holds_poke_all:
  assumes "holds ft m" "\<And>e. fte_path (g e) = fte_path e"
  shows "holds (hashtable_poke_all (map_option g) ft) (\<lambda>k. map_option g (m k))"
  using ft.poke_all_ok [of ft g] assms by (auto simp: holds_def split: option.splits)

lemma remove_entry_holds:
  "holds ft m \<Longrightarrow> m path \<noteq> None \<Longrightarrow> \<exists>ft'. remove_entry True ft path = Inr ft' \<and> holds ft' (m(path := None))"
  using holds_remove [of ft m path] by (auto simp: remove_entry_def filetableentry_destroy_def)

lemma queue_pushed: "queue_ok q \<Longrightarrow> queue_ok (fold (\<lambda>x q. queue_push q (void_of_int x)) xs q)
    \<and> queue_list (fold (\<lambda>x q. queue_push q (void_of_int x)) xs q) = queue_list q @ map void_of_int xs"
  by (induction xs arbitrary: q) auto

lemma shuffle_queue_perm: "\<exists>ys s'. shuffle_queue rnd s xs = Inr (ys, s') \<and> mset ys = mset xs"
proof -
  let ?q = "fold (\<lambda>x q. queue_push q (void_of_int x)) xs queue_new"
  have q: "queue_ok ?q" "queue_list ?q = map void_of_int xs" using queue_pushed [OF queue_new_ok, of xs] by simp_all
  then have l: "q_length ?q = length xs" using length_queue_list [of ?q] by simp
  obtain q' s' where q': "queue_shuffle rnd s ?q = Inr (q', s')"
    "queue_list q' = sattolo rnd (q_length ?q - 1) (map void_of_int xs) s"
    using queue_shuffle_list [OF q(1), of rnd s] q(2) by auto
  have "mset (queue_list q') = mset (map void_of_int xs)"
    unfolding q'(2) l using mset_sattolo [of "length xs - 1" "map void_of_int xs" rnd s] by (cases xs) simp_all
  then have "mset (map int_of_void (queue_list q')) = mset (map int_of_void (map void_of_int xs))"
    unfolding mset_map by (rule arg_cong)
  also have "map int_of_void (map void_of_int xs) = xs" by (simp add: map_idI)
  finally show ?thesis using q'(1) by (simp add: shuffle_queue_def)
qed

text \<open>The paths of the files whose length is not negative, and what adding a file leaves.\<close>

definition tracked :: "filesystem \<Rightarrow> (cstring \<times> int) set" where
  "tracked fs = {(path, len). 0 \<le> len \<and> (\<exists>t. (path, len, t) \<in> shown [] ` entries (fs_root fs))}"

definition fresh :: "int \<Rightarrow> bool \<Rightarrow> cstring \<Rightarrow> int \<Rightarrow> fileentry \<Rightarrow> bool" where
  "fresh peer needs_data path len e \<longleftrightarrow> (let n = nat (num_chunks_for_size len) in
     fte_path e = path \<and> fte_file e = None \<and> fte_chunks e = replicate n [peer] \<and> fte_outstanding_requests e = []
     \<and> mset (fte_work_queue e) = (if needs_data then mset (map int [0..<n]) else {#}))"

lemma add_one:
  assumes "holds ft m" "0 \<le> len"
  shows "\<exists>ft' s' e. add_path True rnd peer needs_data (path, len, t) (ft, s) = Inr (ft', s')
    \<and> holds ft' (m(path \<mapsto> e)) \<and> fresh peer needs_data path len e"
proof -
  let ?n = "nat (num_chunks_for_size len)"
  have "\<exists>ft1. (if m path \<noteq> None then remove_entry True ft path else Inr ft) = Inr ft1 \<and> holds ft1 (m(path := None))"
    using remove_entry_holds [OF assms(1), of path] assms(1) by (auto simp: fun_upd_idem)
  then obtain ft1 where 1: "(if m path \<noteq> None then remove_entry True ft path else Inr ft) = Inr ft1"
    "holds ft1 (m(path := None))" by blast
  obtain work s' where 2: "(if needs_data then shuffle_queue rnd s (map int [0..<?n]) else Inr ([], s)) = Inr (work, s')"
    "mset work = (if needs_data then mset (map int [0..<?n]) else {#})"
    using shuffle_queue_perm [of rnd s "map int [0..<?n]"] by (cases needs_data) (simp only: if_True, blast, simp)
  define e where "e = \<lparr>fte_path = path, fte_file = None, fte_chunks = replicate ?n [peer],
               fte_work_queue = work, fte_outstanding_requests = []\<rparr>"
  have p: "fte_path e = path" by (simp add: e_def)
  obtain ft2 where 3: "hashtable_add ft1 (Some e) = Inr ft2" "holds ft2 ((m(path := None))(path \<mapsto> e))"
    using holds_add [OF 1(2), of e] p by auto
  have "fresh peer needs_data path len e" using 2(2) by (simp add: fresh_def e_def Let_def)
  moreover have "add_path True rnd peer needs_data (path, len, t) (ft, s) = Inr (ft2, s')"
    using assms(2) 3(1) unfolding add_path_def prod.case holds_find [OF assms(1)] bindE.simps 1(1) Let_def 2(1) e_def by simp
  ultimately show ?thesis using 3(2) by auto
qed

lemma add_all:
  "holds ft m \<Longrightarrow> \<exists>ft' s' m'. foldE (add_path True rnd peer needs_data) l (ft, s) = Inr (ft', s') \<and> holds ft' m'
    \<and> (\<forall>k. (\<exists>len t. (k, len, t) \<in> set l \<and> 0 \<le> len \<and> (\<exists>e. m' k = Some e \<and> fresh peer needs_data k len e))
        \<or> (m' k = m k \<and> (\<forall>len t. (k, len, t) \<in> set l \<longrightarrow> len < 0)))"
proof (induction l arbitrary: ft m s)
  case Nil
  then show ?case by auto
next
  case (Cons x l)
  obtain path len t where x: "x = (path, len, t)" by (cases x) auto
  show ?case
  proof (cases "len < 0")
    case True
    then have "foldE (add_path True rnd peer needs_data) (x # l) (ft, s) = foldE (add_path True rnd peer needs_data) l (ft, s)"
      by (simp add: x add_path_def)
    with Cons.IH [OF Cons.prems, of s] True show ?thesis by (simp add: x) blast
  next
    case False
    then obtain ft1 s1 e where 1: "add_path True rnd peer needs_data x (ft, s) = Inr (ft1, s1)"
      "holds ft1 (m(path \<mapsto> e))" "fresh peer needs_data path len e"
      using add_one [OF Cons.prems, of len rnd peer needs_data path t s] x by auto
    obtain ft' s' m' where 2: "foldE (add_path True rnd peer needs_data) l (ft1, s1) = Inr (ft', s')" "holds ft' m'"
      "\<And>k. (\<exists>len t. (k, len, t) \<in> set l \<and> 0 \<le> len \<and> (\<exists>e. m' k = Some e \<and> fresh peer needs_data k len e))
        \<or> (m' k = (m(path \<mapsto> e)) k \<and> (\<forall>len t. (k, len, t) \<in> set l \<longrightarrow> len < 0))"
      using Cons.IH [OF 1(2), of s1] by blast
    have "(\<exists>len t. (k, len, t) \<in> set (x # l) \<and> 0 \<le> len \<and> (\<exists>e. m' k = Some e \<and> fresh peer needs_data k len e))
        \<or> (m' k = m k \<and> (\<forall>len t. (k, len, t) \<in> set (x # l) \<longrightarrow> len < 0))" for k
      using 2(3) [of k] 1(3) False x by (cases "k = path") auto
    moreover have "foldE (add_path True rnd peer needs_data) (x # l) (ft, s) = Inr (ft', s')" using 1(1) 2(1) by simp
    ultimately show ?thesis using 2(2) by blast
  qed
qed

lemma remove_all:
  "holds ft m \<Longrightarrow> \<exists>ft'. foldE (remove_path True) l ft = Inr ft'
    \<and> holds ft' (\<lambda>k. if \<exists>len t. (k, len, t) \<in> set l \<and> 0 \<le> len then None else m k)"
proof (induction l arbitrary: ft m)
  case Nil
  then show ?case by simp
next
  case (Cons x l)
  obtain path len t where x: "x = (path, len, t)" by (cases x) auto
  define m1 where "m1 = (if len < 0 then m else m(path := None))"
  have "\<exists>ft1. remove_path True x ft = Inr ft1 \<and> holds ft1 m1"
  proof (cases "len < 0 \<or> m path = None")
    case True
    then have "m1 = m" by (auto simp: m1_def)
    with True Cons.prems show ?thesis by (auto simp: holds_find [OF Cons.prems] remove_path_def x)
  next
    case False
    with remove_entry_holds [OF Cons.prems, of path] show ?thesis
      by (auto simp: holds_find [OF Cons.prems] remove_path_def x m1_def)
  qed
  then obtain ft1 where 1: "remove_path True x ft = Inr ft1" "holds ft1 m1" by blast
  obtain ft' where 2: "foldE (remove_path True) l ft1 = Inr ft'"
    "holds ft' (\<lambda>k. if \<exists>len t. (k, len, t) \<in> set l \<and> 0 \<le> len then None else m1 k)"
    using Cons.IH [OF 1(2)] by blast
  have "(\<lambda>k. if \<exists>len t. (k, len, t) \<in> set l \<and> 0 \<le> len then None else m1 k)
      = (\<lambda>k. if \<exists>len t. (k, len, t) \<in> set (x # l) \<and> 0 \<le> len then None else m k)"
    by (auto simp: x m1_def fun_eq_iff)
  with 1(1) 2 show ?case by simp
qed

lemma filetable_both:
  assumes "holds ft m"
  shows "(\<exists>ft' s' m'. filetable_add_filesystem True rnd (ft, s) fs peer needs_data = Inr (ft', s') \<and> holds ft' m'
      \<and> (\<forall>path. if path \<in> fst ` tracked fs
           then \<exists>len e. (path, len) \<in> tracked fs \<and> m' path = Some e \<and> fresh peer needs_data path len e
           else m' path = m path))
    \<and> (\<exists>ft'. filetable_remove_filesystem True ft fs = Inr ft'
      \<and> holds ft' (\<lambda>path. if path \<in> fst ` tracked fs then None else m path))"
proof (rule conjI)
  let ?l = "map (shown []) (listing True (fs_root fs))"
  have l: "(path, len) \<in> tracked fs \<longleftrightarrow> 0 \<le> len \<and> (\<exists>t. (path, len, t) \<in> set ?l)" for path len
    by (simp add: tracked_def set_listing del: shown_def)
  have not: "path \<notin> fst ` tracked fs \<longleftrightarrow> (\<forall>len t. (path, len, t) \<in> set ?l \<longrightarrow> len < 0)" for path
  proof -
    have "path \<notin> fst ` tracked fs \<longleftrightarrow> (\<forall>len. (path, len) \<notin> tracked fs)" by (auto simp: image_iff)
    also have "\<dots> \<longleftrightarrow> (\<forall>len t. (path, len, t) \<in> set ?l \<longrightarrow> len < 0)" unfolding l using not_le by blast
    finally show ?thesis .
  qed
  obtain ft' s' m' where r: "foldE (add_path True rnd peer needs_data) ?l (ft, s) = Inr (ft', s')" "holds ft' m'"
    "\<And>k. (\<exists>len t. (k, len, t) \<in> set ?l \<and> 0 \<le> len \<and> (\<exists>e. m' k = Some e \<and> fresh peer needs_data k len e))
        \<or> (m' k = m k \<and> (\<forall>len t. (k, len, t) \<in> set ?l \<longrightarrow> len < 0))"
    using add_all [OF assms, of rnd peer needs_data ?l s] by blast
  have "if path \<in> fst ` tracked fs then \<exists>len e. (path, len) \<in> tracked fs \<and> m' path = Some e \<and> fresh peer needs_data path len e
      else m' path = m path" for path
  proof (cases "path \<in> fst ` tracked fs")
    case True
    then have "\<not> (\<forall>len t. (path, len, t) \<in> set ?l \<longrightarrow> len < 0)" using not [of path] by blast
    then have "\<exists>len t. (path, len, t) \<in> set ?l \<and> 0 \<le> len \<and> (\<exists>e. m' path = Some e \<and> fresh peer needs_data path len e)"
      using r(3) [of path] by blast
    with True show ?thesis unfolding l by (simp only: if_True) blast
  next
    case False
    then have "\<forall>len t. (path, len, t) \<in> set ?l \<longrightarrow> len < 0" using not [of path] by blast
    then have "m' path = m path" using r(3) [of path] by force
    with False show ?thesis by (simp only: if_False)
  qed
  with r(1,2) show "\<exists>ft' s' m'. filetable_add_filesystem True rnd (ft, s) fs peer needs_data = Inr (ft', s') \<and> holds ft' m'
      \<and> (\<forall>path. if path \<in> fst ` tracked fs
           then \<exists>len e. (path, len) \<in> tracked fs \<and> m' path = Some e \<and> fresh peer needs_data path len e
           else m' path = m path)"
    unfolding filetable_add_filesystem_def fs_each_listing by blast
  have "(\<exists>len t. (path, len, t) \<in> set ?l \<and> 0 \<le> len) \<longleftrightarrow> path \<in> fst ` tracked fs" for path
    using not [of path] not_le by blast
  with remove_all [OF assms, of ?l] show "\<exists>ft'. filetable_remove_filesystem True ft fs = Inr ft'
      \<and> holds ft' (\<lambda>path. if path \<in> fst ` tracked fs then None else m path)"
    unfolding filetable_remove_filesystem_def fs_each_listing by simp
qed



section \<open>Jobs\<close>

text \<open>What happens to an entry: a job is asked for (\<open>rand()\<close> gives the number), a job is reported as
  done, or a chunk is put back to work.\<close>

datatype job_event = GetJob nat | JobDone int | WorkRequest int

fun job_step :: "int \<Rightarrow> job_event \<Rightarrow> int \<times> fileentry \<Rightarrow> ((int \<times> int \<times> int) option \<times> int \<times> fileentry) outcome" where
  "job_step max_pending (GetJob r) (jc, e) = filetableentry_get_job r jc e max_pending"
| "job_step max_pending (JobDone i) (jc, e) =
     Inr (None, jc, e\<lparr>fte_outstanding_requests := remove_first ((=) i) (fte_outstanding_requests e)\<rparr>)"
| "job_step max_pending (WorkRequest chunk) (jc, e) = Inr (None, jc, e\<lparr>fte_work_queue := fte_work_queue e @ [chunk]\<rparr>)"

fun job_run :: "int \<Rightarrow> job_event list \<Rightarrow> int \<times> fileentry \<Rightarrow> ((int \<times> int \<times> int) list \<times> int \<times> fileentry) outcome" where
  "job_run max_pending [] (jc, e) = Inr ([], jc, e)"
| "job_run max_pending (ev # evs) s =
     bindE (job_step max_pending ev s) (\<lambda>(job, s'). bindE (job_run max_pending evs s') (\<lambda>(jobs, s'').
       Inr ((case job of None \<Rightarrow> [] | Some j \<Rightarrow> [j]) @ jobs, s'')))"

definition requested :: "job_event list \<Rightarrow> int list" where
  "requested evs = concat (map (\<lambda>ev. case ev of WorkRequest c \<Rightarrow> [c] | _ \<Rightarrow> []) evs)"

definition jobs_ok :: "int \<Rightarrow> int \<Rightarrow> fileentry \<Rightarrow> bool" where
  "jobs_ok max_pending jc e \<longleftrightarrow> 0 < jc \<and> distinct (fte_outstanding_requests e)
     \<and> (\<forall>i \<in> set (fte_outstanding_requests e). i < jc) \<and> int (length (fte_outstanding_requests e)) \<le> max_pending"

definition has_holders :: "fileentry \<Rightarrow> int \<Rightarrow> bool" where
  "has_holders e c \<longleftrightarrow> 0 \<le> c \<and> c < int (length (fte_chunks e)) \<and> fte_chunks e ! nat c \<noteq> []"

lemma requested_simps [simp]: "requested [] = []" "requested (GetJob r # evs) = requested evs"
  "requested (JobDone i # evs) = requested evs" "requested (WorkRequest c # evs) = c # requested evs"
  by (simp_all add: requested_def)

lemma length_remove_first_le: "length (remove_first P xs) \<le> length xs"
  by (induction xs) auto

lemma distinct_remove_first: "distinct xs \<Longrightarrow> distinct (remove_first P xs)"
  using distinct_map_remove_first [of id xs P] by simp

text \<open>One request for a job hands out the first chunk of the queue, or nothing.\<close>

lemma get_job_ok:
  assumes "jobs_ok max_pending jc e" "\<forall>c \<in> set (fte_work_queue e). has_holders e c"
  shows "(filetableentry_get_job r jc e max_pending = Inr (None, jc, e)
      \<and> (fte_work_queue e = [] \<or> max_pending \<le> int (length (fte_outstanding_requests e))))
    \<or> (\<exists>c p e'. filetableentry_get_job r jc e max_pending = Inr (Some (c, p, jc), jc + 1, e')
      \<and> fte_work_queue e = c # fte_work_queue e' \<and> p \<in> set (fte_chunks e ! nat c) \<and> fte_chunks e' = fte_chunks e
      \<and> jobs_ok max_pending (jc + 1) e')"
proof (cases "int (length (fte_outstanding_requests e)) < max_pending \<and> fte_work_queue e \<noteq> []")
  case False
  have "jc \<noteq> 0" using assms(1) by (simp add: jobs_ok_def)
  with False show ?thesis
    by (cases "fte_work_queue e") (auto simp: filetableentry_get_job_def Let_def)
next
  case True
  then obtain c work where w: "fte_work_queue e = c # work" by (cases "fte_work_queue e") auto
  have jc: "jc \<noteq> 0" using assms(1) by (simp add: jobs_ok_def)
  have c: "0 \<le> c" "c < int (length (fte_chunks e))" "fte_chunks e ! nat c \<noteq> []"
    using assms(2) w by (simp_all add: has_holders_def)
  let ?p = "fte_chunks e ! nat c ! (r mod length (fte_chunks e ! nat c))"
  let ?e = "e\<lparr>fte_work_queue := work, fte_outstanding_requests := fte_outstanding_requests e @ [jc]\<rparr>"
  have "filetableentry_get_job r jc e max_pending = Inr (Some (c, ?p, jc), jc + 1, ?e)"
    using True w c jc by (simp add: filetableentry_get_job_def Let_def queue_at_def)
  moreover have "?p \<in> set (fte_chunks e ! nat c)" using c(3) by simp
  moreover have "jobs_ok max_pending (jc + 1) ?e" using assms(1) True by (auto simp: jobs_ok_def)
  ultimately show ?thesis using w by auto
qed

lemma job_run_ok:
  "jobs_ok max_pending jc e \<Longrightarrow> \<forall>c \<in> set (fte_work_queue e) \<union> set (requested evs). has_holders e c \<Longrightarrow>
    \<exists>jobs jc' e'. job_run max_pending evs (jc, e) = Inr (jobs, jc', e') \<and> jobs_ok max_pending jc' e'
      \<and> map fst jobs @ fte_work_queue e' = fte_work_queue e @ requested evs
      \<and> jc \<le> jc' \<and> map (\<lambda>j. snd (snd j)) jobs = [jc..jc' - 1] \<and> (\<forall>j \<in> set jobs. fst (snd j) \<in> set (fte_chunks e ! nat (fst j)))"
proof (induction evs arbitrary: jc e)
  case Nil
  then show ?case by simp
next
  case (Cons ev evs)
  have next_ok: "\<exists>jobs jc' e'. job_run max_pending evs (jc1, e1) = Inr (jobs, jc', e') \<and> jobs_ok max_pending jc' e'
      \<and> map fst jobs @ fte_work_queue e' = fte_work_queue e1 @ requested evs
      \<and> jc1 \<le> jc' \<and> map (\<lambda>j. snd (snd j)) jobs = [jc1..jc' - 1] \<and> (\<forall>j \<in> set jobs. fst (snd j) \<in> set (fte_chunks e ! nat (fst j)))"
    if "jobs_ok max_pending jc1 e1" "fte_chunks e1 = fte_chunks e" "set (fte_work_queue e1) \<subseteq> set (fte_work_queue e) \<union> set (requested (ev # evs))"
    for jc1 e1
  proof -
    have "has_holders e1 c" if "c \<in> set (fte_work_queue e1) \<union> set (requested evs)" for c
    proof -
      have "c \<in> set (fte_work_queue e) \<union> set (requested (ev # evs))"
        using that \<open>set (fte_work_queue e1) \<subseteq> _\<close> by (cases ev) auto
      with Cons.prems(2) \<open>fte_chunks e1 = fte_chunks e\<close> show ?thesis by (auto simp: has_holders_def)
    qed
    with Cons.IH [OF that(1)] that(2) show ?thesis by auto
  qed
  show ?case
  proof (cases ev)
    case (GetJob r)
    have "\<forall>c \<in> set (fte_work_queue e). has_holders e c" using Cons.prems(2) by simp
    from get_job_ok [OF Cons.prems(1) this, of r]
    consider "filetableentry_get_job r jc e max_pending = Inr (None, jc, e)"
      | c p e1 where "filetableentry_get_job r jc e max_pending = Inr (Some (c, p, jc), jc + 1, e1)"
        "fte_work_queue e = c # fte_work_queue e1" "p \<in> set (fte_chunks e ! nat c)"
        "fte_chunks e1 = fte_chunks e" "jobs_ok max_pending (jc + 1) e1"
      by blast
    then show ?thesis
    proof cases
      case 1
      with next_ok [OF Cons.prems(1) refl] GetJob show ?thesis by auto
    next
      case (2 c p e1)
      note s = 2(1) and w = 2(2) and p = 2(3) and e1 = 2(4,5)
      obtain jobs jc' e' where n: "job_run max_pending evs (jc + 1, e1) = Inr (jobs, jc', e')" "jobs_ok max_pending jc' e'"
        "map fst jobs @ fte_work_queue e' = fte_work_queue e1 @ requested evs"
        "jc + 1 \<le> jc'" "map (\<lambda>j. snd (snd j)) jobs = [jc + 1..jc' - 1]" "\<forall>j \<in> set jobs. fst (snd j) \<in> set (fte_chunks e ! nat (fst j))"
        using next_ok [OF e1(2,1)] w by auto
      have "jc \<le> jc' - 1" using n(4) by simp
      then have "[jc..jc' - 1] = jc # [jc + 1..jc' - 1]" by (rule upto_rec1)
      with n s w p GetJob show ?thesis by auto
    qed
  next
    case (JobDone i)
    let ?e = "e\<lparr>fte_outstanding_requests := remove_first ((=) i) (fte_outstanding_requests e)\<rparr>"
    have "jobs_ok max_pending jc ?e"
      using Cons.prems(1) length_remove_first_le [of "(=) i" "fte_outstanding_requests e"]
        set_remove_first_subset [of "(=) i" "fte_outstanding_requests e"]
      by (auto simp: jobs_ok_def distinct_remove_first)
    from next_ok [OF this] JobDone show ?thesis by auto
  next
    case (WorkRequest c)
    let ?e = "e\<lparr>fte_work_queue := fte_work_queue e @ [c]\<rparr>"
    have "jobs_ok max_pending jc ?e" using Cons.prems(1) by (simp add: jobs_ok_def)
    moreover have "set (fte_work_queue ?e) \<subseteq> set (fte_work_queue e) \<union> set (requested (ev # evs))" by (auto simp: WorkRequest)
    ultimately show ?thesis using next_ok [of jc ?e] WorkRequest by simp
  qed
qed



text \<open>C40. Two slips show in the table: asking for the holders of the chunk just past the last one passes
  the bounds check and follows a pointer no queue was ever stored in, and removing a path from the table
  reads its entry after freeing it, which faults when the allocator has reused the memory.\<close>

theorem filetable_faults:
  assumes "holds ft m" "m path = Some e"
  shows "filetable_get_peers_who_have_file_chunk ft path (int (length (fte_chunks e))) = Inl WildDeref
    \<and> filetable_get_peers_who_have_file_chunk ft path (int (length (fte_chunks e)) + 1) = Inr None
    \<and> filetable_remove_file False ft path = Inl WildDeref
    \<and> (\<exists>ft'. filetable_remove_file True ft path = Inr ft' \<and> holds ft' (m(path := None)))"
proof -
  obtain ft' where "hashtable_remove_element ft (Some (search_key path)) = Inr (Some e, ft')" "holds ft' (m(path := None))"
    using holds_remove [OF assms(1), of path] assms(2) by auto
  then show ?thesis
    by (simp add: filetable_get_peers_who_have_file_chunk_def holds_find [OF assms(1)] assms(2) queue_at_def
        filetable_remove_file_def filetableentry_destroy_def)
qed

theorem filetable_faults_witness:
  "\<exists>ft. hashtable_add filetable_new (Some \<lparr>fte_path = [97], fte_file = None, fte_chunks = [[7]],
      fte_work_queue = [], fte_outstanding_requests = []\<rparr>) = Inr ft
    \<and> filetable_get_peers_who_have_file_chunk ft [97] 1 = Inl WildDeref"
proof -
  let ?e = "\<lparr>fte_path = [97], fte_file = None, fte_chunks = [[7]], fte_work_queue = [], fte_outstanding_requests = []\<rparr> :: fileentry"
  obtain ft where ft: "hashtable_add filetable_new (Some ?e) = Inr ft" "holds ft [[97] \<mapsto> ?e]"
    using holds_add [OF holds_new, of ?e] by auto
  from filetable_faults [OF ft(2), of "[97]" ?e] ft(1) show ?thesis by simp
qed

end
