(* ===== verification/FileTabCodec.thy ===== *)
theory FileTabCodec
  imports FileTab
begin

text \<open>
  The file table as bytes, \<open>filetable_serialize\<close> and \<open>filetable_deserialize\<close> of
  \<open>utility/FileTable/FileTable.c\<close>. The parser's \<open>fuel\<close> bounds the markers it reads; the length of the
  data is enough. Serializing keeps paths and holders of chunks, not the work under way.
\<close>

section \<open>The table as bytes\<close>

definition START_TABLE :: byte where "START_TABLE = 0xFF"

definition START_ENTRY :: byte where "START_ENTRY = 0xFE"

definition START_CHUNK :: byte where "START_CHUNK = 0xFC"

definition START_ID :: byte where "START_ID = 0xFB"

definition END_CHUNK :: byte where "END_CHUNK = 0xFA"

definition END_ENTRY :: byte where "END_ENTRY = 0xF8"

definition END_TABLE :: byte where "END_TABLE = 0xF7"

definition push_chunk :: "int list \<Rightarrow> byte list \<Rightarrow> byte list" where
  "push_chunk chunk ser =
     fold (\<lambda>peer ser. push_string (ser @ [START_ID]) (print_int peer)) chunk (ser @ [START_CHUNK]) @ [END_CHUNK]"

definition push_entry :: "fileentry \<Rightarrow> byte list \<Rightarrow> byte list" where
  "push_entry entry ser =
     fold push_chunk (fte_chunks entry) (push_string (ser @ [START_ENTRY]) (fte_path entry)) @ [END_ENTRY]"

definition filetable_serialize :: "filetable \<Rightarrow> (byte list \<times> nat) outcome" where
  "filetable_serialize ft =
     bindE (case hashtableiterator_new ft of
         None \<Rightarrow> Inr [START_TABLE]
       | Some hti \<Rightarrow> hashtable_while (Suc (length (hashtable_items ft)))
           (\<lambda>entry ser. case entry of None \<Rightarrow> Inl NullDeref | Some e \<Rightarrow> Inr (push_entry e ser)) ft hti [START_TABLE])
       (\<lambda>ser. let ser = ser @ [END_TABLE] in Inr (ser, length ser))"

text \<open>
  The parser holds pointers to the entry and the chunk it is filling. The chunks and the entries it
  allocated are numbered, an entry's chunks are numbers of chunks, and \<open>fp_added\<close> are the entries
  handed to \<open>hashtable_add\<close>. Storing a NULL chunk, which crashes at its first use, stops the model at
  once.
\<close>

record ft_parser =
  fp_chunks :: "int list list"
  fp_chunk :: "nat ptr"
  fp_entries :: "(cstring \<times> nat list) list"
  fp_entry :: "nat ptr"
  fp_added :: "nat list"

fun ft_loop :: "nat \<Rightarrow> ft_parser \<Rightarrow> byte list \<Rightarrow> (ft_parser \<times> byte list) outcome" where
  "ft_loop 0 st data = Inl NoReturn"
| "ft_loop (Suc fuel) st [] = Inl OutOfBounds"
| "ft_loop (Suc fuel) st (marker # data) =
     (if marker = START_TABLE then ft_loop fuel (st\<lparr>fp_added := []\<rparr>) data
      else if marker = START_ENTRY then
        bindE (read_string data) (\<lambda>(path, data).
          ft_loop fuel (st\<lparr>fp_entries := fp_entries st @ [(path, [])], fp_entry := Some (length (fp_entries st))\<rparr>) data)
      else if marker = START_CHUNK then
        ft_loop fuel (st\<lparr>fp_chunks := fp_chunks st @ [[]], fp_chunk := Some (length (fp_chunks st))\<rparr>) data
      else if marker = START_ID then
        bindE (read_number data) (\<lambda>(peer, data). case fp_chunk st of
          None \<Rightarrow> Inl NullDeref
        | Some c \<Rightarrow> ft_loop fuel (st\<lparr>fp_chunks := (fp_chunks st)[c := fp_chunks st ! c @ [scan_d peer]]\<rparr>) (drop 1 data))
      else if marker = END_CHUNK then (case (fp_entry st, fp_chunk st) of
          (Some e, Some c) \<Rightarrow> ft_loop fuel (st\<lparr>fp_entries := (fp_entries st)
            [e := (fst (fp_entries st ! e), snd (fp_entries st ! e) @ [c])]\<rparr>) data
        | _ \<Rightarrow> Inl NullDeref)
      else if marker = END_ENTRY then (case fp_entry st of
          None \<Rightarrow> Inl NullDeref
        | Some e \<Rightarrow> ft_loop fuel (st\<lparr>fp_added := fp_added st @ [e]\<rparr>) data)
      else if marker = END_TABLE then Inr (st, data)
      else Inl AssertFail)"

definition parsed_entry :: "ft_parser \<Rightarrow> nat \<Rightarrow> fileentry" where
  "parsed_entry st e = \<lparr>fte_path = fst (fp_entries st ! e), fte_file = None,
     fte_chunks = map (\<lambda>c. fp_chunks st ! c) (snd (fp_entries st ! e)), fte_work_queue = [], fte_outstanding_requests = []\<rparr>"

definition filetable_deserialize :: "byte list \<Rightarrow> (filetable \<times> nat) outcome" where
  "filetable_deserialize data =
     bindE (cell data 0) (\<lambda>b.
     bindE (assertE (b = START_TABLE)) (\<lambda>_.
     bindE (ft_loop (Suc (length data)) \<lparr>fp_chunks = [], fp_chunk = None, fp_entries = [], fp_entry = None, fp_added = []\<rparr> data) (\<lambda>(st, rest).
     bindE (foldE (\<lambda>e ft. hashtable_add ft (Some (parsed_entry st e))) (fp_added st) filetable_new) (\<lambda>ft.
       Inr (ft, length data - length rest)))))"

section \<open>Images\<close>

definition peer_image :: "int \<Rightarrow> byte list" where
  "peer_image p = START_ID # string_bytes (print_int p)"

definition chunk_image :: "int list \<Rightarrow> byte list" where
  "chunk_image ps = START_CHUNK # concat (map peer_image ps) @ [END_CHUNK]"

definition entry_image :: "fileentry \<Rightarrow> byte list" where
  "entry_image e = START_ENTRY # string_bytes (fte_path e) @ concat (map chunk_image (fte_chunks e)) @ [END_ENTRY]"

lemma push_chunk_image: "push_chunk ps ser = ser @ chunk_image ps"
proof -
  have "fold (\<lambda>peer ser. push_string (ser @ [START_ID]) (print_int peer)) ps ser = ser @ concat (map peer_image ps)" for ser
    by (induction ps arbitrary: ser) (simp_all add: push_string_def peer_image_def string_bytes_def)
  then show ?thesis by (simp add: push_chunk_def chunk_image_def)
qed

lemma push_entry_image: "push_entry e ser = ser @ entry_image e"
proof -
  have "fold push_chunk cs ser = ser @ concat (map chunk_image cs)" for cs ser
    by (induction cs arbitrary: ser) (simp_all add: push_chunk_image)
  then show ?thesis by (simp add: push_entry_def entry_image_def push_string_def string_bytes_def)
qed

lemma serialize_items:
  assumes "holds ft m"
  shows "filetable_serialize ft = (let data = START_TABLE # concat (map entry_image (map the (hashtable_items ft))) @ [END_TABLE]
    in Inr (data, length data))"
proof -
  have ok: "hashtable_ok ft" using assms by (simp add: holds_def keyed_ok_def)
  define push where "push = (\<lambda>entry ser. case entry of None \<Rightarrow> Inl NullDeref | Some e \<Rightarrow> Inr (push_entry e ser))"
  have each: "foldE push es ser = Inr (ser @ concat (map entry_image (map the es)))" if "None \<notin> set es" for es ser
    using that
  proof (induction es arbitrary: ser)
    case Nil
    then show ?case by simp
  next
    case (Cons e es)
    then obtain x where "e = Some x" by (cases e) auto
    with Cons show ?case by (simp add: push_def push_entry_image)
  qed
  have none: "None \<notin> set (hashtable_items ft)" using hashtable_items_some [OF ok] by blast
  have "(case hashtableiterator_new ft of None \<Rightarrow> Inr [START_TABLE]
      | Some hti \<Rightarrow> hashtable_while (Suc (length (hashtable_items ft))) push ft hti [START_TABLE])
      = Inr (START_TABLE # concat (map entry_image (map the (hashtable_items ft))))"
    unfolding hashtable_loop [OF ok] using each [OF none] by simp
  then show ?thesis unfolding filetable_serialize_def push_def by (simp add: Let_def)
qed

section \<open>The parser on images\<close>

lemma marker_distinct [simp]:
  "START_ENTRY \<noteq> START_TABLE" "START_CHUNK \<noteq> START_TABLE" "START_CHUNK \<noteq> START_ENTRY"
  "START_ID \<noteq> START_TABLE" "START_ID \<noteq> START_ENTRY" "START_ID \<noteq> START_CHUNK"
  "END_CHUNK \<noteq> START_TABLE" "END_CHUNK \<noteq> START_ENTRY" "END_CHUNK \<noteq> START_CHUNK" "END_CHUNK \<noteq> START_ID"
  "END_ENTRY \<noteq> START_TABLE" "END_ENTRY \<noteq> START_ENTRY" "END_ENTRY \<noteq> START_CHUNK" "END_ENTRY \<noteq> START_ID" "END_ENTRY \<noteq> END_CHUNK"
  "END_TABLE \<noteq> START_TABLE" "END_TABLE \<noteq> START_ENTRY" "END_TABLE \<noteq> START_CHUNK" "END_TABLE \<noteq> START_ID" "END_TABLE \<noteq> END_CHUNK"
  "END_TABLE \<noteq> END_ENTRY"
  by (simp_all add: START_TABLE_def START_ENTRY_def START_CHUNK_def START_ID_def END_CHUNK_def END_ENTRY_def END_TABLE_def)

text \<open>\<open>leads fuel st data st' rest\<close>: the loop gets from one state to the other with fuel to spare.\<close>

definition leads :: "nat \<Rightarrow> ft_parser \<Rightarrow> byte list \<Rightarrow> ft_parser \<Rightarrow> byte list \<Rightarrow> bool" where
  "leads fuel st data st' rest \<longleftrightarrow> (\<exists>fuel'. length rest < fuel' \<and> ft_loop fuel st data = ft_loop fuel' st' rest)"

lemma leads_trans: "(\<And>k. length rest < k \<Longrightarrow> leads k st' rest st'' rest') \<Longrightarrow> leads fuel st data st' rest \<Longrightarrow> leads fuel st data st'' rest'"
  by (metis leads_def)

lemma leads_refl: "length rest < fuel \<Longrightarrow> leads fuel st rest st rest"
  by (auto simp: leads_def)

lemma leads_step: "length data < fuel \<Longrightarrow> length rest < length data \<Longrightarrow>
    (\<And>k. ft_loop (Suc k) st data = ft_loop k st' rest) \<Longrightarrow> leads fuel st data st' rest"
proof -
  assume a: "length data < fuel" "length rest < length data" "\<And>k. ft_loop (Suc k) st data = ft_loop k st' rest"
  then obtain k where "fuel = Suc k" by (cases fuel) auto
  with a show ?thesis unfolding leads_def by (intro exI [of _ k]) simp
qed

lemma leads_peers:
  "list_all is_int ps \<Longrightarrow> fp_chunk st = Some c \<Longrightarrow> c < length (fp_chunks st) \<Longrightarrow> length (concat (map peer_image ps) @ rest) < fuel \<Longrightarrow>
    leads fuel st (concat (map peer_image ps) @ rest) (st\<lparr>fp_chunks := (fp_chunks st)[c := fp_chunks st ! c @ ps]\<rparr>) rest"
proof (induction ps arbitrary: fuel st)
  case Nil
  then show ?case by (simp add: leads_refl)
next
  case (Cons p ps)
  let ?r = "concat (map peer_image ps) @ rest"
  let ?st = "st\<lparr>fp_chunks := (fp_chunks st)[c := fp_chunks st ! c @ [p]]\<rparr>"
  have d: "concat (map peer_image (p # ps)) @ rest = START_ID # print_int p @ 0 # ?r"
    by (simp add: peer_image_def string_bytes_def)
  have p: "scan_d p = p" using Cons.prems(1) by (simp add: scan_d_id)
  have len: "length (START_ID # print_int p @ 0 # ?r) < fuel" using Cons.prems(4) unfolding d .
  have 1: "leads fuel st (START_ID # print_int p @ 0 # ?r) ?st ?r"
  proof (rule leads_step [OF len])
    show "length ?r < length (START_ID # print_int p @ 0 # ?r)" by simp
    show "ft_loop (Suc k) st (START_ID # print_int p @ 0 # ?r) = ft_loop k ?st ?r" for k
      by (simp add: Cons.prems(2) p)
  qed
  have e: "?st\<lparr>fp_chunks := (fp_chunks ?st)[c := fp_chunks ?st ! c @ ps]\<rparr>
      = st\<lparr>fp_chunks := (fp_chunks st)[c := fp_chunks st ! c @ p # ps]\<rparr>"
    using Cons.prems(3) by simp
  have 2: "leads k ?st ?r (st\<lparr>fp_chunks := (fp_chunks st)[c := fp_chunks st ! c @ p # ps]\<rparr>) rest" if "length ?r < k" for k
    using Cons.IH [of ?st k, unfolded e] Cons.prems(1-3) that by simp
  show ?case unfolding d by (rule leads_trans [OF 2 1])
qed

lemma leads_chunk:
  assumes "list_all is_int ps" "fp_entry st = Some e" "length (chunk_image ps @ rest) < fuel"
  shows "leads fuel st (chunk_image ps @ rest) (st\<lparr>fp_chunks := fp_chunks st @ [ps], fp_chunk := Some (length (fp_chunks st)),
    fp_entries := (fp_entries st)[e := (fst (fp_entries st ! e), snd (fp_entries st ! e) @ [length (fp_chunks st)])]\<rparr>) rest"
proof -
  let ?c = "length (fp_chunks st)"
  let ?st1 = "st\<lparr>fp_chunks := fp_chunks st @ [[]], fp_chunk := Some ?c\<rparr>"
  let ?st2 = "st\<lparr>fp_chunks := fp_chunks st @ [ps], fp_chunk := Some ?c\<rparr>"
  let ?r = "END_CHUNK # rest"
  have d: "chunk_image ps @ rest = START_CHUNK # concat (map peer_image ps) @ ?r" by (simp add: chunk_image_def)
  have 1: "leads fuel st (chunk_image ps @ rest) ?st1 (concat (map peer_image ps) @ ?r)"
    by (rule leads_step [OF assms(3)]) (simp_all add: d)
  have 2: "leads k ?st1 (concat (map peer_image ps) @ ?r) ?st2 ?r" if "length (concat (map peer_image ps) @ ?r) < k" for k
  proof -
    have "?st1\<lparr>fp_chunks := (fp_chunks ?st1)[?c := fp_chunks ?st1 ! ?c @ ps]\<rparr> = ?st2" by (cases st) simp
    then show ?thesis using leads_peers [OF assms(1), of ?st1 ?c ?r k] that by (simp only:) simp
  qed
  have 3: "leads k ?st2 ?r (?st2\<lparr>fp_entries := (fp_entries st)[e := (fst (fp_entries st ! e), snd (fp_entries st ! e) @ [?c])]\<rparr>) rest"
    if "length ?r < k" for k
    by (rule leads_step [OF that]) (simp_all add: assms(2))
  show ?thesis using leads_trans [OF 3 leads_trans [OF 2 1]] by simp
qed

text \<open>The same for every fuel that is enough.\<close>

definition goes :: "ft_parser \<Rightarrow> byte list \<Rightarrow> ft_parser \<Rightarrow> byte list \<Rightarrow> bool" where
  "goes st data st' rest \<longleftrightarrow> (\<forall>fuel. length data < fuel \<longrightarrow> leads fuel st data st' rest)"

lemma goes_trans: "goes st data st' rest \<Longrightarrow> goes st' rest st'' rest' \<Longrightarrow> goes st data st'' rest'"
  using leads_trans unfolding goes_def by blast

lemma goes_refl: "goes st data st data"
  by (simp add: goes_def leads_refl)

lemma goes_step: "length rest < length data \<Longrightarrow> (\<And>k. ft_loop (Suc k) st data = ft_loop k st' rest) \<Longrightarrow> goes st data st' rest"
  by (simp add: goes_def leads_step)

lemma goes_chunks:
  "list_all (list_all is_int) cs \<Longrightarrow> fp_entry st = Some e \<Longrightarrow> e < length (fp_entries st) \<Longrightarrow>
    \<exists>st'. goes st (concat (map chunk_image cs) @ rest) st' rest \<and> fp_chunks st' = fp_chunks st @ cs
      \<and> fp_entries st' = (fp_entries st)[e := (fst (fp_entries st ! e),
          snd (fp_entries st ! e) @ [length (fp_chunks st)..<length (fp_chunks st) + length cs])]
      \<and> fp_entry st' = Some e \<and> fp_added st' = fp_added st"
proof (induction cs arbitrary: st)
  case Nil
  then show ?case using goes_refl by (intro exI [of _ st]) simp
next
  case (Cons c cs)
  let ?st = "st\<lparr>fp_chunks := fp_chunks st @ [c], fp_chunk := Some (length (fp_chunks st)),
    fp_entries := (fp_entries st)[e := (fst (fp_entries st ! e), snd (fp_entries st ! e) @ [length (fp_chunks st)])]\<rparr>"
  let ?r = "concat (map chunk_image cs) @ rest"
  have c: "list_all is_int c" using Cons.prems(1) by simp
  have 1: "goes st (chunk_image c @ ?r) ?st ?r"
    using leads_chunk [OF c Cons.prems(2)] by (simp add: goes_def)
  obtain st' where 2: "goes ?st ?r st' rest" "fp_chunks st' = fp_chunks ?st @ cs"
    "fp_entries st' = (fp_entries ?st)[e := (fst (fp_entries ?st ! e),
          snd (fp_entries ?st ! e) @ [length (fp_chunks ?st)..<length (fp_chunks ?st) + length cs])]"
    "fp_entry st' = Some e" "fp_added st' = fp_added st"
    using Cons.IH [of ?st] Cons.prems by auto
  have "goes st (concat (map chunk_image (c # cs)) @ rest) st' rest"
    using goes_trans [OF 1 2(1)] by simp
  moreover have "[length (fp_chunks st)..<length (fp_chunks st) + length (c # cs)]
      = length (fp_chunks st) # [Suc (length (fp_chunks st))..<Suc (length (fp_chunks st) + length cs)]"
    by (simp add: upt_conv_Cons del: upt_Suc)
  ultimately show ?case using 2(2-5) Cons.prems(3) by (intro exI [of _ st']) simp
qed

text \<open>What is parsed of an entry: its path and the holders of its chunks.\<close>

definition bare :: "fileentry \<Rightarrow> fileentry" where
  "bare e = e\<lparr>fte_file := None, fte_work_queue := [], fte_outstanding_requests := []\<rparr>"

lemma bare_path [simp]: "fte_path (bare e) = fte_path e" by (simp add: bare_def)

definition parsed :: "ft_parser \<Rightarrow> fileentry list \<Rightarrow> bool" where
  "parsed st es \<longleftrightarrow> fp_added st = [0..<length es] \<and> length (fp_entries st) = length es
     \<and> (\<forall>i < length es. parsed_entry st i = bare (es ! i) \<and> (\<forall>c \<in> set (snd (fp_entries st ! i)). c < length (fp_chunks st)))"

definition ok_entry :: "fileentry \<Rightarrow> bool" where
  "ok_entry e \<longleftrightarrow> is_cstring (fte_path e) \<and> list_all (list_all is_int) (fte_chunks e)"

lemma goes_entry:
  assumes "ok_entry e" "parsed st es"
  shows "\<exists>st'. goes st (entry_image e @ rest) st' rest \<and> parsed st' (es @ [e])"
proof -
  let ?n = "length es"
  let ?st1 = "st\<lparr>fp_entries := fp_entries st @ [(fte_path e, [])], fp_entry := Some (length (fp_entries st))\<rparr>"
  let ?r1 = "concat (map chunk_image (fte_chunks e)) @ END_ENTRY # rest"
  have len: "length (fp_entries st) = ?n" using assms(2) by (simp add: parsed_def)
  have "read_string (string_bytes (fte_path e) @ ?r1) = Inr (fte_path e, ?r1)"
    by (rule string_codec.dec_enc) (use assms(1) in \<open>simp add: ok_entry_def\<close>)
  then have 1: "goes st (entry_image e @ rest) ?st1 ?r1"
    by (intro goes_step) (simp_all add: entry_image_def)
  obtain st2 where 2: "goes ?st1 ?r1 st2 (END_ENTRY # rest)" "fp_chunks st2 = fp_chunks st @ fte_chunks e"
    "fp_entries st2 = fp_entries st @ [(fte_path e, [length (fp_chunks st)..<length (fp_chunks st) + length (fte_chunks e)])]"
    "fp_entry st2 = Some ?n" "fp_added st2 = fp_added st"
    using goes_chunks [of "fte_chunks e" ?st1 "length (fp_entries st)" "END_ENTRY # rest"] assms(1)
    by (auto simp: ok_entry_def simp flip: len)
  let ?st3 = "st2\<lparr>fp_added := fp_added st2 @ [?n]\<rparr>"
  have 3: "goes st2 (END_ENTRY # rest) ?st3 rest"
    by (rule goes_step) (simp_all add: 2(4))
  have "parsed ?st3 (es @ [e])"
  proof -
    have old: "parsed_entry ?st3 i = bare (es ! i) \<and> (\<forall>c \<in> set (snd (fp_entries ?st3 ! i)). c < length (fp_chunks ?st3))"
      if "i < ?n" for i
    proof -
      have p: "parsed_entry st i = bare (es ! i)" "\<forall>c \<in> set (snd (fp_entries st ! i)). c < length (fp_chunks st)"
        using assms(2) that by (auto simp: parsed_def)
      have e: "fp_entries ?st3 ! i = fp_entries st ! i" using that len 2(3) by (simp add: nth_append)
      have "map (\<lambda>c. fp_chunks ?st3 ! c) (snd (fp_entries st ! i)) = map (\<lambda>c. fp_chunks st ! c) (snd (fp_entries st ! i))"
        using p(2) 2(2) by (intro map_cong) (simp_all add: nth_append)
      then have "parsed_entry ?st3 i = parsed_entry st i" unfolding parsed_entry_def e by (simp only:)
      moreover have "\<forall>c \<in> set (snd (fp_entries st ! i)). c < length (fp_chunks ?st3)"
        using p(2) 2(2) by (auto intro: trans_less_add1)
      ultimately show ?thesis using p(1) unfolding e by simp
    qed
    have "map (\<lambda>c. fp_chunks ?st3 ! c) [length (fp_chunks st)..<length (fp_chunks st) + length (fte_chunks e)] = fte_chunks e"
      by (rule nth_equalityI) (simp_all add: 2(2))
    moreover have "fp_entries ?st3 ! ?n
        = (fte_path e, [length (fp_chunks st)..<length (fp_chunks st) + length (fte_chunks e)])"
      using len by (simp add: 2(3) flip: len)
    ultimately have new: "parsed_entry ?st3 ?n = bare e \<and> (\<forall>c \<in> set (snd (fp_entries ?st3 ! ?n)). c < length (fp_chunks ?st3))"
      by (cases e) (simp add: parsed_entry_def bare_def 2(2))
    show ?thesis
      using assms(2) 2(3,5) old new len by (auto simp: parsed_def nth_append less_Suc_eq)
  qed
  then show ?thesis using goes_trans [OF goes_trans [OF 1 2(1)] 3] by blast
qed

lemma goes_entries:
  "list_all ok_entry fs \<Longrightarrow> parsed st es \<Longrightarrow>
    \<exists>st'. goes st (concat (map entry_image fs) @ rest) st' rest \<and> parsed st' (es @ fs)"
proof (induction fs arbitrary: st es)
  case Nil
  then show ?case using goes_refl by auto
next
  case (Cons f fs)
  obtain st1 where 1: "goes st (entry_image f @ concat (map entry_image fs) @ rest) st1 (concat (map entry_image fs) @ rest)"
    "parsed st1 (es @ [f])" using goes_entry [of f st es] Cons.prems by auto
  obtain st2 where 2: "goes st1 (concat (map entry_image fs) @ rest) st2 rest" "parsed st2 ((es @ [f]) @ fs)"
    using Cons.IH [OF _ 1(2)] Cons.prems(1) by auto
  from goes_trans [OF 1(1) 2(1)] 2(2) show ?case by auto
qed

section \<open>The round trip\<close>

lemma add_bare:
  "keyed_ok filetableentry_hash filetableentry_equals ft \<Longrightarrow>
    \<exists>ft'. foldE (\<lambda>e ft. hashtable_add ft (Some (f e))) es ft = Inr ft'
      \<and> keyed_ok filetableentry_hash filetableentry_equals ft'
      \<and> (\<forall>k. with_key fte_path ft' k = with_key fte_path ft k @ filter (\<lambda>x. fte_path x = k) (map f es))"
proof (induction es arbitrary: ft)
  case Nil
  then show ?case by simp
next
  case (Cons e es)
  obtain ft1 where 1: "hashtable_add ft (Some (f e)) = Inr ft1" "keyed_ok filetableentry_hash filetableentry_equals ft1"
    "with_key fte_path ft1 = (with_key fte_path ft)(fte_path (f e) := with_key fte_path ft (fte_path (f e)) @ [f e])"
    using ft.add_ok [OF Cons.prems] by blast
  obtain ft2 where "foldE (\<lambda>e ft. hashtable_add ft (Some (f e))) es ft1 = Inr ft2"
    "keyed_ok filetableentry_hash filetableentry_equals ft2"
    "\<forall>k. with_key fte_path ft2 k = with_key fte_path ft1 k @ filter (\<lambda>x. fte_path x = k) (map f es)"
    using Cons.IH [OF 1(2)] by blast
  with 1 show ?case by auto
qed

definition ok_table :: "(cstring \<rightharpoonup> fileentry) \<Rightarrow> bool" where
  "ok_table m \<longleftrightarrow> (\<forall>e \<in> ran m. ok_entry e)"

definition table_data :: "filetable \<Rightarrow> byte list" where
  "table_data ft = START_TABLE # concat (map entry_image (map the (hashtable_items ft))) @ [END_TABLE]"

lemma serialize_table: "holds ft m \<Longrightarrow> filetable_serialize ft = Inr (table_data ft, length (table_data ft))"
  by (simp add: serialize_items table_data_def Let_def)

lemma deserialize_table:
  assumes "holds ft m" "ok_table m"
  shows "\<exists>ft'. filetable_deserialize (table_data ft @ rest) = Inr (ft', length (table_data ft))
    \<and> holds ft' (\<lambda>path. map_option bare (m path))"
proof -
  let ?es = "map the (hashtable_items ft)"
  let ?init = "\<lparr>fp_chunks = [], fp_chunk = None, fp_entries = [], fp_entry = None, fp_added = []\<rparr>"
  let ?data = "table_data ft"
  have "list_all ok_entry ?es"
    using holds_items [OF assms(1)] assms(2) by (auto simp: ok_table_def list_all_iff)
  moreover have "parsed ?init []" by (simp add: parsed_def)
  ultimately obtain st where st: "goes ?init (concat (map entry_image ?es) @ END_TABLE # rest) st (END_TABLE # rest)" "parsed st ?es"
    using goes_entries [of ?es ?init "[]" "END_TABLE # rest"] by auto
  have "goes ?init (START_TABLE # concat (map entry_image ?es) @ END_TABLE # rest) ?init (concat (map entry_image ?es) @ END_TABLE # rest)"
    by (rule goes_step) simp_all
  from goes_trans [OF this st(1)] obtain k where "length (END_TABLE # rest) < k"
    "ft_loop (Suc (length (?data @ rest))) ?init (?data @ rest) = ft_loop k st (END_TABLE # rest)"
    unfolding goes_def leads_def by (auto simp: table_data_def)
  then have loop: "ft_loop (Suc (length (?data @ rest))) ?init (?data @ rest) = Inr (st, rest)"
    by (cases k) simp_all
  have new: "keyed_ok filetableentry_hash filetableentry_equals filetable_new" using holds_new by (simp add: holds_def)
  obtain ft' where ft': "foldE (\<lambda>e ft. hashtable_add ft (Some (parsed_entry st e))) (fp_added st) filetable_new = Inr ft'"
    "keyed_ok filetableentry_hash filetableentry_equals ft'"
    "\<And>k. with_key fte_path ft' k = filter (\<lambda>x. fte_path x = k) (map (parsed_entry st) (fp_added st))"
    using add_bare [OF new, of "parsed_entry st" "fp_added st"]
    by (auto simp: with_key_def filetable_new_def hashtable_new_items)
  have added: "map (parsed_entry st) (fp_added st) = map bare ?es"
    by (rule nth_equalityI) (use st(2) in \<open>auto simp: parsed_def\<close>)
  have "with_key fte_path ft' k = map bare (with_key fte_path ft k)" for k
    unfolding ft'(3) added by (simp add: with_key_def filter_map comp_def)
  with assms(1) ft'(2) have "holds ft' (\<lambda>path. map_option bare (m path))"
    by (auto simp: holds_def split: option.splits)
  moreover have "cell (?data @ rest) 0 = Inr START_TABLE" by (simp add: cell_def table_data_def)
  ultimately show ?thesis using loop ft'(1) by (simp add: filetable_deserialize_def)
qed

text \<open>C15. What \<open>filetable_serialize\<close> writes, \<open>filetable_deserialize\<close> reads back: the same paths with the
  same holders of each chunk, in order, without the work and the jobs under way, whatever bytes follow,
  and it reports the serialized length as read. Paths hold no 0 byte and peer ids fit in an \<open>int\<close>.\<close>

theorem filetable_round_trip:
  assumes "holds ft m" "ok_table m" "filetable_serialize ft = Inr (data, len)"
  shows "\<exists>ft'. filetable_deserialize (data @ rest) = Inr (ft', len) \<and> len = length data
    \<and> holds ft' (\<lambda>path. map_option bare (m path))"
  using assms(3) serialize_table [OF assms(1)] deserialize_table [OF assms(1,2), of rest] by auto

theorem filetable_round_trip_witness:
  "\<exists>ft data len ft'. hashtable_add filetable_new (Some \<lparr>fte_path = [97], fte_file = None, fte_chunks = [[7], [-1, 8]],
      fte_work_queue = [0], fte_outstanding_requests = [5]\<rparr>) = Inr ft
    \<and> filetable_serialize ft = Inr (data, len) \<and> filetable_deserialize (data @ [1, 2]) = Inr (ft', len)
    \<and> find_entry ft' [97] = Inr (Some \<lparr>fte_path = [97], fte_file = None, fte_chunks = [[7], [-1, 8]],
        fte_work_queue = [], fte_outstanding_requests = []\<rparr>)"
proof -
  let ?e = "\<lparr>fte_path = [97], fte_file = None, fte_chunks = [[7], [-1, 8]],
      fte_work_queue = [0], fte_outstanding_requests = [5]\<rparr> :: fileentry"
  obtain ft where ft: "hashtable_add filetable_new (Some ?e) = Inr ft" "holds ft [[97] \<mapsto> ?e]"
    using holds_add [OF holds_new, of ?e] by auto
  obtain data len where s: "filetable_serialize ft = Inr (data, len)"
    using serialize_items [OF ft(2)] by (auto simp: Let_def)
  have "ok_table [[97] \<mapsto> ?e]" by (simp add: ok_table_def ok_entry_def is_cstring_def is_int_def)
  from filetable_round_trip [OF ft(2) this s, of "[1, 2]"] obtain ft' where
    "filetable_deserialize (data @ [1, 2]) = Inr (ft', len)" "holds ft' (\<lambda>path. map_option bare ([[97] \<mapsto> ?e] path))"
    by auto
  with ft(1) s holds_find [OF this(2), of "[97]"] show ?thesis by (auto simp: bare_def)
qed

end
