(* ===== verification/Wire.thy ===== *)
theory Wire
  imports PeerTab FileSysCodec
begin

text \<open>
  What tracker and clients send each other: the packets of \<open>common/packets.h\<close>, their images, and
  \<open>safe_recv\<close> of \<open>common/packets.c\<close>. A socket hands out the bytes of a stream in pieces of any size,
  and says when the other side has closed or failed; what is sent is recorded with its socket. The
  theorems hold however a stream is cut, so \<open>safe_recv\<close> puts it together again.
\<close>

section \<open>Sockets\<close>

datatype piece = Bytes "byte list" | Closed | Failed

record net =
  n_in :: "int \<Rightarrow> piece list"
  n_sent :: "(int \<times> byte list) list"
  n_closed :: "int list"

text \<open>\<open>recv\<close> gives what has arrived, at most the bytes asked for; with nothing to come it blocks.\<close>

fun recv :: "nat \<Rightarrow> piece list \<Rightarrow> (int \<times> byte list \<times> piece list) outcome" where
  "recv n [] = Inl NoReturn"
| "recv n (Closed # ps) = Inr (0, [], Closed # ps)"
| "recv n (Failed # ps) = Inr (-1, [], Failed # ps)"
| "recv n (Bytes bs # ps) =
     Inr (int (min n (length bs)), take n bs, if length bs \<le> n then ps else Bytes (drop n bs) # ps)"

lemma recv_progress: "recv n ps = Inr (ret, got, ps') \<Longrightarrow> ret \<noteq> 0 \<Longrightarrow> ret \<noteq> -1 \<Longrightarrow> 0 < length got"
  by (induction n ps rule: recv.induct) auto

text \<open>The loop has \<open>buffer\<close> so far.\<close>

function recv_loop :: "nat \<Rightarrow> byte list \<Rightarrow> piece list \<Rightarrow> (int \<times> byte list \<times> piece list) outcome" where
  "recv_loop len buffer ps =
     (if length buffer < len then
        (case recv (len - length buffer) ps of
           Inl e \<Rightarrow> Inl e
         | Inr (ret, got, ps') \<Rightarrow>
             if ret = 0 then Inr (0, buffer, ps')
             else if ret = -1 then Inr (-1, buffer, ps')
             else recv_loop len (buffer @ got) ps')
      else Inr (int len, buffer, ps))"
  by auto

termination
  by (relation "measure (\<lambda>(len, buffer, ps). len - length buffer)")
    (auto dest!: recv_progress intro!: diff_less_mono2)

declare recv_loop.simps [simp del]

definition safe_recv :: "int \<Rightarrow> int \<Rightarrow> net \<Rightarrow> (int \<times> byte list \<times> net) outcome" where
  "safe_recv fd len net =
     bindE (recv_loop (nat len) [] (n_in net fd)) (\<lambda>(ret, buffer, ps).
       Inr (ret, buffer, net\<lparr>n_in := (n_in net)(fd := ps)\<rparr>))"

text \<open>\<open>send\<close> of the first \<open>len\<close> bytes of a buffer, which arrive as a whole; on no socket it has no effect.\<close>

definition send :: "int \<Rightarrow> byte list ptr \<Rightarrow> int \<Rightarrow> net \<Rightarrow> net outcome" where
  "send fd buf len net = (if fd < 0 then Inr net else case buf of
     None \<Rightarrow> if len = 0 then Inr (net\<lparr>n_sent := n_sent net @ [(fd, [])]\<rparr>) else Inl NullDeref
   | Some bs \<Rightarrow> if 0 \<le> len \<and> len \<le> int (length bs)
       then Inr (net\<lparr>n_sent := n_sent net @ [(fd, take (nat len) bs)]\<rparr>) else Inl OutOfBounds)"

definition close_fd :: "int \<Rightarrow> net \<Rightarrow> net" where
  "close_fd fd net = net\<lparr>n_closed := n_closed net @ [fd]\<rparr>"

definition derefE :: "'a ptr \<Rightarrow> 'a outcome" where
  "derefE p = (case p of None \<Rightarrow> Inl NullDeref | Some x \<Rightarrow> Inr x)"

section \<open>Packets\<close>

datatype tracker_to_client =
  TRANSACTION_UPDATE | FILE_ACQ_UPDATE | FS_UPDATE | MASTER_STATUS | PEER_ADDED | PEER_DELETED | PEER_TABLE | MASTER_FT

datatype client_to_tracker = HEARTBEAT | CLIENT_STATE | CLIENT_UPDATE | REQUEST_MASTER | CHUNK_GOT

datatype client_to_client = CHUNK_REQUEST | CHUNK | REQ_REJECT

fun t2c_code :: "tracker_to_client \<Rightarrow> int" where
  "t2c_code TRANSACTION_UPDATE = 0"
| "t2c_code FILE_ACQ_UPDATE = 1"
| "t2c_code FS_UPDATE = 2"
| "t2c_code MASTER_STATUS = 3"
| "t2c_code PEER_ADDED = 4"
| "t2c_code PEER_DELETED = 5"
| "t2c_code PEER_TABLE = 6"
| "t2c_code MASTER_FT = 7"

fun c2t_code :: "client_to_tracker \<Rightarrow> int" where
  "c2t_code HEARTBEAT = 0"
| "c2t_code CLIENT_STATE = 1"
| "c2t_code CLIENT_UPDATE = 2"
| "c2t_code REQUEST_MASTER = 3"
| "c2t_code CHUNK_GOT = 4"

fun c2c_code :: "client_to_client \<Rightarrow> int" where
  "c2c_code CHUNK_REQUEST = 0"
| "c2c_code CHUNK = 1"
| "c2c_code REQ_REJECT = 2"

text \<open>What is on the queues between the threads: \<open>data\<close> is what the pointer of the struct refers to.\<close>

record 'd tracker_data =
  td_client_id :: int
  td_data_len :: int
  td_data :: 'd

record 'd client_data =
  cd_client_id :: int
  cd_data_len :: int
  cd_data :: 'd

record chunk_data =
  ck_job_id :: int
  ck_client_id :: int
  ck_chunk_num :: int
  ck_file_str_len :: int
  ck_file_name :: "byte list ptr"
  ck_data_len :: int
  ck_data :: "byte list ptr"

text \<open>The header of tracker and client packets: the type and the length of the data.\<close>

definition tracker_pkt :: "int \<Rightarrow> int \<Rightarrow> byte list" where
  "tracker_pkt type data_len = int_bytes type @ int_bytes data_len"

definition client_pkt :: "int \<Rightarrow> int \<Rightarrow> byte list" where
  "client_pkt type data_len = int_bytes type @ int_bytes data_len"

record c2c_pkt =
  cp_type :: int
  cp_src_client :: int
  cp_chunk_num :: int
  cp_file_str_len :: int
  cp_data_len :: int
  cp_job_id :: int

definition c2c_pkt_bytes :: "c2c_pkt \<Rightarrow> byte list" where
  "c2c_pkt_bytes p = int_bytes (cp_type p) @ int_bytes (cp_src_client p) @ int_bytes (cp_chunk_num p)
     @ int_bytes (cp_file_str_len p) @ int_bytes (cp_data_len p) @ int_bytes (cp_job_id p)"

definition c2c_pkt_of :: "byte list \<Rightarrow> c2c_pkt" where
  "c2c_pkt_of bs = \<lparr>cp_type = bytes_int bs, cp_src_client = bytes_int (drop 4 bs), cp_chunk_num = bytes_int (drop 8 bs),
     cp_file_str_len = bytes_int (drop 12 bs), cp_data_len = bytes_int (drop 16 bs), cp_job_id = bytes_int (drop 20 bs)\<rparr>"

section \<open>Streams\<close>

text \<open>The bytes that are to come before the other side closes; no piece of them is empty.\<close>

fun stream :: "piece list \<Rightarrow> byte list" where
  "stream (Bytes bs # ps) = bs @ stream ps"
| "stream _ = []"

fun well_cut :: "piece list \<Rightarrow> bool" where
  "well_cut (Bytes bs # ps) \<longleftrightarrow> bs \<noteq> [] \<and> well_cut ps"
| "well_cut _ \<longleftrightarrow> True"

definition waiting :: "net \<Rightarrow> int \<Rightarrow> byte list \<Rightarrow> bool" where
  "waiting net fd bs \<longleftrightarrow> well_cut (n_in net fd) \<and> stream (n_in net fd) = bs"

lemma recv_loop_done [simp]: "len \<le> length buffer \<Longrightarrow> recv_loop len buffer ps = Inr (int len, buffer, ps)"
  by (subst recv_loop.simps) simp

lemma recv_loop_stream:
  "well_cut ps \<Longrightarrow> stream ps = xs @ ys \<Longrightarrow> length buffer + length xs = len \<Longrightarrow>
    \<exists>ps'. recv_loop len buffer ps = Inr (int len, buffer @ xs, ps') \<and> well_cut ps' \<and> stream ps' = ys"
proof (induction ps arbitrary: buffer xs)
  case Nil
  then show ?case by simp
next
  case (Cons p ps)
  show ?case
  proof (cases "xs = []")
    case True
    with Cons.prems show ?thesis by (intro exI [of _ "p # ps"]) simp
  next
    case False
    then obtain bs where p: "p = Bytes bs" "bs \<noteq> []" "well_cut ps" "bs @ stream ps = xs @ ys"
      using Cons.prems(1,2) by (cases p) auto
    have step: "recv_loop len buffer (p # ps) = recv_loop len (buffer @ take (length xs) bs)
        (if length bs \<le> length xs then ps else Bytes (drop (length xs) bs) # ps)"
      using p(1,2) False Cons.prems(3) by (subst recv_loop.simps) (auto simp: min_def)
    show ?thesis
    proof (cases "length bs \<le> length xs")
      case True
      then have "xs = bs @ drop (length bs) xs" "stream ps = drop (length bs) xs @ ys"
        using p(4) by (auto simp: append_eq_append_conv_if) (metis append_take_drop_id)
      with Cons.IH [OF p(3), of "drop (length bs) xs" "buffer @ bs"] Cons.prems(3) True step
      obtain ps' where "recv_loop len buffer (p # ps) = Inr (int len, (buffer @ bs) @ drop (length bs) xs, ps')"
        "well_cut ps'" "stream ps' = ys" by auto
      with \<open>xs = bs @ drop (length bs) xs\<close> show ?thesis by (metis append.assoc)
    next
      case False
      then have "take (length xs) bs = xs" "drop (length xs) bs @ stream ps = ys"
        using p(4) by (auto simp: append_eq_append_conv_if)
      with step False Cons.prems(3) p(3) show ?thesis
        by (intro exI [of _ "Bytes (drop (length xs) bs) # ps"]) simp
    qed
  qed
qed

text \<open>However the stream is cut, \<open>safe_recv\<close> returns the next bytes of it.\<close>

lemma safe_recv_ok:
  assumes "waiting net fd (xs @ ys)" "len = int (length xs)"
  shows "\<exists>net'. safe_recv fd len net = Inr (len, xs, net') \<and> waiting net' fd ys
    \<and> n_sent net' = n_sent net \<and> n_closed net' = n_closed net"
proof -
  obtain ps' where "recv_loop (length xs) [] (n_in net fd) = Inr (len, xs, ps')" "well_cut ps'" "stream ps' = ys"
    using recv_loop_stream [of "n_in net fd" xs ys "[]" "length xs"] assms by (auto simp: waiting_def)
  with assms(2) show ?thesis by (simp add: safe_recv_def waiting_def)
qed

text \<open>A connection that ends before what was asked for is complete gives 0 or \<open>-1\<close>, never the length.\<close>

fun ended :: "piece list \<Rightarrow> bool" where
  "ended (Bytes bs # ps) \<longleftrightarrow> ended ps"
| "ended (p # ps) \<longleftrightarrow> True"
| "ended [] \<longleftrightarrow> False"

lemma recv_loop_short:
  "well_cut ps \<Longrightarrow> ended ps \<Longrightarrow> length buffer + length (stream ps) < len \<Longrightarrow>
    \<exists>ret ps'. recv_loop len buffer ps = Inr (ret, buffer @ stream ps, ps') \<and> (ret = 0 \<or> ret = -1)"
proof (induction ps arbitrary: buffer)
  case Nil
  then show ?case by simp
next
  case (Cons p ps)
  show ?case
  proof (cases p)
    case (Bytes bs)
    with Cons.prems have "recv_loop len buffer (p # ps) = recv_loop len (buffer @ bs) ps"
      by (subst recv_loop.simps) (auto simp: min_def)
    with Cons.IH [of "buffer @ bs"] Cons.prems Bytes show ?thesis by simp
  qed (use Cons.prems in \<open>subst recv_loop.simps, simp\<close>)+
qed

lemma header_bytes:
  assumes "is_int type" "is_int len"
  shows "bytes_int (int_bytes type @ int_bytes len) = type" "bytes_int (drop 4 (int_bytes type @ int_bytes len)) = len"
  using assms by simp_all

lemma c2c_pkt_of_bytes:
  assumes "is_int (cp_type p)" "is_int (cp_src_client p)" "is_int (cp_chunk_num p)" "is_int (cp_file_str_len p)"
    "is_int (cp_data_len p)" "is_int (cp_job_id p)"
  shows "c2c_pkt_of (c2c_pkt_bytes p) = p" "length (c2c_pkt_bytes p) = 24"
  using assms by (simp_all add: c2c_pkt_of_def c2c_pkt_bytes_def)

text \<open>Going through a queue until it is empty or the body returns from the function.\<close>

fun drain :: "('i \<Rightarrow> 's \<Rightarrow> (bool \<times> 's) outcome) \<Rightarrow> 'i list \<Rightarrow> 's \<Rightarrow> ('i list \<times> 's) outcome" where
  "drain f [] s = Inr ([], s)"
| "drain f (item # q) s = bindE (f item s) (\<lambda>(go, s). if go then drain f q s else Inr (q, s))"

text \<open>\<open>(int)(long)asyncqueue_pop(q)\<close> on a queue of numbers: 0 when it is empty.\<close>

definition pop_int :: "int list \<Rightarrow> int \<times> int list" where
  "pop_int q = (case q of [] \<Rightarrow> (0, []) | i # q \<Rightarrow> (i, q))"

text \<open>\<open>while (f() > 0)\<close> over what a receiving function gives; \<open>fuel\<close> bounds the rounds.\<close>

fun collect :: "nat \<Rightarrow> ('s \<Rightarrow> ('r option \<times> 's) outcome) \<Rightarrow> 's \<Rightarrow> ('r list \<times> 's) outcome" where
  "collect 0 f s = Inl NoReturn"
| "collect (Suc fuel) f s = bindE (f s) (\<lambda>(r, s). case r of
     None \<Rightarrow> Inr ([], s)
   | Some x \<Rightarrow> bindE (collect fuel f s) (\<lambda>(xs, s). Inr (x # xs, s)))"

text \<open>The same loop with a body that acts on what is received.\<close>

fun recv_while :: "nat \<Rightarrow> ('s \<Rightarrow> ('r option \<times> 's) outcome) \<Rightarrow> ('r \<Rightarrow> 's \<Rightarrow> 's outcome) \<Rightarrow> 's \<Rightarrow> 's outcome" where
  "recv_while 0 f act s = Inl NoReturn"
| "recv_while (Suc fuel) f act s = bindE (f s) (\<lambda>(r, s). case r of
     None \<Rightarrow> Inr s
   | Some x \<Rightarrow> bindE (act x s) (recv_while fuel f act))"

text \<open>A queue \<open>q\<close> of the state holds the images \<open>h u\<close>; \<open>f\<close> takes the first and answers \<open>g u\<close>.\<close>

lemma collect_map:
  assumes "\<And>s. q s = [] \<Longrightarrow> f s = Inr (None, s)"
    and "\<And>s u xs. q s = h u # xs \<Longrightarrow> P u \<Longrightarrow> \<exists>s'. f s = Inr (Some (g u), s') \<and> q s' = xs"
  shows "list_all P us \<Longrightarrow> q s = map h us \<Longrightarrow> length us < fuel \<Longrightarrow> \<exists>s'. collect fuel f s = Inr (map g us, s') \<and> q s' = []"
proof (induction us arbitrary: s fuel)
  case Nil
  then obtain k where "fuel = Suc k" by (cases fuel) auto
  with assms(1) Nil show ?case by simp
next
  case (Cons u us)
  then obtain k where k: "fuel = Suc k" "length us < k" by (cases fuel) auto
  obtain s1 where 1: "f s = Inr (Some (g u), s1)" "q s1 = map h us"
    using assms(2) [of s u "map h us"] Cons.prems by auto
  obtain s' where "collect k f s1 = Inr (map g us, s')" "q s' = []"
    using Cons.IH [OF _ 1(2) k(2)] Cons.prems(1) by auto
  with 1(1) k(1) show ?case by simp
qed

text \<open>From \<open>limits.h\<close>.\<close>

definition PATH_MAX :: nat where "PATH_MAX = 4096"

text \<open>The bytes sent on a socket.\<close>

definition sent_to :: "int \<Rightarrow> net \<Rightarrow> byte list" where
  "sent_to fd net = concat (map snd (filter (\<lambda>s. fst s = fd) (n_sent net)))"

lemma send_ok:
  "0 \<le> fd \<Longrightarrow> n = int (length bs) \<Longrightarrow>
    send fd (Some bs) n net = Inr (net\<lparr>n_sent := n_sent net @ [(fd, bs)]\<rparr>)"
  by (simp add: send_def)

lemma sent_to_upd [simp]:
  "sent_to fd (net\<lparr>n_sent := n_sent net @ ps\<rparr>) = sent_to fd net @ concat (map snd (filter (\<lambda>s. fst s = fd) ps))"
  by (simp add: sent_to_def)

lemma sent_to_in [simp]: "sent_to fd (net\<lparr>n_in := f\<rparr>) = sent_to fd net"
  by (simp add: sent_to_def)

end
