(* ===== verification/TrackerNet.thy ===== *)
theory TrackerNet
  imports Wire FileTabCodec
begin

text \<open>
  The tracker's network thread, \<open>tracker/network_tracker.c\<close>: queues to and from the logic, messages
  from clients, the queues it sends out and the check that clients are alive. The thread block is never
  NULL and its queues are the lists \<open>AsyncQ\<close> shows them to be. \<open>select\<close>, \<open>accept\<close> and \<open>time\<close>
  are arguments; \<open>pthread_create\<close>, the set-up of the listening socket and printing are left out.
\<close>

section \<open>State\<close>

text \<open>
  The seven queues to the logic and the seven from it, by their index names. Of those that carry a
  \<open>void*\<close>, the ones of a struct have its type and the ones of a client number are \<open>int\<close>s.
\<close>

record tnt =
  CLT_2_TKR_CUR_STATE :: "filesystem client_data list"
  CLT_2_TKR_FILE_UPDATE :: "byte list ptr client_data list"
  CLT_2_TKR_NEW_CLIENT :: "int list"
  CLT_2_TKR_REMOVE_CLIENT :: "int list"
  CLT_2_TKR_CLIENT_GOT :: "byte list ptr client_data list"
  CLT_2_TKR_CLIENT_GET_FAILED :: "int list"
  CLT_2_TKR_CLIENT_REQ_MASTER :: "int list"
  TKR_2_CLT_TXN_UPDATE :: "byte list ptr tracker_data list"
  TKR_2_CLT_FILE_ACQ :: "byte list ptr tracker_data list"
  TKR_2_CLT_FS_UPDATE :: "byte list ptr tracker_data list"
  TKR_2_CLT_ADD_PEER :: "int tracker_data list"
  TKR_2_CLT_REMOVE_PEER :: "int tracker_data list"
  TKR_2_CLT_SEND_MASTER :: "byte list ptr tracker_data list"
  TKR_2_CLT_SEND_MASTER_FT :: "byte list ptr tracker_data list"
  listening_sockfd :: int
  t_peer_table :: "peer_table ptr"
  t_descriptors_with_data :: "int list"
  t_net :: net

definition INIT_CLIENT_NUM :: int where "INIT_CLIENT_NUM = 10"

definition DIASTOLE :: int where "DIASTOLE = 10"

definition StartTrackerNetwork :: "net \<Rightarrow> tnt" where
  "StartTrackerNetwork net = \<lparr>CLT_2_TKR_CUR_STATE = [], CLT_2_TKR_FILE_UPDATE = [], CLT_2_TKR_NEW_CLIENT = [],
     CLT_2_TKR_REMOVE_CLIENT = [], CLT_2_TKR_CLIENT_GOT = [], CLT_2_TKR_CLIENT_GET_FAILED = [],
     CLT_2_TKR_CLIENT_REQ_MASTER = [], TKR_2_CLT_TXN_UPDATE = [], TKR_2_CLT_FILE_ACQ = [], TKR_2_CLT_FS_UPDATE = [],
     TKR_2_CLT_ADD_PEER = [], TKR_2_CLT_REMOVE_PEER = [], TKR_2_CLT_SEND_MASTER = [], TKR_2_CLT_SEND_MASTER_FT = [],
     listening_sockfd = 0, t_peer_table = init_peer_table INIT_CLIENT_NUM, t_descriptors_with_data = [], t_net = net\<rparr>"

text \<open>The queues and the table are freed; what is left is which sockets are closed.\<close>

definition EndTrackerNetwork :: "tnt \<Rightarrow> net outcome" where
  "EndTrackerNetwork tnt =
     bindE (derefE (t_peer_table tnt)) (\<lambda>pt.
     bindE (fold_peers (\<lambda>p net. Inr (if p_socketfd p > 0 then close_fd (p_socketfd p) net else net))
       (pt_list pt) (close_fd (listening_sockfd tnt) (t_net tnt))) (\<lambda>net.
     bindE (destroy_table (Some pt)) (\<lambda>_. Inr net)))"

section \<open>What the logic receives\<close>

text \<open>The results are the return value, what the pointer arguments are filled with, and the state;
  \<open>None\<close> stands for the return value \<open>-1\<close> with nothing filled in.\<close>

definition receive_client_state :: "tnt \<Rightarrow> (filesystem \<times> int) option \<times> tnt" where
  "receive_client_state tnt = (case CLT_2_TKR_CUR_STATE tnt of
     [] \<Rightarrow> (None, tnt)
   | data_pkt # q \<Rightarrow> (Some (cd_data data_pkt, cd_client_id data_pkt), tnt\<lparr>CLT_2_TKR_CUR_STATE := q\<rparr>))"

text \<open>\<open>memmove\<close> of \<open>n\<close> bytes into a buffer; a length below the 4 bytes of the chunk number wraps around.\<close>

definition move_into :: "byte list \<Rightarrow> byte list \<Rightarrow> int \<Rightarrow> byte list outcome" where
  "move_into dest source n =
     (if 0 \<le> n \<and> n \<le> int (length source) \<and> n \<le> int (length dest)
      then Inr (take (nat n) source @ drop (nat n) dest) else Inl OutOfBounds)"

text \<open>\<open>path\<close> is the buffer of the caller; result: path, chunk and client.\<close>

definition receive_client_got :: "tnt \<Rightarrow> byte list \<Rightarrow> ((byte list \<times> int \<times> int) option \<times> tnt) outcome" where
  "receive_client_got tnt path = (case CLT_2_TKR_CLIENT_GOT tnt of
     [] \<Rightarrow> Inr (None, tnt)
   | data_pkt # q \<Rightarrow>
       bindE (derefE (cd_data data_pkt)) (\<lambda>data.
       bindE (int_decode data) (\<lambda>(chunkNum, rest).
       bindE (move_into path rest (cd_data_len data_pkt - 4)) (\<lambda>path.
         Inr (Some (path, chunkNum, cd_client_id data_pkt), tnt\<lparr>CLT_2_TKR_CLIENT_GOT := q\<rparr>)))))"

text \<open>Result: the return value, then client, additions and deletions.\<close>

definition receive_client_update :: "tnt \<Rightarrow> ((int \<times> int \<times> filesystem \<times> filesystem) option \<times> tnt) outcome" where
  "receive_client_update tnt = (case CLT_2_TKR_FILE_UPDATE tnt of
     [] \<Rightarrow> Inr (None, tnt)
   | queue_item # q \<Rightarrow>
       bindE (derefE (cd_data queue_item)) (\<lambda>data.
       bindE (filesystem_deserialize data) (\<lambda>(additions, additions_length).
       bindE (filesystem_deserialize (drop additions_length data)) (\<lambda>(deletions, deletions_length).
         Inr (if additions_length > 0
           then Some (int additions_length + int deletions_length, cd_client_id queue_item, additions, deletions) else None,
           tnt\<lparr>CLT_2_TKR_FILE_UPDATE := q\<rparr>)))))"

definition receive_new_client :: "tnt \<Rightarrow> int \<times> tnt" where
  "receive_new_client tnt = (let (i, q) = pop_int (CLT_2_TKR_NEW_CLIENT tnt)
     in (if i > 0 then i else -1, tnt\<lparr>CLT_2_TKR_NEW_CLIENT := q\<rparr>))"

definition receive_lost_client :: "tnt \<Rightarrow> int \<times> tnt" where
  "receive_lost_client tnt = (let (i, q) = pop_int (CLT_2_TKR_REMOVE_CLIENT tnt)
     in (if i > 0 then i else -1, tnt\<lparr>CLT_2_TKR_REMOVE_CLIENT := q\<rparr>))"

definition receive_master_request :: "tnt \<Rightarrow> int \<times> tnt" where
  "receive_master_request tnt = (let (i, q) = pop_int (CLT_2_TKR_CLIENT_REQ_MASTER tnt)
     in (if i > 0 then i else -1, tnt\<lparr>CLT_2_TKR_CLIENT_REQ_MASTER := q\<rparr>))"

section \<open>What the logic sends\<close>

definition send_transaction_update :: "tnt \<Rightarrow> filesystem ptr \<Rightarrow> filesystem ptr \<Rightarrow> int \<Rightarrow> int" where
  "send_transaction_update tnt additions deletions clientid = -1"

definition send_got_chunk_update :: "tnt \<Rightarrow> int \<Rightarrow> int \<Rightarrow> cstring ptr \<Rightarrow> int \<Rightarrow> (int \<times> tnt) outcome" where
  "send_got_chunk_update tnt dest_id got_id filename chunk_num = (case filename of
     None \<Rightarrow> Inr (-1, tnt)
   | Some name \<Rightarrow> bindE (get_peer_by_id (t_peer_table tnt) dest_id) (\<lambda>client. case client of
       None \<Rightarrow> Inr (-1, tnt)
     | Some _ \<Rightarrow>
         let data = int_bytes chunk_num @ int_bytes got_id @ string_bytes name;
             queue_item = \<lparr>td_client_id = dest_id, td_data_len = int (length name) + 1 + 4 + 4, td_data = Some data\<rparr>
         in Inr (1, tnt\<lparr>TKR_2_CLT_FILE_ACQ := TKR_2_CLT_FILE_ACQ tnt @ [queue_item]\<rparr>)))"

definition send_FS_update :: "tnt \<Rightarrow> int \<Rightarrow> int \<Rightarrow> filesystem ptr \<Rightarrow> filesystem ptr \<Rightarrow> (int \<times> tnt) outcome" where
  "send_FS_update tnt destination_client originator_client additions deletions = (case (additions, deletions) of
     (Some adds, Some dels) \<Rightarrow> bindE (get_peer_by_id (t_peer_table tnt) destination_client) (\<lambda>client. case client of
         None \<Rightarrow> Inr (-1, tnt)
       | Some _ \<Rightarrow>
           let (buf1, length1) = filesystem_serialize adds; (buf2, length2) = filesystem_serialize dels;
               queue_item = \<lparr>td_client_id = destination_client, td_data_len = int length1 + int length2 + 4,
                 td_data = Some (buf1 @ buf2 @ int_bytes originator_client)\<rparr>
           in Inr (int length1 + int length2, tnt\<lparr>TKR_2_CLT_FS_UPDATE := TKR_2_CLT_FS_UPDATE tnt @ [queue_item]\<rparr>))
   | _ \<Rightarrow> Inr (-1, tnt))"

definition send_peer_added :: "tnt \<Rightarrow> int \<Rightarrow> int \<Rightarrow> int \<times> tnt" where
  "send_peer_added tnt destination_client_id new_client_id =
     (1, tnt\<lparr>TKR_2_CLT_ADD_PEER := TKR_2_CLT_ADD_PEER tnt @
       [\<lparr>td_client_id = destination_client_id, td_data_len = 0, td_data = new_client_id\<rparr>]\<rparr>)"

definition send_peer_removed :: "tnt \<Rightarrow> int \<Rightarrow> int \<Rightarrow> int \<times> tnt" where
  "send_peer_removed tnt destination_client_id removed_client_id =
     (1, tnt\<lparr>TKR_2_CLT_REMOVE_PEER := TKR_2_CLT_REMOVE_PEER tnt @
       [\<lparr>td_client_id = destination_client_id, td_data_len = 0, td_data = removed_client_id\<rparr>]\<rparr>)"

definition send_master :: "tnt \<Rightarrow> int \<Rightarrow> filesystem ptr \<Rightarrow> int \<times> tnt" where
  "send_master tnt client_id fs = (case fs of
     None \<Rightarrow> (-1, tnt)
   | Some fs \<Rightarrow> let (data, data_len) = filesystem_serialize fs
       in (1, tnt\<lparr>TKR_2_CLT_SEND_MASTER := TKR_2_CLT_SEND_MASTER tnt @
         [\<lparr>td_client_id = client_id, td_data_len = int data_len, td_data = Some data\<rparr>]\<rparr>))"

definition send_master_filetable :: "tnt \<Rightarrow> int \<Rightarrow> filetable ptr \<Rightarrow> (int \<times> tnt) outcome" where
  "send_master_filetable tnt client_id ft = (case ft of
     None \<Rightarrow> Inr (-1, tnt)
   | Some ft \<Rightarrow> bindE (get_peer_by_id (t_peer_table tnt) client_id) (\<lambda>client. case client of
       None \<Rightarrow> Inr (-1, tnt)
     | Some _ \<Rightarrow> bindE (filetable_serialize ft) (\<lambda>(data, data_len).
         if data_len < 1 then Inr (-1, tnt)
         else Inr (1, tnt\<lparr>TKR_2_CLT_SEND_MASTER_FT := TKR_2_CLT_SEND_MASTER_FT tnt @
           [\<lparr>td_client_id = client_id, td_data_len = int data_len, td_data = Some data\<rparr>]\<rparr>))))"

section \<open>What the network tells the logic\<close>

definition notify_client_status :: "tnt \<Rightarrow> filesystem client_data \<Rightarrow> tnt" where
  "notify_client_status tnt data = tnt\<lparr>CLT_2_TKR_CUR_STATE := CLT_2_TKR_CUR_STATE tnt @ [data]\<rparr>"

definition notify_client_update :: "tnt \<Rightarrow> byte list ptr client_data \<Rightarrow> tnt" where
  "notify_client_update tnt queue_item = tnt\<lparr>CLT_2_TKR_FILE_UPDATE := CLT_2_TKR_FILE_UPDATE tnt @ [queue_item]\<rparr>"

definition notify_new_client :: "tnt \<Rightarrow> peer \<Rightarrow> tnt" where
  "notify_new_client tnt new_client = tnt\<lparr>CLT_2_TKR_NEW_CLIENT := CLT_2_TKR_NEW_CLIENT tnt @ [p_id new_client]\<rparr>"

definition notify_client_lost :: "tnt \<Rightarrow> peer \<Rightarrow> tnt" where
  "notify_client_lost tnt lost_client =
     tnt\<lparr>CLT_2_TKR_REMOVE_CLIENT := CLT_2_TKR_REMOVE_CLIENT tnt @ [p_id lost_client]\<rparr>"

definition notify_client_lost_by_id :: "tnt \<Rightarrow> int \<Rightarrow> tnt" where
  "notify_client_lost_by_id tnt lost_client_id =
     tnt\<lparr>CLT_2_TKR_REMOVE_CLIENT := CLT_2_TKR_REMOVE_CLIENT tnt @ [lost_client_id]\<rparr>"

definition notify_client_got :: "tnt \<Rightarrow> byte list ptr client_data \<Rightarrow> tnt" where
  "notify_client_got tnt queue_item = tnt\<lparr>CLT_2_TKR_CLIENT_GOT := CLT_2_TKR_CLIENT_GOT tnt @ [queue_item]\<rparr>"

definition notify_master_req :: "tnt \<Rightarrow> int \<Rightarrow> tnt" where
  "notify_master_req tnt client_id =
     (if client_id < 1 then tnt
      else tnt\<lparr>CLT_2_TKR_CLIENT_REQ_MASTER := CLT_2_TKR_CLIENT_REQ_MASTER tnt @ [client_id]\<rparr>)"

section \<open>Packets\<close>

definition send_client_message :: "tnt \<Rightarrow> byte list ptr tracker_data \<Rightarrow> tracker_to_client \<Rightarrow> (int \<times> tnt) outcome" where
  "send_client_message tnt data type =
     bindE (get_peer_by_id (t_peer_table tnt) (td_client_id data)) (\<lambda>client. case client of
       None \<Rightarrow> Inr (-1, tnt)
     | Some p \<Rightarrow>
         if p_socketfd p < 0 then Inr (-1, tnt)
         else bindE (send (p_socketfd p) (Some (tracker_pkt (t2c_code type) (td_data_len data))) 8 (t_net tnt)) (\<lambda>net.
           bindE (send (p_socketfd p) (td_data data) (td_data_len data) net) (\<lambda>net. Inr (1, tnt\<lparr>t_net := net\<rparr>))))"

text \<open>Writing through the pointer to the first peer that satisfies \<open>P\<close>.\<close>

definition poke_peer :: "(peer \<Rightarrow> bool) \<Rightarrow> (peer \<Rightarrow> peer) \<Rightarrow> peer_table ptr \<Rightarrow> peer_table ptr outcome" where
  "poke_peer P g table =
     bindE (derefE table) (\<lambda>t.
     bindE (first_peer P (pt_list t)) (\<lambda>r. case r of
       None \<Rightarrow> Inr table
     | Some (i, p) \<Rightarrow> Inr (Some (t\<lparr>pt_list := (pt_list t)[i := Used (g p)]\<rparr>))))"

text \<open>The \<open>switch\<close> on the type of a message: \<open>buf\<close> is NULL when it has no data.\<close>

definition client_msg :: "int \<Rightarrow> int \<Rightarrow> int \<Rightarrow> byte list ptr \<Rightarrow> peer \<Rightarrow> tnt \<Rightarrow> (int \<times> tnt) outcome" where
  "client_msg now type data_len buf client tnt =
     (if type = c2t_code HEARTBEAT then
        bindE (poke_peer (\<lambda>p. p_socketfd p = p_socketfd client) (\<lambda>p. p\<lparr>p_time_last_alive := now\<rparr>) (t_peer_table tnt)) (\<lambda>table.
          Inr (1, tnt\<lparr>t_peer_table := table\<rparr>))
      else if type = c2t_code CHUNK_GOT then
        Inr (1, notify_client_got tnt \<lparr>cd_client_id = p_id client, cd_data_len = data_len, cd_data = buf\<rparr>)
      else if type = c2t_code CLIENT_STATE then
        bindE (derefE buf) (\<lambda>data. bindE (filesystem_deserialize data) (\<lambda>(fs, len).
          Inr (1, notify_client_status tnt \<lparr>cd_client_id = p_id client, cd_data_len = int len, cd_data = fs\<rparr>)))
      else if type = c2t_code CLIENT_UPDATE then
        Inr (1, notify_client_update tnt \<lparr>cd_client_id = p_id client, cd_data_len = data_len, cd_data = buf\<rparr>)
      else if type = c2t_code REQUEST_MASTER then Inr (1, notify_master_req tnt (p_id client))
      else Inr (-1, tnt))"

definition handle_client_msg :: "int \<Rightarrow> int \<Rightarrow> tnt \<Rightarrow> (int \<times> tnt) outcome" where
  "handle_client_msg now sockfd tnt =
     bindE (get_peer_by_socket (t_peer_table tnt) sockfd) (\<lambda>client. case client of
       None \<Rightarrow> Inr (-1, tnt)
     | Some client \<Rightarrow>
         bindE (safe_recv sockfd 8 (t_net tnt)) (\<lambda>(ret, pkt, net).
           if ret \<noteq> 8 then Inr (-1, tnt\<lparr>t_net := net\<rparr>)
           else let type = bytes_int pkt; data_len = bytes_int (drop 4 pkt) in
             if data_len > 0 then
               bindE (safe_recv sockfd data_len net) (\<lambda>(ret, buf, net).
                 if ret < data_len then Inr (-1, tnt\<lparr>t_net := net\<rparr>)
                 else client_msg now type data_len (Some buf) client (tnt\<lparr>t_net := net\<rparr>))
             else client_msg now type data_len None client (tnt\<lparr>t_net := net\<rparr>)))"

text \<open>\<open>for (i = 0; i < size; i++)\<close> over the slots as they are when the loop gets to them.\<close>

definition each_slot :: "(peer \<Rightarrow> tnt \<Rightarrow> tnt outcome) \<Rightarrow> tnt \<Rightarrow> tnt outcome" where
  "each_slot f tnt = bindE (derefE (t_peer_table tnt)) (\<lambda>pt.
     foldE (\<lambda>i tnt. bindE (derefE (t_peer_table tnt)) (\<lambda>pt. case pt_list pt ! i of
         Uninit \<Rightarrow> Inl WildDeref
       | Free \<Rightarrow> Inr tnt
       | Used p \<Rightarrow> f p tnt)) [0..<length (pt_list pt)] tnt)"

definition check_liveliness :: "int \<Rightarrow> tnt \<Rightarrow> tnt outcome" where
  "check_liveliness current_time tnt = each_slot (\<lambda>p tnt.
     if p_time_last_alive p - current_time > DIASTOLE then
       let tnt = notify_client_lost tnt p
       in bindE (delete_peer (t_peer_table tnt) (p_id p)) (\<lambda>table. Inr (tnt\<lparr>t_peer_table := table\<rparr>))
     else Inr tnt) tnt"

definition send_peer_table_to_client :: "tnt \<Rightarrow> int \<Rightarrow> tnt outcome" where
  "send_peer_table_to_client tnt new_client_fd =
     (if new_client_fd < 0 then Inr tnt
      else bindE (serialize_peer_table (t_peer_table tnt)) (\<lambda>(buf, data_len).
        if buf = None then Inr tnt
        else bindE (send new_client_fd (Some (tracker_pkt (t2c_code PEER_TABLE) (int data_len))) 8 (t_net tnt)) (\<lambda>net.
          bindE (send new_client_fd buf (int data_len) net) (\<lambda>net. Inr (tnt\<lparr>t_net := net\<rparr>)))))"

section \<open>The queues to the network\<close>

definition check_txn_update_q :: "tnt \<Rightarrow> tnt outcome" where
  "check_txn_update_q tnt =
     bindE (drain (\<lambda>queue_item tnt. Inr (True, tnt)) (TKR_2_CLT_TXN_UPDATE tnt) tnt) (\<lambda>(q, tnt).
       Inr (tnt\<lparr>TKR_2_CLT_TXN_UPDATE := q\<rparr>))"

definition check_file_acq_q :: "tnt \<Rightarrow> tnt outcome" where
  "check_file_acq_q tnt =
     bindE (drain (\<lambda>queue_item tnt.
         bindE (send_client_message tnt queue_item FILE_ACQ_UPDATE) (\<lambda>(r, tnt). Inr (True, tnt)))
       (TKR_2_CLT_FILE_ACQ tnt) tnt) (\<lambda>(q, tnt). Inr (tnt\<lparr>TKR_2_CLT_FILE_ACQ := q\<rparr>))"

definition check_fs_update_q :: "tnt \<Rightarrow> tnt outcome" where
  "check_fs_update_q tnt =
     bindE (drain (\<lambda>queue_item tnt.
         bindE (get_peer_by_id (t_peer_table tnt) (td_client_id queue_item)) (\<lambda>client.
           if client = None then Inr (False, tnt)
           else bindE (send_client_message tnt queue_item FS_UPDATE) (\<lambda>(r, tnt). Inr (True, tnt))))
       (TKR_2_CLT_FS_UPDATE tnt) tnt) (\<lambda>(q, tnt). Inr (tnt\<lparr>TKR_2_CLT_FS_UPDATE := q\<rparr>))"

definition check_add_peer_q :: "tnt \<Rightarrow> tnt outcome" where
  "check_add_peer_q tnt =
     bindE (drain (\<lambda>queue_item tnt.
         bindE (get_peer_by_id (t_peer_table tnt) (td_client_id queue_item)) (\<lambda>client. case client of
           None \<Rightarrow> Inr (False, tnt)
         | Some client \<Rightarrow> bindE (send_peer_table_to_client tnt (p_socketfd client)) (\<lambda>tnt. Inr (True, tnt))))
       (TKR_2_CLT_ADD_PEER tnt) tnt) (\<lambda>(q, tnt). Inr (tnt\<lparr>TKR_2_CLT_ADD_PEER := q\<rparr>))"

definition check_remove_peer_q :: "tnt \<Rightarrow> tnt outcome" where
  "check_remove_peer_q tnt =
     bindE (drain (\<lambda>queue_item tnt.
         bindE (get_peer_by_id (t_peer_table tnt) (td_client_id queue_item)) (\<lambda>client. case client of
           None \<Rightarrow> Inr (False, tnt)
         | Some client \<Rightarrow> bindE (send_peer_table_to_client tnt (p_socketfd client)) (\<lambda>tnt. Inr (True, tnt))))
       (TKR_2_CLT_REMOVE_PEER tnt) tnt) (\<lambda>(q, tnt). Inr (tnt\<lparr>TKR_2_CLT_REMOVE_PEER := q\<rparr>))"

text \<open>The progress message prints \<open>client->id\<close> before anything tests the pointer.\<close>

definition check_send_master_q :: "tnt \<Rightarrow> tnt outcome" where
  "check_send_master_q tnt =
     bindE (drain (\<lambda>queue_item tnt.
         bindE (get_peer_by_id (t_peer_table tnt) (td_client_id queue_item)) (\<lambda>client.
         bindE (derefE client) (\<lambda>_.
         bindE (send_client_message tnt queue_item MASTER_STATUS) (\<lambda>(r, tnt). Inr (True, tnt)))))
       (TKR_2_CLT_SEND_MASTER tnt) tnt) (\<lambda>(q, tnt). Inr (tnt\<lparr>TKR_2_CLT_SEND_MASTER := q\<rparr>))"

definition check_send_master_ft_q :: "tnt \<Rightarrow> tnt outcome" where
  "check_send_master_ft_q tnt =
     bindE (drain (\<lambda>queue_item tnt.
         bindE (send_client_message tnt queue_item MASTER_FT) (\<lambda>(r, tnt). Inr (True, tnt)))
       (TKR_2_CLT_SEND_MASTER_FT tnt) tnt) (\<lambda>(q, tnt). Inr (tnt\<lparr>TKR_2_CLT_SEND_MASTER_FT := q\<rparr>))"

definition poll_queues :: "tnt \<Rightarrow> tnt outcome" where
  "poll_queues tnt =
     bindE (check_txn_update_q tnt) (\<lambda>tnt.
     bindE (check_file_acq_q tnt) (\<lambda>tnt.
     bindE (check_fs_update_q tnt) (\<lambda>tnt.
     bindE (check_add_peer_q tnt) (\<lambda>tnt.
     bindE (check_remove_peer_q tnt) (\<lambda>tnt.
     bindE (check_send_master_q tnt) check_send_master_ft_q)))))"

section \<open>The network thread\<close>

text \<open>What the system calls of one round answer: the sockets \<open>select\<close> finds readable (\<open>None\<close> on error),
  the connection \<open>accept\<close> returns (\<open>None\<close> on error) and the time.\<close>

record tkr_env =
  e_select :: "int list option"
  e_accept :: "(byte list \<times> int) option"
  e_time :: int

definition tkr_network_listen :: "tkr_env \<Rightarrow> tnt \<Rightarrow> (int \<times> tnt) outcome" where
  "tkr_network_listen env tnt =
     bindE (derefE (t_peer_table tnt)) (\<lambda>pt.
     bindE (fold_peers (\<lambda>p fds. Inr (if p_socketfd p < 0 then fds else fds @ [p_socketfd p]))
         (pt_list pt) [listening_sockfd tnt]) (\<lambda>fds.
       case e_select env of
         None \<Rightarrow> Inr (-1, tnt\<lparr>t_descriptors_with_data := fds\<rparr>)
       | Some ready \<Rightarrow> let fds = filter (\<lambda>fd. fd \<in> set ready) fds
           in Inr (int (length fds), tnt\<lparr>t_descriptors_with_data := fds\<rparr>)))"

definition tkr_network_process_new_connections :: "tkr_env \<Rightarrow> tnt \<Rightarrow> (int \<times> tnt) outcome" where
  "tkr_network_process_new_connections env tnt =
     (if listening_sockfd tnt \<in> set (t_descriptors_with_data tnt) then
        (case e_accept env of
           None \<Rightarrow> Inr (-1, tnt)
         | Some (ip, new_sockfd) \<Rightarrow>
             if new_sockfd < 0 then Inr (-1, tnt)
             else bindE (add_peer (e_time env) (t_peer_table tnt) (Some ip) new_sockfd) (\<lambda>(new_client, table).
               let tnt = tnt\<lparr>t_peer_table := table\<rparr> in
               case new_client of
                 None \<Rightarrow> Inr (1, tnt)
               | Some new_client \<Rightarrow>
                   bindE (send_peer_table_to_client (notify_new_client tnt new_client) (p_socketfd new_client)) (\<lambda>tnt. Inr (1, tnt))))
      else Inr (1, tnt))"

definition tkr_network_handle_peer_messages :: "tkr_env \<Rightarrow> tnt \<Rightarrow> tnt outcome" where
  "tkr_network_handle_peer_messages env tnt = each_slot (\<lambda>peer tnt.
     let fd = p_socketfd peer in
     if fd < 0 then Inr tnt
     else if fd \<in> set (t_descriptors_with_data tnt) then
       bindE (handle_client_msg (e_time env) fd tnt) (\<lambda>(r, tnt).
         if r \<noteq> 1 then
           bindE (get_peer_by_socket (t_peer_table tnt) fd) (\<lambda>lost_client.
           bindE (case lost_client of
               None \<Rightarrow> Inr tnt
             | Some p \<Rightarrow> let tnt = notify_client_lost_by_id tnt (p_id p)
                 in bindE (delete_peer (t_peer_table tnt) (p_id p)) (\<lambda>table. Inr (tnt\<lparr>t_peer_table := table\<rparr>)))
             (\<lambda>tnt. Inr (tnt\<lparr>t_net := close_fd fd (t_net tnt)\<rparr>)))
         else Inr tnt)
     else Inr tnt) tnt"

text \<open>One round of the thread's loop; the flag is \<open>connected\<close>. The thread runs round after round.\<close>

definition tkr_network_round :: "tkr_env \<Rightarrow> tnt \<Rightarrow> (bool \<times> tnt) outcome" where
  "tkr_network_round env tnt =
     bindE (tkr_network_listen env tnt) (\<lambda>(r, tnt).
       if r < 0 then Inr (False, tnt)
       else bindE (tkr_network_process_new_connections env tnt) (\<lambda>(r, tnt).
         if r < 0 then Inr (False, tnt)
         else bindE (tkr_network_handle_peer_messages env tnt) (\<lambda>tnt.
           bindE (check_liveliness (e_time env) tnt) (\<lambda>tnt.
           bindE (poll_queues tnt) (\<lambda>tnt. Inr (True, tnt))))))"

fun tkr_network_start :: "tkr_env list \<Rightarrow> tnt \<Rightarrow> tnt outcome" where
  "tkr_network_start [] tnt = Inr tnt"
| "tkr_network_start (env # envs) tnt =
     bindE (tkr_network_round env tnt) (\<lambda>(connected, tnt).
       if connected then tkr_network_start envs tnt
       else Inr (tnt\<lparr>t_net := close_fd (listening_sockfd tnt) (t_net tnt)\<rparr>))"

end
