(* ===== verification/ClientNet.thy ===== *)
theory ClientNet
  imports TrackerNet
begin

text \<open>
  A client's network thread, \<open>client/network_client.c\<close>: queues to and from the logic, messages from the
  tracker and from other clients, connections to peers and the table of requests they still owe an
  answer to. As for the tracker, the thread block is never NULL, its queues are lists, and what the
  system calls of a round answer is an argument.
\<close>

section \<open>State\<close>

record conn_rec =
  cr_client_id :: int
  cr_outstanding_requests :: int

record cnt =
  TKR_2_ME_FS_UPDATE :: "byte list ptr client_data list"
  TKR_2_ME_FILE_ACQ :: "byte list ptr client_data list"
  TKR_2_ME_PEER_ADDED :: "int list"
  TKR_2_ME_PEER_DELETED :: "int list"
  TKR_2_ME_RECEIVE_MASTER_JFS :: "filesystem client_data list"
  TKR_2_ME_RECEIVE_MASTER_FT :: "filetable client_data list"
  CLT_2_ME_REQUEST_CHUNK :: "chunk_data list"
  CLT_2_ME_RECEIVE_CHUNK :: "chunk_data list"
  ME_2_TKR_CUR_STATUS :: "byte list ptr client_data list"
  ME_2_TKR_ACQ_UPDATE :: "byte list ptr client_data list"
  ME_2_TKR_UPDATED_FILE_DIFF :: "byte list ptr client_data list"
  ME_2_TKR_GET_MASTER :: "int list"
  ME_2_CLT_REQ_CHUNK :: "chunk_data list"
  ME_2_CLT_SEND_CHUNK :: "chunk_data list"
  ME_2_CLT_SEND_ERROR :: "chunk_data list"
  ip_addr :: "byte list"
  tracker_fd :: int
  peer_listening_fd :: int
  c_descriptors_with_data :: "int list"
  c_peer_table :: "peer_table ptr"
  request_table :: "conn_rec hashtable"
  c_net :: net

definition ConnRecHash :: "conn_rec ptr \<Rightarrow> int" where
  "ConnRecHash target = (case target of None \<Rightarrow> 0 | Some entry \<Rightarrow> cr_client_id entry)"

definition ConnEqualsFunction :: "conn_rec ptr \<Rightarrow> conn_rec ptr \<Rightarrow> bool" where
  "ConnEqualsFunction e0 e1 \<longleftrightarrow> map_option cr_client_id e0 = map_option cr_client_id e1"

definition INIT_PEER_SIZE :: int where "INIT_PEER_SIZE = 10"

definition StartClientNetwork :: "byte list ptr \<Rightarrow> nat \<Rightarrow> net \<Rightarrow> cnt ptr" where
  "StartClientNetwork ip ip_len net = (case ip of
     None \<Rightarrow> None
   | Some ip \<Rightarrow> Some \<lparr>TKR_2_ME_FS_UPDATE = [], TKR_2_ME_FILE_ACQ = [], TKR_2_ME_PEER_ADDED = [], TKR_2_ME_PEER_DELETED = [],
       TKR_2_ME_RECEIVE_MASTER_JFS = [], TKR_2_ME_RECEIVE_MASTER_FT = [], CLT_2_ME_REQUEST_CHUNK = [],
       CLT_2_ME_RECEIVE_CHUNK = [], ME_2_TKR_CUR_STATUS = [], ME_2_TKR_ACQ_UPDATE = [], ME_2_TKR_UPDATED_FILE_DIFF = [],
       ME_2_TKR_GET_MASTER = [], ME_2_CLT_REQ_CHUNK = [], ME_2_CLT_SEND_CHUNK = [], ME_2_CLT_SEND_ERROR = [],
       ip_addr = take ip_len ip, tracker_fd = 0, peer_listening_fd = 0, c_descriptors_with_data = [],
       c_peer_table = init_peer_table INIT_PEER_SIZE,
       request_table = hashtable_new (\<lambda>_. 0) (Some ConnRecHash) ConnEqualsFunction, c_net = net\<rparr>)"

definition EndClientNetwork :: "cnt \<Rightarrow> net outcome" where
  "EndClientNetwork cnt =
     bindE (derefE (c_peer_table cnt)) (\<lambda>pt.
     bindE (fold_peers (\<lambda>p net. Inr (if p_socketfd p > 0 then close_fd (p_socketfd p) net else net))
       (pt_list pt) (c_net cnt)) (\<lambda>net.
     bindE (destroy_table (Some pt)) (\<lambda>_.
     bindE (hashtable_destroy (request_table cnt)) (\<lambda>_.
       Inr (close_fd (peer_listening_fd cnt) (close_fd (tracker_fd cnt) net))))))"

section \<open>What the logic receives\<close>

text \<open>\<open>None\<close> is the return value \<open>-1\<close> (or NULL). Result: additions, deletions and the author.\<close>

definition recv_diff :: "cnt \<Rightarrow> ((filesystem \<times> filesystem \<times> int) option \<times> cnt) outcome" where
  "recv_diff cnt = (case TKR_2_ME_FS_UPDATE cnt of
     [] \<Rightarrow> Inr (None, cnt)
   | queue_item # q \<Rightarrow>
       bindE (derefE (cd_data queue_item)) (\<lambda>data.
       bindE (filesystem_deserialize data) (\<lambda>(additions, len1).
       bindE (filesystem_deserialize (drop len1 data)) (\<lambda>(deletions, len2).
       bindE (int_decode (drop (len1 + len2) data)) (\<lambda>(author_id, rest).
         Inr (if len1 > 0 then Some (additions, deletions, author_id) else None, cnt\<lparr>TKR_2_ME_FS_UPDATE := q\<rparr>))))))"

text \<open>Result: client, file name and chunk.\<close>

definition receive_chunk_got :: "cnt \<Rightarrow> ((int \<times> cstring \<times> int) option \<times> cnt) outcome" where
  "receive_chunk_got cnt = (case TKR_2_ME_FILE_ACQ cnt of
     [] \<Rightarrow> Inr (None, cnt)
   | queue_item # q \<Rightarrow>
       bindE (derefE (cd_data queue_item)) (\<lambda>data.
       bindE (int_decode data) (\<lambda>(chunk_num, rest).
       bindE (int_decode rest) (\<lambda>(client_id, rest).
       bindE (read_string rest) (\<lambda>(filename, rest).
         Inr (Some (client_id, filename, chunk_num), cnt\<lparr>TKR_2_ME_FILE_ACQ := q\<rparr>))))))"

definition recv_peer_added :: "cnt \<Rightarrow> int \<times> cnt" where
  "recv_peer_added cnt = (let (new_id, q) = pop_int (TKR_2_ME_PEER_ADDED cnt)
     in (if new_id > 0 then new_id else -1, cnt\<lparr>TKR_2_ME_PEER_ADDED := q\<rparr>))"

definition recv_peer_deleted :: "cnt \<Rightarrow> int \<times> cnt" where
  "recv_peer_deleted cnt = (let (deleted_id, q) = pop_int (TKR_2_ME_PEER_DELETED cnt)
     in (if deleted_id > 0 then deleted_id else -1, cnt\<lparr>TKR_2_ME_PEER_DELETED := q\<rparr>))"

definition recv_master :: "cnt \<Rightarrow> filesystem ptr \<times> cnt" where
  "recv_master cnt = (case TKR_2_ME_RECEIVE_MASTER_JFS cnt of
     [] \<Rightarrow> (None, cnt)
   | queue_item # q \<Rightarrow> (Some (cd_data queue_item), cnt\<lparr>TKR_2_ME_RECEIVE_MASTER_JFS := q\<rparr>))"

definition recv_master_ft :: "cnt \<Rightarrow> (filetable \<times> int) option \<times> cnt" where
  "recv_master_ft cnt = (case TKR_2_ME_RECEIVE_MASTER_FT cnt of
     [] \<Rightarrow> (None, cnt)
   | queue_item # q \<Rightarrow> (Some (cd_data queue_item, cd_data_len queue_item), cnt\<lparr>TKR_2_ME_RECEIVE_MASTER_FT := q\<rparr>))"

text \<open>Result: peer, file path, chunk and request.\<close>

definition receive_chunk_request :: "cnt \<Rightarrow> (int \<times> byte list ptr \<times> int \<times> int) option \<times> cnt" where
  "receive_chunk_request cnt = (case CLT_2_ME_REQUEST_CHUNK cnt of
     [] \<Rightarrow> (None, cnt)
   | queue_item # q \<Rightarrow> (Some (ck_client_id queue_item, ck_file_name queue_item, ck_chunk_num queue_item, ck_job_id queue_item),
       cnt\<lparr>CLT_2_ME_REQUEST_CHUNK := q\<rparr>))"

text \<open>Result: peer, file path, chunk, length of the data, data and request.\<close>

definition receive_chunk :: "cnt \<Rightarrow> (int \<times> byte list ptr \<times> int \<times> int \<times> byte list ptr \<times> int) option \<times> cnt" where
  "receive_chunk cnt = (case CLT_2_ME_RECEIVE_CHUNK cnt of
     [] \<Rightarrow> (None, cnt)
   | queue_item # q \<Rightarrow> (Some (ck_client_id queue_item, ck_file_name queue_item, ck_chunk_num queue_item,
         ck_data_len queue_item, ck_data queue_item, ck_job_id queue_item),
       cnt\<lparr>CLT_2_ME_RECEIVE_CHUNK := q\<rparr>))"

section \<open>What the logic sends\<close>

text \<open>The field \<open>client_id\<close> is left as \<open>malloc\<close> gives it.\<close>

definition client_item :: "byte list \<Rightarrow> byte list ptr client_data" where
  "client_item data = \<lparr>cd_client_id = undefined, cd_data_len = int (length data), cd_data = Some data\<rparr>"

definition send_status :: "cnt \<Rightarrow> filesystem ptr \<Rightarrow> int \<times> cnt" where
  "send_status cnt fs = (case fs of
     None \<Rightarrow> (-1, cnt)
   | Some fs \<Rightarrow> let (data, data_len) = filesystem_serialize fs
       in (1, cnt\<lparr>ME_2_TKR_CUR_STATUS := ME_2_TKR_CUR_STATUS cnt @ [client_item data]\<rparr>))"

definition send_chunk_got :: "cnt \<Rightarrow> cstring ptr \<Rightarrow> int \<Rightarrow> int \<times> cnt" where
  "send_chunk_got cnt path chunkNum = (case path of
     None \<Rightarrow> (-1, cnt)
   | Some path \<Rightarrow>
       (1, cnt\<lparr>ME_2_TKR_ACQ_UPDATE := ME_2_TKR_ACQ_UPDATE cnt @ [client_item (int_bytes chunkNum @ string_bytes path)]\<rparr>))"

definition send_updated_files :: "cnt \<Rightarrow> filesystem ptr \<Rightarrow> filesystem ptr \<Rightarrow> int \<times> cnt" where
  "send_updated_files cnt additions deletions = (case (additions, deletions) of
     (Some adds, Some dels) \<Rightarrow>
       let (buf1, length1) = filesystem_serialize adds; (buf2, length2) = filesystem_serialize dels
       in (1, cnt\<lparr>ME_2_TKR_UPDATED_FILE_DIFF := ME_2_TKR_UPDATED_FILE_DIFF cnt @ [client_item (buf1 @ buf2)]\<rparr>)
   | _ \<Rightarrow> (-1, cnt))"

definition send_request_for_master :: "cnt \<Rightarrow> int \<times> cnt" where
  "send_request_for_master cnt = (1, cnt\<lparr>ME_2_TKR_GET_MASTER := ME_2_TKR_GET_MASTER cnt @ [1]\<rparr>)"

definition send_chunk_request :: "cnt \<Rightarrow> int \<Rightarrow> cstring ptr \<Rightarrow> int \<Rightarrow> int \<Rightarrow> (int \<times> cnt) outcome" where
  "send_chunk_request cnt peer_id filepath chunk_id request_id = (case filepath of
     None \<Rightarrow> Inr (-1, cnt)
   | Some filepath \<Rightarrow> bindE (get_peer_by_id (c_peer_table cnt) peer_id) (\<lambda>peer.
       if peer = None then Inr (-1, cnt)
       else Inr (1, cnt\<lparr>ME_2_CLT_REQ_CHUNK := ME_2_CLT_REQ_CHUNK cnt @ [\<lparr>ck_job_id = request_id, ck_client_id = peer_id,
         ck_chunk_num = chunk_id, ck_file_str_len = int (length filepath) + 1, ck_file_name = Some (string_bytes filepath),
         ck_data_len = 0, ck_data = None\<rparr>]\<rparr>)))"

definition send_chunk ::
    "cnt \<Rightarrow> int \<Rightarrow> cstring ptr \<Rightarrow> int \<Rightarrow> byte list ptr \<Rightarrow> int \<Rightarrow> int \<Rightarrow> (int \<times> cnt) outcome" where
  "send_chunk cnt peer_id file_name chunk_id chunk_data chunk_len request_id = (case (file_name, chunk_data) of
     (Some file_name, Some chunk_data) \<Rightarrow> bindE (get_peer_by_id (c_peer_table cnt) peer_id) (\<lambda>peer.
       if peer = None then Inr (-1, cnt)
       else bindE (move_into (replicate (nat chunk_len) 0) chunk_data chunk_len) (\<lambda>data.
         Inr (1, cnt\<lparr>ME_2_CLT_SEND_CHUNK := ME_2_CLT_SEND_CHUNK cnt @ [\<lparr>ck_job_id = request_id, ck_client_id = peer_id,
           ck_chunk_num = chunk_id, ck_file_str_len = int (length file_name) + 1, ck_file_name = Some (string_bytes file_name),
           ck_data_len = chunk_len, ck_data = Some data\<rparr>]\<rparr>)))
   | _ \<Rightarrow> Inr (-1, cnt))"

definition send_chunk_rejection :: "cnt \<Rightarrow> int \<Rightarrow> cstring ptr \<Rightarrow> int \<Rightarrow> int \<Rightarrow> (int \<times> cnt) outcome" where
  "send_chunk_rejection cnt peer_id filepath chunk_id request_id = (case filepath of
     None \<Rightarrow> Inr (-1, cnt)
   | Some filepath \<Rightarrow> bindE (get_peer_by_id (c_peer_table cnt) peer_id) (\<lambda>peer.
       if peer = None then Inr (-1, cnt)
       else Inr (1, cnt\<lparr>ME_2_CLT_SEND_ERROR := ME_2_CLT_SEND_ERROR cnt @ [\<lparr>ck_job_id = request_id, ck_client_id = peer_id,
         ck_chunk_num = chunk_id, ck_file_str_len = int (length filepath) + 1, ck_file_name = Some (string_bytes filepath),
         ck_data_len = -1, ck_data = None\<rparr>]\<rparr>)))"

section \<open>What the network tells the logic\<close>

definition notify_fs_update :: "cnt \<Rightarrow> byte list ptr client_data \<Rightarrow> cnt" where
  "notify_fs_update cnt queue_item = cnt\<lparr>TKR_2_ME_FS_UPDATE := TKR_2_ME_FS_UPDATE cnt @ [queue_item]\<rparr>"

definition notify_master_received :: "cnt \<Rightarrow> filesystem client_data \<Rightarrow> cnt" where
  "notify_master_received cnt queue_item =
     cnt\<lparr>TKR_2_ME_RECEIVE_MASTER_JFS := TKR_2_ME_RECEIVE_MASTER_JFS cnt @ [queue_item]\<rparr>"

definition notify_master_ft_received :: "cnt \<Rightarrow> filetable client_data \<Rightarrow> cnt" where
  "notify_master_ft_received cnt queue_item =
     cnt\<lparr>TKR_2_ME_RECEIVE_MASTER_FT := TKR_2_ME_RECEIVE_MASTER_FT cnt @ [queue_item]\<rparr>"

definition notify_file_acq_update :: "cnt \<Rightarrow> byte list ptr client_data \<Rightarrow> cnt" where
  "notify_file_acq_update cnt queue_item = cnt\<lparr>TKR_2_ME_FILE_ACQ := TKR_2_ME_FILE_ACQ cnt @ [queue_item]\<rparr>"

definition notify_peer_added :: "cnt \<Rightarrow> int \<Rightarrow> cnt" where
  "notify_peer_added cnt added_client_id = cnt\<lparr>TKR_2_ME_PEER_ADDED := TKR_2_ME_PEER_ADDED cnt @ [added_client_id]\<rparr>"

definition notify_peer_removed :: "cnt \<Rightarrow> int \<Rightarrow> cnt" where
  "notify_peer_removed cnt removed_client_id =
     cnt\<lparr>TKR_2_ME_PEER_DELETED := TKR_2_ME_PEER_DELETED cnt @ [removed_client_id]\<rparr>"

definition notify_chunk_request :: "cnt \<Rightarrow> chunk_data \<Rightarrow> cnt" where
  "notify_chunk_request cnt queue_item = cnt\<lparr>CLT_2_ME_REQUEST_CHUNK := CLT_2_ME_REQUEST_CHUNK cnt @ [queue_item]\<rparr>"

definition notify_chunk_received :: "cnt \<Rightarrow> chunk_data \<Rightarrow> cnt" where
  "notify_chunk_received cnt queue_item = cnt\<lparr>CLT_2_ME_RECEIVE_CHUNK := CLT_2_ME_RECEIVE_CHUNK cnt @ [queue_item]\<rparr>"

definition notify_error_received :: "cnt \<Rightarrow> chunk_data \<Rightarrow> cnt" where
  "notify_error_received cnt queue_item = cnt\<lparr>CLT_2_ME_RECEIVE_CHUNK := CLT_2_ME_RECEIVE_CHUNK cnt @ [queue_item]\<rparr>"

section \<open>Connections to peers\<close>

text \<open>\<open>connect\<close> tells which socket a connection to an address gets, if it can be made.\<close>

definition connect_to_peer :: "(byte list \<Rightarrow> int option) \<Rightarrow> cnt \<Rightarrow> peer ptr \<Rightarrow> int \<Rightarrow> (int \<times> cnt) outcome" where
  "connect_to_peer connect cnt peer i = (case peer of
     None \<Rightarrow> Inr (-1, cnt)
   | Some p \<Rightarrow>
       if i < 1 then Inr (-1, cnt)
       else if p_socketfd p > 0 then Inr (p_socketfd p, cnt)
       else (case connect (p_ip_addr p) of
           None \<Rightarrow> Inr (-1, cnt)
         | Some sockfd \<Rightarrow>
             if sockfd < 1 then Inr (-1, cnt)
             else bindE (poke_peer (\<lambda>q. p_id q = p_id p) (\<lambda>q. q\<lparr>p_socketfd := sockfd\<rparr>) (c_peer_table cnt)) (\<lambda>table.
               Inr (sockfd, cnt\<lparr>c_peer_table := table\<rparr>))))"

text \<open>A record to search for: no callback looks at its other field.\<close>

definition conn_key :: "int \<Rightarrow> conn_rec ptr" where
  "conn_key client_id = Some \<lparr>cr_client_id = client_id, cr_outstanding_requests = 0\<rparr>"

text \<open>Writes through the pointer to the record, and gives what it then holds.\<close>

definition change_conn_record :: "(int \<Rightarrow> int) \<Rightarrow> conn_rec hashtable \<Rightarrow> int \<Rightarrow> (int \<times> conn_rec hashtable) outcome" where
  "change_conn_record g table client_id =
     bindE (hashtable_get_element table (conn_key client_id)) (\<lambda>entry. case entry of
       None \<Rightarrow> Inr (-1, table)
     | Some e \<Rightarrow>
         bindE (hashtable_poke table (conn_key client_id)
             (map_option (\<lambda>e. e\<lparr>cr_outstanding_requests := g (cr_outstanding_requests e)\<rparr>))) (\<lambda>table.
           Inr (g (cr_outstanding_requests e), table)))"

definition increment_conn_record :: "cnt \<Rightarrow> int \<Rightarrow> (int \<times> cnt) outcome" where
  "increment_conn_record cnt client_id =
     bindE (hashtable_get_element (request_table cnt) (conn_key client_id)) (\<lambda>entry.
     bindE (if entry = None then hashtable_add (request_table cnt) (conn_key client_id) else Inr (request_table cnt)) (\<lambda>table.
     bindE (change_conn_record (\<lambda>n. n + 1) table client_id) (\<lambda>(n, table). Inr (n, cnt\<lparr>request_table := table\<rparr>))))"

definition decrement_conn_record :: "cnt \<Rightarrow> int \<Rightarrow> (int \<times> cnt) outcome" where
  "decrement_conn_record cnt client_id =
     bindE (change_conn_record (\<lambda>n. n - 1) (request_table cnt) client_id) (\<lambda>(n, table). Inr (n, cnt\<lparr>request_table := table\<rparr>))"

section \<open>Messages from the tracker\<close>

text \<open>The new table comes without sockets.\<close>

definition peer_table_msg :: "int \<Rightarrow> byte list ptr \<Rightarrow> cnt \<Rightarrow> cnt outcome" where
  "peer_table_msg data_len buf cnt =
     bindE (deserialize_peer_table buf data_len) (\<lambda>new_table.
       if new_table = None then Inr cnt
       else bindE (diff_tables (c_peer_table cnt) new_table) (\<lambda>diff. case diff of
         None \<Rightarrow> Inl WildDeref
       | Some (additions, deletions) \<Rightarrow>
           bindE (derefE additions) (\<lambda>adds.
           bindE (derefE deletions) (\<lambda>dels.
           bindE (fold_peers (\<lambda>p cnt. Inr (notify_peer_added cnt (p_id p))) (pt_list adds) cnt) (\<lambda>cnt.
           bindE (fold_peers (\<lambda>p cnt. Inr (notify_peer_removed cnt (p_id p))) (pt_list dels) cnt) (\<lambda>cnt.
           bindE (destroy_table additions) (\<lambda>_.
           bindE (destroy_table deletions) (\<lambda>_.
           bindE (destroy_table (c_peer_table cnt)) (\<lambda>_.
             Inr (cnt\<lparr>c_peer_table := new_table\<rparr>))))))))))"

definition tracker_msg :: "int \<Rightarrow> int \<Rightarrow> byte list ptr \<Rightarrow> cnt \<Rightarrow> cnt outcome" where
  "tracker_msg type data_len buf cnt =
     (if type = t2c_code FS_UPDATE then
        Inr (notify_fs_update cnt \<lparr>cd_client_id = undefined, cd_data_len = data_len, cd_data = buf\<rparr>)
      else if type = t2c_code FILE_ACQ_UPDATE then
        Inr (notify_file_acq_update cnt \<lparr>cd_client_id = undefined, cd_data_len = data_len, cd_data = buf\<rparr>)
      else if type = t2c_code MASTER_STATUS then
        bindE (derefE buf) (\<lambda>data. bindE (filesystem_deserialize data) (\<lambda>(fs, len).
          Inr (notify_master_received cnt \<lparr>cd_client_id = undefined, cd_data_len = int len, cd_data = fs\<rparr>)))
      else if type = t2c_code MASTER_FT then
        bindE (derefE buf) (\<lambda>data. bindE (filetable_deserialize data) (\<lambda>(ft, len).
          Inr (notify_master_ft_received cnt \<lparr>cd_client_id = undefined, cd_data_len = int len, cd_data = ft\<rparr>)))
      else if type = t2c_code PEER_TABLE then peer_table_msg data_len buf cnt
      else Inr cnt)"

definition handle_tracker_msg :: "cnt \<Rightarrow> (int \<times> cnt) outcome" where
  "handle_tracker_msg cnt =
     bindE (safe_recv (tracker_fd cnt) 8 (c_net cnt)) (\<lambda>(ret, pkt, net).
       if ret \<noteq> 8 then Inr (-1, cnt\<lparr>c_net := net\<rparr>)
       else let type = bytes_int pkt; data_len = bytes_int (drop 4 pkt) in
         if data_len > 0 then
           bindE (safe_recv (tracker_fd cnt) data_len net) (\<lambda>(ret, buf, net).
             if ret \<noteq> data_len then Inr (-1, cnt\<lparr>c_net := net\<rparr>)
             else bindE (tracker_msg type data_len (Some buf) (cnt\<lparr>c_net := net\<rparr>)) (\<lambda>cnt. Inr (1, cnt)))
         else bindE (tracker_msg type data_len None (cnt\<lparr>c_net := net\<rparr>)) (\<lambda>cnt. Inr (1, cnt)))"

section \<open>Messages from peers\<close>

text \<open>A part of a message that may be missing: \<open>None\<close> when it did not come whole.\<close>

definition recv_part :: "int \<Rightarrow> int \<Rightarrow> net \<Rightarrow> (byte list ptr option \<times> net) outcome" where
  "recv_part sockfd len net =
     (if len > 0 then bindE (safe_recv sockfd len net) (\<lambda>(ret, buf, net).
        Inr (if ret \<noteq> len then None else Some (Some buf), net))
      else Inr (Some None, net))"

definition peer_msg :: "c2c_pkt \<Rightarrow> byte list ptr \<Rightarrow> byte list ptr \<Rightarrow> peer ptr \<Rightarrow> cnt \<Rightarrow> cnt outcome" where
  "peer_msg pkt file_name_buf data_buf peer cnt =
     (if cp_type pkt = c2c_code CHUNK_REQUEST then
        bindE (derefE peer) (\<lambda>peer.
          Inr (notify_chunk_request cnt \<lparr>ck_job_id = cp_job_id pkt, ck_client_id = p_id peer, ck_chunk_num = cp_chunk_num pkt,
            ck_file_str_len = cp_file_str_len pkt, ck_file_name = file_name_buf, ck_data_len = 0, ck_data = None\<rparr>))
      else if cp_type pkt = c2c_code CHUNK then
        bindE (derefE peer) (\<lambda>peer. bindE (decrement_conn_record cnt (p_id peer)) (\<lambda>(request_fulfilled, cnt).
          Inr (notify_chunk_received cnt \<lparr>ck_job_id = cp_job_id pkt, ck_client_id = p_id peer, ck_chunk_num = cp_chunk_num pkt,
            ck_file_str_len = cp_file_str_len pkt, ck_file_name = file_name_buf, ck_data_len = cp_data_len pkt, ck_data = data_buf\<rparr>)))
      else if cp_type pkt = c2c_code REQ_REJECT then
        bindE (derefE peer) (\<lambda>peer. bindE (decrement_conn_record cnt (p_id peer)) (\<lambda>(request_fulfilled, cnt).
          Inr (notify_error_received cnt \<lparr>ck_job_id = cp_job_id pkt, ck_client_id = p_id peer, ck_chunk_num = cp_chunk_num pkt,
            ck_file_str_len = cp_file_str_len pkt, ck_file_name = file_name_buf, ck_data_len = cp_data_len pkt, ck_data = None\<rparr>)))
      else Inr cnt)"

definition handle_peer_msg :: "int \<Rightarrow> cnt \<Rightarrow> (int \<times> cnt) outcome" where
  "handle_peer_msg sockfd cnt =
     bindE (get_peer_by_socket (c_peer_table cnt) sockfd) (\<lambda>peer.
     bindE (safe_recv sockfd 24 (c_net cnt)) (\<lambda>(returnValue, bytes, net).
       if returnValue > 0 then
         let pkt = c2c_pkt_of bytes in
         bindE (recv_part sockfd (cp_file_str_len pkt) net) (\<lambda>(file_name_buf, net). case file_name_buf of
           None \<Rightarrow> Inr (-1, cnt\<lparr>c_net := net\<rparr>)
         | Some file_name_buf \<Rightarrow>
             bindE (recv_part sockfd (cp_data_len pkt) net) (\<lambda>(data_buf, net). case data_buf of
               None \<Rightarrow> Inr (-1, cnt\<lparr>c_net := net\<rparr>)
             | Some data_buf \<Rightarrow> bindE (peer_msg pkt file_name_buf data_buf peer (cnt\<lparr>c_net := net\<rparr>)) (\<lambda>cnt. Inr (1, cnt))))
       else Inr (-1, cnt\<lparr>c_net := net\<rparr>)))"

section \<open>The queues to the network\<close>

definition send_tracker_message :: "cnt \<Rightarrow> client_to_tracker \<Rightarrow> (int \<times> cnt) outcome" where
  "send_tracker_message cnt type =
     (if type = HEARTBEAT then
        bindE (send (tracker_fd cnt) (Some (client_pkt (c2t_code HEARTBEAT) 0)) 8 (c_net cnt)) (\<lambda>net. Inr (1, cnt\<lparr>c_net := net\<rparr>))
      else Inr (1, cnt))"

definition send_peer_message :: "cnt \<Rightarrow> int \<Rightarrow> int" where
  "send_peer_message cnt peer_id = -1"

definition send_client_item :: "client_to_tracker \<Rightarrow> byte list ptr client_data \<Rightarrow> cnt \<Rightarrow> (bool \<times> cnt) outcome" where
  "send_client_item type queue_item cnt =
     bindE (send (tracker_fd cnt) (Some (client_pkt (c2t_code type) (cd_data_len queue_item))) 8 (c_net cnt)) (\<lambda>net.
     bindE (send (tracker_fd cnt) (cd_data queue_item) (cd_data_len queue_item) net) (\<lambda>net. Inr (True, cnt\<lparr>c_net := net\<rparr>)))"

definition check_cur_status_q :: "cnt \<Rightarrow> cnt outcome" where
  "check_cur_status_q cnt =
     bindE (drain (send_client_item CLIENT_STATE) (ME_2_TKR_CUR_STATUS cnt) cnt) (\<lambda>(q, cnt). Inr (cnt\<lparr>ME_2_TKR_CUR_STATUS := q\<rparr>))"

definition clt_check_file_acq_q :: "cnt \<Rightarrow> cnt outcome" where
  "clt_check_file_acq_q cnt =
     bindE (drain (send_client_item CHUNK_GOT) (ME_2_TKR_ACQ_UPDATE cnt) cnt) (\<lambda>(q, cnt). Inr (cnt\<lparr>ME_2_TKR_ACQ_UPDATE := q\<rparr>))"

definition check_updated_fs_q :: "cnt \<Rightarrow> cnt outcome" where
  "check_updated_fs_q cnt =
     bindE (drain (send_client_item CLIENT_UPDATE) (ME_2_TKR_UPDATED_FILE_DIFF cnt) cnt) (\<lambda>(q, cnt).
       Inr (cnt\<lparr>ME_2_TKR_UPDATED_FILE_DIFF := q\<rparr>))"

definition check_master_req_q :: "cnt \<Rightarrow> cnt outcome" where
  "check_master_req_q cnt =
     bindE (drain (\<lambda>i cnt.
         if i \<noteq> 1 then Inr (False, cnt)
         else bindE (send (tracker_fd cnt) (Some (client_pkt (c2t_code REQUEST_MASTER) 0)) 8 (c_net cnt)) (\<lambda>net.
           Inr (True, cnt\<lparr>c_net := net\<rparr>)))
       (ME_2_TKR_GET_MASTER cnt) cnt) (\<lambda>(q, cnt). Inr (cnt\<lparr>ME_2_TKR_GET_MASTER := q\<rparr>))"

text \<open>The header and the name of the file; the field \<open>src_client\<close> is never set.\<close>

definition send_chunk_header :: "int \<Rightarrow> client_to_client \<Rightarrow> chunk_data \<Rightarrow> net \<Rightarrow> net outcome" where
  "send_chunk_header fd type item net =
     bindE (send fd (Some (c2c_pkt_bytes \<lparr>cp_type = c2c_code type, cp_src_client = undefined, cp_chunk_num = ck_chunk_num item,
         cp_file_str_len = ck_file_str_len item, cp_data_len = ck_data_len item, cp_job_id = ck_job_id item\<rparr>)) 24 net)
       (send fd (ck_file_name item) (ck_file_str_len item))"

definition check_req_chunk_q :: "(byte list \<Rightarrow> int option) \<Rightarrow> cnt \<Rightarrow> cnt outcome" where
  "check_req_chunk_q connect cnt =
     bindE (drain (\<lambda>queue_item cnt.
         bindE (get_peer_by_id (c_peer_table cnt) (ck_client_id queue_item)) (\<lambda>peer.
         bindE (connect_to_peer connect cnt peer (ck_client_id queue_item)) (\<lambda>(fd, cnt).
           if fd < 0 then Inr (False, cnt)
           else bindE (send_chunk_header fd CHUNK_REQUEST queue_item (c_net cnt)) (\<lambda>net.
             bindE (increment_conn_record (cnt\<lparr>c_net := net\<rparr>) (ck_client_id queue_item)) (\<lambda>(requests, cnt). Inr (True, cnt))))))
       (ME_2_CLT_REQ_CHUNK cnt) cnt) (\<lambda>(q, cnt). Inr (cnt\<lparr>ME_2_CLT_REQ_CHUNK := q\<rparr>))"

definition check_send_chunk_q :: "cnt \<Rightarrow> cnt outcome" where
  "check_send_chunk_q cnt =
     bindE (drain (\<lambda>queue_item cnt.
         bindE (get_peer_by_id (c_peer_table cnt) (ck_client_id queue_item)) (\<lambda>peer. case peer of
           None \<Rightarrow> Inr (False, cnt)
         | Some peer \<Rightarrow>
             if p_socketfd peer < 0 then Inr (False, cnt)
             else bindE (send_chunk_header (p_socketfd peer) CHUNK queue_item (c_net cnt)) (\<lambda>net.
               bindE (send (p_socketfd peer) (ck_data queue_item) (ck_data_len queue_item) net) (\<lambda>net.
                 Inr (True, cnt\<lparr>c_net := net\<rparr>)))))
       (ME_2_CLT_SEND_CHUNK cnt) cnt) (\<lambda>(q, cnt). Inr (cnt\<lparr>ME_2_CLT_SEND_CHUNK := q\<rparr>))"

definition check_req_error_q :: "cnt \<Rightarrow> cnt outcome" where
  "check_req_error_q cnt =
     bindE (drain (\<lambda>queue_item cnt.
         bindE (get_peer_by_id (c_peer_table cnt) (ck_client_id queue_item)) (\<lambda>peer. case peer of
           None \<Rightarrow> Inr (False, cnt)
         | Some peer \<Rightarrow> bindE (send_chunk_header (p_socketfd peer) REQ_REJECT queue_item (c_net cnt)) (\<lambda>net.
             Inr (True, cnt\<lparr>c_net := net\<rparr>))))
       (ME_2_CLT_SEND_ERROR cnt) cnt) (\<lambda>(q, cnt). Inr (cnt\<lparr>ME_2_CLT_SEND_ERROR := q\<rparr>))"

definition clt_poll_queues :: "(byte list \<Rightarrow> int option) \<Rightarrow> cnt \<Rightarrow> cnt outcome" where
  "clt_poll_queues connect cnt =
     bindE (check_cur_status_q cnt) (\<lambda>cnt.
     bindE (clt_check_file_acq_q cnt) (\<lambda>cnt.
     bindE (check_master_req_q cnt) (\<lambda>cnt.
     bindE (check_updated_fs_q cnt) (\<lambda>cnt.
     bindE (check_req_chunk_q connect cnt) (\<lambda>cnt.
     bindE (check_send_chunk_q cnt) check_req_error_q)))))"

section \<open>The network thread\<close>

record clt_env =
  ce_select :: "int list option"
  ce_accept :: "(byte list \<times> int) option"
  ce_connect :: "byte list \<Rightarrow> int option"
  ce_time :: int

definition clt_network_listen :: "clt_env \<Rightarrow> cnt \<Rightarrow> (int \<times> cnt) outcome" where
  "clt_network_listen env cnt =
     bindE (derefE (c_peer_table cnt)) (\<lambda>pt.
     bindE (fold_peers (\<lambda>p fds. Inr (if p_socketfd p < 0 then fds else fds @ [p_socketfd p]))
         (pt_list pt) [tracker_fd cnt, peer_listening_fd cnt]) (\<lambda>fds.
       case ce_select env of
         None \<Rightarrow> Inr (-1, cnt\<lparr>c_descriptors_with_data := fds\<rparr>)
       | Some ready \<Rightarrow> let fds = filter (\<lambda>fd. fd \<in> set ready) fds
           in Inr (int (length fds), cnt\<lparr>c_descriptors_with_data := fds\<rparr>)))"

definition clt_network_process_new_connections :: "clt_env \<Rightarrow> cnt \<Rightarrow> (int \<times> cnt) outcome" where
  "clt_network_process_new_connections env cnt =
     (if peer_listening_fd cnt \<in> set (c_descriptors_with_data cnt) then
        (case ce_accept env of
           None \<Rightarrow> Inr (-1, cnt)
         | Some (ip, new_peer_fd) \<Rightarrow>
             if new_peer_fd < 0 then Inr (-1, cnt)
             else bindE (get_peer_by_ip (c_peer_table cnt) (Some ip)) (\<lambda>new_peer.
               if new_peer = None then Inr (-1, cnt\<lparr>c_net := close_fd new_peer_fd (c_net cnt)\<rparr>)
               else bindE (poke_peer (\<lambda>p. take IP_LEN (p_ip_addr p) = take IP_LEN ip) (\<lambda>p. p\<lparr>p_socketfd := new_peer_fd\<rparr>)
                   (c_peer_table cnt)) (\<lambda>table. Inr (1, cnt\<lparr>c_peer_table := table\<rparr>))))
      else Inr (1, cnt))"

definition clt_network_handle_tracker_messages :: "cnt \<Rightarrow> (int \<times> cnt) outcome" where
  "clt_network_handle_tracker_messages cnt =
     (if tracker_fd cnt \<in> set (c_descriptors_with_data cnt) then handle_tracker_msg cnt else Inr (1, cnt))"

definition clt_network_handle_peer_messages :: "cnt \<Rightarrow> cnt outcome" where
  "clt_network_handle_peer_messages cnt = bindE (derefE (c_peer_table cnt)) (\<lambda>pt.
     foldE (\<lambda>i cnt. bindE (derefE (c_peer_table cnt)) (\<lambda>pt. case pt_list pt ! i of
         Uninit \<Rightarrow> Inl WildDeref
       | Free \<Rightarrow> Inr cnt
       | Used peer \<Rightarrow>
           let fd = p_socketfd peer in
           if fd < 0 \<or> fd \<notin> set (c_descriptors_with_data cnt) then Inr cnt
           else bindE (handle_peer_msg fd cnt) (\<lambda>(r, cnt).
             if r = 1 then Inr cnt
             else bindE (get_peer_by_socket (c_peer_table cnt) fd) (\<lambda>dead_peer.
               bindE (case dead_peer of
                   None \<Rightarrow> Inr cnt
                 | Some p \<Rightarrow>
                     bindE (poke_peer (\<lambda>q. p_socketfd q = fd) (\<lambda>q. q\<lparr>p_socketfd := -1\<rparr>) (c_peer_table cnt)) (\<lambda>table.
                     bindE (change_conn_record (\<lambda>_. 0) (request_table cnt) (p_id p)) (\<lambda>(n, requests).
                       Inr (cnt\<lparr>c_peer_table := table, request_table := requests\<rparr>))))
                 (\<lambda>cnt. Inr (cnt\<lparr>c_net := close_fd fd (c_net cnt)\<rparr>))))))
       [0..<length (pt_list pt)] cnt)"

text \<open>One round of the loop; \<open>last_heartbeat\<close> is the local variable, the flag is \<open>connected\<close>.\<close>

definition clt_network_round :: "clt_env \<Rightarrow> int \<Rightarrow> cnt \<Rightarrow> (bool \<times> int \<times> cnt) outcome" where
  "clt_network_round env last_heartbeat cnt =
     bindE (clt_network_listen env cnt) (\<lambda>(r, cnt).
       if r < 0 then Inr (False, last_heartbeat, cnt)
       else bindE (clt_network_process_new_connections env cnt) (\<lambda>(r, cnt).
         bindE (clt_network_handle_tracker_messages cnt) (\<lambda>(r, cnt).
           if r \<noteq> 1 then Inr (False, last_heartbeat, cnt)
           else bindE (clt_network_handle_peer_messages cnt) (\<lambda>cnt.
             bindE (if ce_time env - last_heartbeat > DIASTOLE
                 then bindE (send_tracker_message cnt HEARTBEAT) (\<lambda>(r, cnt). Inr (ce_time env, cnt))
                 else Inr (last_heartbeat, cnt)) (\<lambda>(last_heartbeat, cnt).
               bindE (clt_poll_queues (ce_connect env) cnt) (\<lambda>cnt. Inr (True, last_heartbeat, cnt)))))))"

fun clt_network_start :: "clt_env list \<Rightarrow> int \<Rightarrow> cnt \<Rightarrow> (int \<times> cnt) outcome" where
  "clt_network_start [] last_heartbeat cnt = Inr (last_heartbeat, cnt)"
| "clt_network_start (env # envs) last_heartbeat cnt =
     bindE (clt_network_round env last_heartbeat cnt) (\<lambda>(connected, last_heartbeat, cnt).
       if connected then clt_network_start envs last_heartbeat cnt else Inr (last_heartbeat, cnt))"

section \<open>The requests each peer owes an answer to\<close>

interpretation conn: keyed_by ConnRecHash ConnEqualsFunction cr_client_id "\<lambda>k. 0 \<le> k"
  by unfold_locales (auto simp: ConnRecHash_def ConnEqualsFunction_def)

text \<open>\<open>owes ht m\<close>: the table holds \<open>m\<close>, from clients to the number of requests they have not answered.\<close>

definition owes :: "conn_rec hashtable \<Rightarrow> (int \<rightharpoonup> int) \<Rightarrow> bool" where
  "owes ht m \<longleftrightarrow> keyed_ok ConnRecHash ConnEqualsFunction ht
     \<and> (\<forall>k. with_key cr_client_id ht k = (case m k of None \<Rightarrow> [] | Some n \<Rightarrow> [\<lparr>cr_client_id = k, cr_outstanding_requests = n\<rparr>]))"

lemma owes_new: "owes (hashtable_new (\<lambda>_. 0) (Some ConnRecHash) ConnEqualsFunction) (\<lambda>_. None)"
  by (simp add: owes_def keyed_ok_new with_key_def hashtable_new_items)

lemma owes_get:
  assumes "owes ht m" "0 \<le> i"
  shows "hashtable_get_element ht (conn_key i) = Inr (map_option (\<lambda>n. \<lparr>cr_client_id = i, cr_outstanding_requests = n\<rparr>) (m i))"
  using conn.get_ok [of ht "\<lparr>cr_client_id = i, cr_outstanding_requests = 0\<rparr>"] assms
  by (auto simp: owes_def conn_key_def split: option.splits)

lemma owes_change:
  assumes "owes ht m" "0 \<le> i"
  shows "\<exists>ht'. change_conn_record g ht i = Inr (case m i of None \<Rightarrow> -1 | Some n \<Rightarrow> g n, ht') \<and> owes ht' (m(i := map_option g (m i)))"
proof (cases "m i")
  case None
  then have "m(i := map_option g (m i)) = m" by auto
  with None assms owes_get [OF assms] show ?thesis by (simp add: change_conn_record_def)
next
  case (Some n)
  let ?g = "\<lambda>e. e\<lparr>cr_outstanding_requests := g (cr_outstanding_requests e)\<rparr>"
  obtain ht' where ht': "hashtable_poke ht (conn_key i) (map_option ?g) = Inr ht'" "keyed_ok ConnRecHash ConnEqualsFunction ht'"
    "with_key cr_client_id ht' = (with_key cr_client_id ht)(i := map_head ?g (with_key cr_client_id ht i))"
    using conn.poke_ok [of ht ?g "\<lparr>cr_client_id = i, cr_outstanding_requests = 0\<rparr>"] assms by (auto simp: owes_def conn_key_def)
  have "owes ht' (m(i := map_option g (m i)))"
    using assms(1) Some ht'(2,3) by (auto simp: owes_def)
  with Some ht'(1) owes_get [OF assms] show ?thesis by (simp add: change_conn_record_def)
qed

lemma owes_increment:
  assumes "owes (request_table c) m" "0 \<le> i"
  shows "\<exists>n ht. increment_conn_record c i = Inr (n, c\<lparr>request_table := ht\<rparr>)
    \<and> owes ht (m(i \<mapsto> (case m i of None \<Rightarrow> 1 | Some n \<Rightarrow> n + 1)))"
proof (cases "m i")
  case None
  obtain ht1 where ht1: "hashtable_add (request_table c) (conn_key i) = Inr ht1" "keyed_ok ConnRecHash ConnEqualsFunction ht1"
    "with_key cr_client_id ht1 = (with_key cr_client_id (request_table c))(i := with_key cr_client_id (request_table c) i
      @ [\<lparr>cr_client_id = i, cr_outstanding_requests = 0\<rparr>])"
    using conn.add_ok [of "request_table c" "\<lparr>cr_client_id = i, cr_outstanding_requests = 0\<rparr>"] assms by (auto simp: owes_def conn_key_def)
  then have "owes ht1 (m(i \<mapsto> 0))" using assms(1) None by (auto simp: owes_def)
  from owes_change [OF this assms(2), of "\<lambda>n. n + 1"] obtain ht2 where
    "change_conn_record (\<lambda>n. n + 1) ht1 i = Inr (1, ht2)" "owes ht2 (m(i \<mapsto> 1))" by auto
  with None ht1(1) owes_get [OF assms] show ?thesis by (auto simp: increment_conn_record_def)
next
  case (Some n)
  with owes_change [OF assms, of "\<lambda>n. n + 1"] owes_get [OF assms] show ?thesis by (auto simp: increment_conn_record_def)
qed

lemma owes_decrement:
  assumes "owes (request_table c) m" "0 \<le> i"
  shows "\<exists>n ht. decrement_conn_record c i = Inr (n, c\<lparr>request_table := ht\<rparr>) \<and> owes ht (m(i := map_option (\<lambda>n. n - 1) (m i)))"
  using owes_change [OF assms, of "\<lambda>n. n - 1"] by (auto simp: decrement_conn_record_def)

end
