(* ===== verification/Relay.thy ===== *)
theory Relay
  imports Wire
begin

text \<open>
  The interface of a side that takes messages in. Tracker and client both read a header of type and
  length, then the data, and act on them; \<open>receiver\<close> says so and gives what a stream of messages does,
  however the connection cuts it.
\<close>

definition short :: "byte list \<Rightarrow> bool" where
  "short bs \<longleftrightarrow> int (length bs) < 2147483648"

lemma short_int: "short bs \<Longrightarrow> is_int (int (length bs))"
  by (simp add: short_def is_int_def)

definition header :: "int \<Rightarrow> byte list \<Rightarrow> byte list" where
  "header type data = int_bytes type @ int_bytes (int (length data))"

definition packet :: "int \<Rightarrow> byte list \<Rightarrow> byte list" where
  "packet type data = header type data @ data"

definition buf_len :: "byte list ptr \<Rightarrow> int" where
  "buf_len buf = (case buf of None \<Rightarrow> 0 | Some data \<Rightarrow> int (length data))"

lemma buf_len_simps [simp]: "buf_len None = 0" "buf_len (Some data) = int (length data)"
  by (simp_all add: buf_len_def)

lemma safe_recv_header:
  "waiting net fd (packet type data @ later) \<Longrightarrow>
    \<exists>net'. safe_recv fd 8 net = Inr (8, header type data, net') \<and> waiting net' fd (data @ later)"
  using safe_recv_ok [of net fd "header type data" "data @ later" 8] by (auto simp: packet_def header_def)

lemma header_fields:
  "is_int type \<Longrightarrow> short data \<Longrightarrow> bytes_int (header type data) = type"
  "is_int type \<Longrightarrow> short data \<Longrightarrow> bytes_int (drop 4 (header type data)) = int (length data)"
  using short_int by (simp_all add: header_def)

text \<open>\<open>n\<close> messages in a row are handled, each with return value 1.\<close>

definition handles :: "('s \<Rightarrow> (int \<times> 's) outcome) \<Rightarrow> nat \<Rightarrow> 's \<Rightarrow> 's \<Rightarrow> bool" where
  "handles handle n s s' \<longleftrightarrow> run_ops (\<lambda>_. handle) (replicate n ()) s = Inr (replicate n 1, s')"

lemma handles_0 [simp]: "handles handle 0 s s' \<longleftrightarrow> s = s'"
  by (simp add: handles_def)

lemma handles_Suc: "handle s = Inr (1, s') \<Longrightarrow> handles handle n s' s'' \<Longrightarrow> handles handle (Suc n) s s''"
  by (simp add: handles_def)

lemma handles_trans: "handles handle n s s' \<Longrightarrow> handles handle m s' s'' \<Longrightarrow> handles handle (n + m) s s''"
  by (simp add: handles_def replicate_add run_ops_append)

locale receiver =
  fixes handle :: "'s \<Rightarrow> (int \<times> 's) outcome"
    and message :: "int \<Rightarrow> byte list ptr \<Rightarrow> 's \<Rightarrow> (int \<times> 's) outcome"
    and net_of :: "'s \<Rightarrow> net"
    and set_net :: "net \<Rightarrow> 's \<Rightarrow> 's"
    and ready :: "'s \<Rightarrow> bool"
    and fd :: int
  assumes takes: "ready s \<Longrightarrow> is_int type \<Longrightarrow> short data \<Longrightarrow> waiting (net_of s) fd (packet type data @ later) \<Longrightarrow>
      \<exists>net. handle s = message type (if data = [] then None else Some data) (set_net net s) \<and> waiting net fd later"
    and ready_set: "ready (set_net net s) \<longleftrightarrow> ready s"
    and net_set: "net_of (set_net net s) = net"
    and set_set: "set_net net (set_net net' s) = set_net net s"
    and set_same: "set_net (net_of s) s = s"
begin

text \<open>Messages of one type, each of which puts something away, whatever the connection does.\<close>

lemma handles_all:
  assumes push: "\<And>d s. d \<in> set ds \<Longrightarrow> message type (if enc d = [] then None else Some (enc d)) s = Inr (1, push d s)"
    and frame: "\<And>d s. ready (push d s) \<longleftrightarrow> ready s" "\<And>d s net. push d (set_net net s) = set_net net (push d s)"
      "\<And>d s. net_of (push d s) = net_of s"
    and "is_int type" "\<And>d. d \<in> set ds \<Longrightarrow> short (enc d)"
    and "ready s" "waiting (net_of s) fd (concat (map (packet type) (map enc ds)) @ later)"
  shows "\<exists>net. handles handle (length ds) s (set_net net (fold push ds s)) \<and> waiting net fd later"
  using push assms(6-8)
proof (induction ds arbitrary: s)
  case Nil
  then show ?case by (intro exI [of _ "net_of s"]) (simp add: set_same)
next
  case (Cons d ds)
  let ?later = "concat (map (packet type) (map enc ds)) @ later"
  have "short (enc d)" using Cons.prems(2) by simp
  from takes [OF Cons.prems(3) assms(5) this, of ?later] Cons.prems(1) [of d] Cons.prems(4)
  obtain n1 where 1: "handle s = Inr (1, push d (set_net n1 s))" "waiting n1 fd ?later" by auto
  let ?s1 = "push d (set_net n1 s)"
  obtain n2 where 2: "handles handle (length ds) ?s1 (set_net n2 (fold push ds ?s1))" "waiting n2 fd later"
    using Cons.IH [of ?s1] Cons.prems(1-3) 1(2) by (auto simp: frame ready_set net_set)
  have comm: "fold push ds (set_net net s) = set_net net (fold push ds s)" for ds net s
    by (induction ds arbitrary: s) (simp_all add: frame)
  have "set_net n2 (fold push ds ?s1) = set_net n2 (fold push (d # ds) s)"
    by (simp add: frame comm set_set)
  with 2 1(1) show ?case by (auto intro!: exI [of _ n2] handles_Suc)
qed

end

end
