(* ===== verification/Messages.thy ===== *)
theory Messages
  imports ClientNet Relay
begin

text \<open>
  Conversations: what the logic of one side hands to its network thread, sent over a connection that
  cuts the bytes anyhow, is what the logic of the other side receives, in the order of each queue. From
  clients to the tracker, from the tracker to clients, and between clients.
\<close>

section \<open>From a client to the tracker\<close>

datatype client_message = State filesystem | Update filesystem filesystem | Got cstring int | WantMaster

fun c_send :: "client_message \<Rightarrow> cnt \<Rightarrow> cnt" where
  "c_send (State fs) c = snd (send_status c (Some fs))"
| "c_send (Update adds dels) c = snd (send_updated_files c (Some adds) (Some dels))"
| "c_send (Got path chunk) c = snd (send_chunk_got c (Some path) chunk)"
| "c_send WantMaster c = snd (send_request_for_master c)"

fun states :: "client_message list \<Rightarrow> filesystem list" where
  "states [] = []"
| "states (State fs # ms) = fs # states ms"
| "states (_ # ms) = states ms"

fun updates :: "client_message list \<Rightarrow> (filesystem \<times> filesystem) list" where
  "updates [] = []"
| "updates (Update adds dels # ms) = (adds, dels) # updates ms"
| "updates (_ # ms) = updates ms"

fun gots :: "client_message list \<Rightarrow> (cstring \<times> int) list" where
  "gots [] = []"
| "gots (Got path chunk # ms) = (path, chunk) # gots ms"
| "gots (_ # ms) = gots ms"

fun wants :: "client_message list \<Rightarrow> unit list" where
  "wants [] = []"
| "wants (WantMaster # ms) = () # wants ms"
| "wants (_ # ms) = wants ms"

abbreviation fs_data :: "filesystem \<Rightarrow> byte list" where
  "fs_data fs \<equiv> folder_image (fs_root fs)"

abbreviation rootless :: "filesystem \<Rightarrow> filesystem" where
  "rootless fs \<equiv> \<lparr>fs_root_path = None, fs_root = fs_root fs\<rparr>"

definition update_data :: "filesystem \<times> filesystem \<Rightarrow> byte list" where
  "update_data u = fs_data (fst u) @ fs_data (snd u)"

definition got_data :: "cstring \<times> int \<Rightarrow> byte list" where
  "got_data g = int_bytes (snd g) @ string_bytes (fst g)"

text \<open>Messages that can be sent: serializable trees, C strings, lengths that fit in an \<open>int\<close>.\<close>

fun ok_message :: "client_message \<Rightarrow> bool" where
  "ok_message (State fs) \<longleftrightarrow> ok_folder (fs_root fs) \<and> short (fs_data fs)"
| "ok_message (Update adds dels) \<longleftrightarrow> ok_folder (fs_root adds) \<and> ok_folder (fs_root dels) \<and> short (update_data (adds, dels))"
| "ok_message (Got path chunk) \<longleftrightarrow> is_cstring path \<and> is_int chunk \<and> length path \<le> PATH_MAX"
| "ok_message WantMaster \<longleftrightarrow> True"

lemma serialize_fs: "filesystem_serialize fs = (fs_data fs, length (fs_data fs))"
  by (simp add: filesystem_serialize_def serialize_image Let_def)

lemma c_send_all: "fold c_send ms c = c
   \<lparr>ME_2_TKR_CUR_STATUS := ME_2_TKR_CUR_STATUS c @ map client_item (map fs_data (states ms)),
    ME_2_TKR_ACQ_UPDATE := ME_2_TKR_ACQ_UPDATE c @ map client_item (map got_data (gots ms)),
    ME_2_TKR_UPDATED_FILE_DIFF := ME_2_TKR_UPDATED_FILE_DIFF c @ map client_item (map update_data (updates ms)),
    ME_2_TKR_GET_MASTER := ME_2_TKR_GET_MASTER c @ map (\<lambda>_. 1) (wants ms)\<rparr>"
proof (induction ms arbitrary: c)
  case Nil
  show ?case by simp
next
  case (Cons m ms)
  show ?case
    by (cases m) (simp_all add: Cons send_status_def send_updated_files_def send_chunk_got_def
        send_request_for_master_def serialize_fs update_data_def got_data_def)
qed

abbreviation msg_image :: "client_to_tracker \<Rightarrow> byte list \<Rightarrow> byte list" where
  "msg_image type \<equiv> packet (c2t_code type)"

lemma drain_items:
  "0 \<le> tracker_fd c \<Longrightarrow> \<exists>net. drain (send_client_item type) (map client_item ds) c = Inr ([], c\<lparr>c_net := net\<rparr>)
    \<and> sent_to (tracker_fd c) net = sent_to (tracker_fd c) (c_net c) @ concat (map (msg_image type) ds)"
proof (induction ds arbitrary: c)
  case Nil
  then show ?case by (intro exI [of _ "c_net c"]) simp
next
  case (Cons d ds)
  let ?net = "(c_net c)\<lparr>n_sent := (n_sent (c_net c) @ [(tracker_fd c, client_pkt (c2t_code type) (int (length d)))]) @ [(tracker_fd c, d)]\<rparr>"
  have 1: "send_client_item type (client_item d) c = Inr (True, c\<lparr>c_net := ?net\<rparr>)"
    using Cons.prems by (simp add: send_client_item_def client_item_def send_ok client_pkt_def)
  have "sent_to (tracker_fd c) ?net = sent_to (tracker_fd c) (c_net c) @ msg_image type d"
    by (simp add: sent_to_def packet_def header_def client_pkt_def)
  with Cons.IH [of "c\<lparr>c_net := ?net\<rparr>"] Cons.prems 1 show ?case by auto
qed

lemma drain_requests:
  "0 \<le> tracker_fd c \<Longrightarrow> ME_2_TKR_GET_MASTER c = map (\<lambda>_. 1) us \<Longrightarrow>
    \<exists>net. check_master_req_q c = Inr (c\<lparr>c_net := net, ME_2_TKR_GET_MASTER := []\<rparr>)
    \<and> sent_to (tracker_fd c) net = sent_to (tracker_fd c) (c_net c) @ concat (map (\<lambda>_. msg_image REQUEST_MASTER []) us)"
proof -
  define f :: "int \<Rightarrow> cnt \<Rightarrow> (bool \<times> cnt) outcome" where "f = (\<lambda>i cnt. if i \<noteq> 1 then Inr (False, cnt)
    else bindE (send (tracker_fd cnt) (Some (client_pkt (c2t_code REQUEST_MASTER) 0)) 8 (c_net cnt)) (\<lambda>net. Inr (True, cnt\<lparr>c_net := net\<rparr>)))"
  have "0 \<le> tracker_fd c \<Longrightarrow> \<exists>net. drain f (map (\<lambda>_. 1) us) c = Inr ([], c\<lparr>c_net := net\<rparr>)
      \<and> sent_to (tracker_fd c) net = sent_to (tracker_fd c) (c_net c) @ concat (map (\<lambda>_. msg_image REQUEST_MASTER []) us)" for c
  proof (induction us arbitrary: c)
    case Nil
    then show ?case by (intro exI [of _ "c_net c"]) simp
  next
    case (Cons u us)
    let ?net = "(c_net c)\<lparr>n_sent := n_sent (c_net c) @ [(tracker_fd c, client_pkt (c2t_code REQUEST_MASTER) 0)]\<rparr>"
    have 1: "f 1 c = Inr (True, c\<lparr>c_net := ?net\<rparr>)" using Cons.prems by (simp add: f_def send_ok client_pkt_def)
    have "sent_to (tracker_fd c) ?net = sent_to (tracker_fd c) (c_net c) @ msg_image REQUEST_MASTER []"
      by (simp add: sent_to_def packet_def header_def client_pkt_def)
    with Cons.IH [of "c\<lparr>c_net := ?net\<rparr>"] Cons.prems 1 show ?case by auto
  qed
  from this [of c] show "0 \<le> tracker_fd c \<Longrightarrow> ME_2_TKR_GET_MASTER c = map (\<lambda>_. 1) us \<Longrightarrow> ?thesis"
    by (auto simp: check_master_req_q_def f_def)
qed

text \<open>The bytes of the queues in the order in which they are polled.\<close>

definition client_images :: "client_message list \<Rightarrow> byte list" where
  "client_images ms = concat (map (msg_image CLIENT_STATE) (map fs_data (states ms)))
     @ concat (map (msg_image CHUNK_GOT) (map got_data (gots ms)))
     @ concat (map (msg_image REQUEST_MASTER) (map (\<lambda>_. []) (wants ms)))
     @ concat (map (msg_image CLIENT_UPDATE) (map update_data (updates ms)))"

definition c_idle :: "cnt \<Rightarrow> bool" where
  "c_idle c \<longleftrightarrow> ME_2_TKR_CUR_STATUS c = [] \<and> ME_2_TKR_ACQ_UPDATE c = [] \<and> ME_2_TKR_UPDATED_FILE_DIFF c = []
     \<and> ME_2_TKR_GET_MASTER c = [] \<and> ME_2_CLT_REQ_CHUNK c = [] \<and> ME_2_CLT_SEND_CHUNK c = [] \<and> ME_2_CLT_SEND_ERROR c = []"

lemma poll_messages:
  assumes "c_idle c" "0 \<le> tracker_fd c"
  shows "\<exists>net. clt_poll_queues connect (fold c_send ms c) = Inr (c\<lparr>c_net := net\<rparr>)
    \<and> sent_to (tracker_fd c) net = sent_to (tracker_fd c) (c_net c) @ client_images ms"
proof -
  note fd = assms(2)
  let ?c1 = "fold c_send ms c"
  have c1: "ME_2_TKR_CUR_STATUS ?c1 = map client_item (map fs_data (states ms))" "tracker_fd ?c1 = tracker_fd c"
    "c_net ?c1 = c_net c"
    unfolding c_send_all using assms(1) by (simp_all add: c_idle_def)
  obtain n1 where 1: "check_cur_status_q ?c1 = Inr (?c1\<lparr>c_net := n1, ME_2_TKR_CUR_STATUS := []\<rparr>)"
    "sent_to (tracker_fd c) n1 = sent_to (tracker_fd c) (c_net c) @ concat (map (msg_image CLIENT_STATE) (map fs_data (states ms)))"
    using drain_items [of ?c1 CLIENT_STATE "map fs_data (states ms)"] fd
    unfolding check_cur_status_q_def c1 by auto
  let ?c2 = "?c1\<lparr>c_net := n1, ME_2_TKR_CUR_STATUS := []\<rparr>"
  have c2: "ME_2_TKR_ACQ_UPDATE ?c2 = map client_item (map got_data (gots ms))" "tracker_fd ?c2 = tracker_fd c" "c_net ?c2 = n1"
    unfolding c_send_all using assms(1) by (simp_all add: c_idle_def)
  obtain n2 where 2: "clt_check_file_acq_q ?c2 = Inr (?c2\<lparr>c_net := n2, ME_2_TKR_ACQ_UPDATE := []\<rparr>)"
    "sent_to (tracker_fd c) n2 = sent_to (tracker_fd c) n1 @ concat (map (msg_image CHUNK_GOT) (map got_data (gots ms)))"
    using drain_items [of ?c2 CHUNK_GOT "map got_data (gots ms)"] fd
    unfolding clt_check_file_acq_q_def c2 by auto
  let ?c3 = "?c2\<lparr>c_net := n2, ME_2_TKR_ACQ_UPDATE := []\<rparr>"
  have c3: "ME_2_TKR_GET_MASTER ?c3 = map (\<lambda>_. 1) (wants ms)" "tracker_fd ?c3 = tracker_fd c" "c_net ?c3 = n2"
    unfolding c_send_all using assms(1) by (simp_all add: c_idle_def)
  obtain n3 where 3: "check_master_req_q ?c3 = Inr (?c3\<lparr>c_net := n3, ME_2_TKR_GET_MASTER := []\<rparr>)"
    "sent_to (tracker_fd c) n3 = sent_to (tracker_fd c) n2 @ concat (map (\<lambda>_. msg_image REQUEST_MASTER []) (wants ms))"
    using drain_requests [of ?c3 "wants ms"] fd c3 by auto
  let ?c4 = "?c3\<lparr>c_net := n3, ME_2_TKR_GET_MASTER := []\<rparr>"
  have c4: "ME_2_TKR_UPDATED_FILE_DIFF ?c4 = map client_item (map update_data (updates ms))" "tracker_fd ?c4 = tracker_fd c" "c_net ?c4 = n3"
    unfolding c_send_all using assms(1) by (simp_all add: c_idle_def)
  obtain n4 where 4: "check_updated_fs_q ?c4 = Inr (?c4\<lparr>c_net := n4, ME_2_TKR_UPDATED_FILE_DIFF := []\<rparr>)"
    "sent_to (tracker_fd c) n4 = sent_to (tracker_fd c) n3 @ concat (map (msg_image CLIENT_UPDATE) (map update_data (updates ms)))"
    using drain_items [of ?c4 CLIENT_UPDATE "map update_data (updates ms)"] fd
    unfolding check_updated_fs_q_def c4 by auto
  let ?c5 = "?c4\<lparr>c_net := n4, ME_2_TKR_UPDATED_FILE_DIFF := []\<rparr>"
  have c5: "?c5 = c\<lparr>c_net := n4\<rparr>"
    unfolding c_send_all using assms(1) by (cases c) (simp add: c_idle_def)
  have rest: "check_req_chunk_q connect (c\<lparr>c_net := n4\<rparr>) = Inr (c\<lparr>c_net := n4\<rparr>)"
    "check_send_chunk_q (c\<lparr>c_net := n4\<rparr>) = Inr (c\<lparr>c_net := n4\<rparr>)" "check_req_error_q (c\<lparr>c_net := n4\<rparr>) = Inr (c\<lparr>c_net := n4\<rparr>)"
    using assms(1) by (cases c, simp add: c_idle_def check_req_chunk_q_def check_send_chunk_q_def check_req_error_q_def)+
  have "clt_poll_queues connect ?c1 = Inr (c\<lparr>c_net := n4\<rparr>)"
    by (simp only: clt_poll_queues_def 1(1) 2(1) 3(1) 4(1) c5 rest bindE.simps)
  moreover have "sent_to (tracker_fd c) n4 = sent_to (tracker_fd c) (c_net c) @ client_images ms"
    unfolding 4(2) 3(2) 2(2) 1(2) client_images_def by (simp add: comp_def)
  ultimately show ?thesis by blast
qed

section \<open>The tracker takes the messages in\<close>

lemma c2t_int: "is_int (c2t_code type)"
  by (cases type) (simp_all add: is_int_def)

interpretation tracker: receiver "handle_client_msg now fd" "\<lambda>type buf. client_msg now type (buf_len buf) buf p"
    t_net "\<lambda>net t. t\<lparr>t_net := net\<rparr>" "\<lambda>t. get_peer_by_socket (t_peer_table t) fd = Inr (Some p)" fd for now fd p
proof
  fix t :: tnt and type data later
  assume a: "get_peer_by_socket (t_peer_table t) fd = Inr (Some p)" "is_int type" "short data" "waiting (t_net t) fd (packet type data @ later)"
  obtain n1 where 1: "safe_recv fd 8 (t_net t) = Inr (8, header type data, n1)" "waiting n1 fd (data @ later)"
    using safe_recv_header [OF a(4)] by blast
  note h = header_fields [OF a(2,3)]
  show "\<exists>net. handle_client_msg now fd t = client_msg now type (buf_len (if data = [] then None else Some data))
      (if data = [] then None else Some data) p (t\<lparr>t_net := net\<rparr>) \<and> waiting net fd later"
  proof (cases "data = []")
    case True
    then show ?thesis using a(1) 1 h by (intro exI [of _ n1]) (simp add: handle_client_msg_def)
  next
    case False
    obtain n2 where 2: "safe_recv fd (int (length data)) n1 = Inr (int (length data), data, n2)" "waiting n2 fd later"
      using safe_recv_ok [OF 1(2) refl] by blast
    with False show ?thesis using a(1) 1(1) h by (intro exI [of _ n2]) (simp add: handle_client_msg_def Let_def)
  qed
qed simp_all

definition got_item :: "int \<Rightarrow> byte list \<Rightarrow> byte list ptr client_data" where
  "got_item i data = \<lparr>cd_client_id = i, cd_data_len = int (length data), cd_data = Some data\<rparr>"

definition state_item :: "int \<Rightarrow> filesystem \<Rightarrow> filesystem client_data" where
  "state_item i fs = \<lparr>cd_client_id = i, cd_data_len = int (length (fs_data fs)), cd_data = rootless fs\<rparr>"

lemma fold_notify:
  "fold (\<lambda>d t. notify_client_status t (f d)) ds t = t\<lparr>CLT_2_TKR_CUR_STATE := CLT_2_TKR_CUR_STATE t @ map f ds\<rparr>"
  "fold (\<lambda>d t. notify_client_got t (g d)) ds t = t\<lparr>CLT_2_TKR_CLIENT_GOT := CLT_2_TKR_CLIENT_GOT t @ map g ds\<rparr>"
  "fold (\<lambda>d t. notify_client_update t (g d)) ds t = t\<lparr>CLT_2_TKR_FILE_UPDATE := CLT_2_TKR_FILE_UPDATE t @ map g ds\<rparr>"
  "1 \<le> i \<Longrightarrow> fold (\<lambda>d t. notify_master_req t i) ds t = t\<lparr>CLT_2_TKR_CLIENT_REQ_MASTER := CLT_2_TKR_CLIENT_REQ_MASTER t @ map (\<lambda>_. i) ds\<rparr>"
  by (induction ds arbitrary: t) (simp_all add: notify_client_status_def notify_client_got_def notify_client_update_def notify_master_req_def)

lemma fs_data_nonempty [simp]: "folder_image f \<noteq> []"
  by (cases f) simp

lemma got_data_nonempty [simp]: "got_data g \<noteq> []"
  by (simp add: got_data_def int_bytes_def)

lemma client_msg_state:
  "ok_folder (fs_root fs) \<Longrightarrow> client_msg now (c2t_code CLIENT_STATE) (int (length (fs_data fs))) (Some (fs_data fs)) p t
    = Inr (1, notify_client_status t (state_item (p_id p) fs))"
  using deserialize_image [of "fs_root fs" "[]"] by (simp add: client_msg_def derefE_def state_item_def)

lemma client_msg_data:
  "client_msg now (c2t_code CHUNK_GOT) (int (length data)) (Some data) p t = Inr (1, notify_client_got t (got_item (p_id p) data))"
  "client_msg now (c2t_code CLIENT_UPDATE) (int (length data)) (Some data) p t = Inr (1, notify_client_update t (got_item (p_id p) data))"
  "client_msg now (c2t_code REQUEST_MASTER) 0 None p t = Inr (1, notify_master_req t (p_id p))"
  by (simp_all add: client_msg_def got_item_def)

lemma parts_length: "length (states ms) + length (gots ms) + length (wants ms) + length (updates ms) = length ms"
proof (induction ms)
  case (Cons m ms)
  then show ?case by (cases m) simp_all
qed simp

lemma parts_ok:
  "list_all ok_message ms \<Longrightarrow> list_all (\<lambda>fs. ok_message (State fs)) (states ms)"
  "list_all ok_message ms \<Longrightarrow> list_all (\<lambda>u. ok_message (Update (fst u) (snd u))) (updates ms)"
  "list_all ok_message ms \<Longrightarrow> list_all (\<lambda>g. ok_message (Got (fst g) (snd g))) (gots ms)"
proof (induction ms)
  case (Cons m ms)
  { case 1 then show ?case using Cons by (cases m) simp_all next
    case 2 then show ?case using Cons by (cases m) simp_all next
    case 3 then show ?case using Cons by (cases m) simp_all }
qed simp_all

lemma short_got: "length (fst g) \<le> PATH_MAX \<Longrightarrow> short (got_data g)"
  by (simp add: short_def got_data_def string_bytes_def PATH_MAX_def)

lemma notify_master_frame [simp]:
  "t_peer_table (notify_master_req t i) = t_peer_table t" "t_net (notify_master_req t i) = t_net t"
  "notify_master_req (t\<lparr>t_net := net\<rparr>) i = notify_master_req t i\<lparr>t_net := net\<rparr>"
  by (simp_all add: notify_master_req_def)

text \<open>The state of the tracker when all messages have come in.\<close>

lemma handles_messages:
  assumes "list_all ok_message ms" "get_peer_by_socket (t_peer_table t) fd = Inr (Some p)" "1 \<le> p_id p"
    "waiting (t_net t) fd (client_images ms @ later)"
  shows "\<exists>net. handles (handle_client_msg now fd) (length ms) t (t
      \<lparr>CLT_2_TKR_CUR_STATE := CLT_2_TKR_CUR_STATE t @ map (state_item (p_id p)) (states ms),
       CLT_2_TKR_CLIENT_GOT := CLT_2_TKR_CLIENT_GOT t @ map (got_item (p_id p) \<circ> got_data) (gots ms),
       CLT_2_TKR_CLIENT_REQ_MASTER := CLT_2_TKR_CLIENT_REQ_MASTER t @ map (\<lambda>_. p_id p) (wants ms),
       CLT_2_TKR_FILE_UPDATE := CLT_2_TKR_FILE_UPDATE t @ map (got_item (p_id p) \<circ> update_data) (updates ms), t_net := net\<rparr>)
    \<and> waiting net fd later"
proof -
  let ?i = "p_id p"
  note ok = parts_ok [OF assms(1)]
  let ?r3 = "concat (map (msg_image CLIENT_UPDATE) (map update_data (updates ms))) @ later"
  let ?r2 = "concat (map (msg_image REQUEST_MASTER) (map (\<lambda>_. []) (wants ms))) @ ?r3"
  let ?r1 = "concat (map (msg_image CHUNK_GOT) (map got_data (gots ms))) @ ?r2"
  obtain n1 where 1: "handles (handle_client_msg now fd) (length (states ms)) t
      ((fold (\<lambda>d t. notify_client_status t (state_item ?i d)) (states ms) t)\<lparr>t_net := n1\<rparr>)" "waiting n1 fd ?r1"
    using tracker.handles_all [where ds = "states ms" and now = now and p = p and type = "c2t_code CLIENT_STATE" and enc = fs_data and push = "\<lambda>d t. notify_client_status t (state_item ?i d)" and fd = fd and s = "t" and later = "?r1"]
      ok(1) assms(2,4) by (auto simp: list_all_iff client_msg_state notify_client_status_def client_images_def c2t_int simp del: c2t_code.simps)
  let ?t1 = "(fold (\<lambda>d t. notify_client_status t (state_item ?i d)) (states ms) t)\<lparr>t_net := n1\<rparr>"
  obtain n2 where 2: "handles (handle_client_msg now fd) (length (gots ms)) ?t1
      ((fold (\<lambda>d t. notify_client_got t (got_item ?i (got_data d))) (gots ms) ?t1)\<lparr>t_net := n2\<rparr>)" "waiting n2 fd ?r2"
    using tracker.handles_all [where ds = "gots ms" and now = now and p = p and type = "c2t_code CHUNK_GOT" and enc = got_data and push = "\<lambda>d t. notify_client_got t (got_item ?i (got_data d))" and fd = fd and s = "?t1" and later = "?r2"]
      ok(3) assms(2) 1(2) by (auto simp: list_all_iff client_msg_data short_got notify_client_got_def fold_notify c2t_int simp del: c2t_code.simps)
  let ?t2 = "(fold (\<lambda>d t. notify_client_got t (got_item ?i (got_data d))) (gots ms) ?t1)\<lparr>t_net := n2\<rparr>"
  obtain n3 where 3: "handles (handle_client_msg now fd) (length (wants ms)) ?t2
      ((fold (\<lambda>d t. notify_master_req t ?i) (wants ms) ?t2)\<lparr>t_net := n3\<rparr>)" "waiting n3 fd ?r3"
    using tracker.handles_all [where ds = "wants ms" and now = now and p = p and type = "c2t_code REQUEST_MASTER" and enc = "\<lambda>_. []" and push = "\<lambda>d t. notify_master_req t ?i" and fd = fd and s = "?t2" and later = "?r3"]
      assms(2) 2(2) by (auto simp: client_msg_data short_def fold_notify assms(3) c2t_int simp del: c2t_code.simps)
  let ?t3 = "(fold (\<lambda>d t. notify_master_req t ?i) (wants ms) ?t2)\<lparr>t_net := n3\<rparr>"
  have "update_data u \<noteq> []" for u by (simp add: update_data_def)
  then obtain n4 where 4: "handles (handle_client_msg now fd) (length (updates ms)) ?t3
      ((fold (\<lambda>d t. notify_client_update t (got_item ?i (update_data d))) (updates ms) ?t3)\<lparr>t_net := n4\<rparr>)" "waiting n4 fd later"
    using tracker.handles_all [where ds = "updates ms" and now = now and p = p and type = "c2t_code CLIENT_UPDATE" and enc = update_data and push = "\<lambda>d t. notify_client_update t (got_item ?i (update_data d))" and fd = fd and s = "?t3" and later = "later"]
      ok(2) assms(2,3) 3(2) by (auto simp: list_all_iff client_msg_data notify_client_update_def fold_notify c2t_int simp del: c2t_code.simps)
  let ?t4 = "(fold (\<lambda>d t. notify_client_update t (got_item ?i (update_data d))) (updates ms) ?t3)\<lparr>t_net := n4\<rparr>"
  have "handles (handle_client_msg now fd) (length ms) t ?t4"
    using handles_trans [OF handles_trans [OF handles_trans [OF 1(1) 2(1)] 3(1)] 4(1)] by (simp add: parts_length)
  moreover have "?t4 = t
      \<lparr>CLT_2_TKR_CUR_STATE := CLT_2_TKR_CUR_STATE t @ map (state_item ?i) (states ms),
       CLT_2_TKR_CLIENT_GOT := CLT_2_TKR_CLIENT_GOT t @ map (got_item ?i \<circ> got_data) (gots ms),
       CLT_2_TKR_CLIENT_REQ_MASTER := CLT_2_TKR_CLIENT_REQ_MASTER t @ map (\<lambda>_. ?i) (wants ms),
       CLT_2_TKR_FILE_UPDATE := CLT_2_TKR_FILE_UPDATE t @ map (got_item ?i \<circ> update_data) (updates ms), t_net := n4\<rparr>"
    using assms(3) by (cases t) (simp add: fold_notify comp_def)
  ultimately show ?thesis using 4(2) by auto
qed

lemma receive_update_loop:
  assumes "CLT_2_TKR_FILE_UPDATE t = map (got_item i \<circ> update_data) us"
    "list_all (\<lambda>u. ok_message (Update (fst u) (snd u))) us" "length us < fuel"
  shows "\<exists>rs t'. collect fuel receive_client_update t = Inr (rs, t') \<and> map snd rs = map (\<lambda>u. (i, rootless (fst u), rootless (snd u))) us"
proof -
  define g where "g = (\<lambda>u. (int (length (update_data u)), i, rootless (fst u), rootless (snd u)))"
  have "\<exists>t'. receive_client_update t = Inr (Some (g u), t') \<and> CLT_2_TKR_FILE_UPDATE t' = xs"
    if q: "CLT_2_TKR_FILE_UPDATE t = (got_item i \<circ> update_data) u # xs" and ok: "ok_message (Update (fst u) (snd u))" for t u xs
  proof -
    have "ok_folder (fs_root (fst u))" "ok_folder (fs_root (snd u))" using ok by simp_all
    from deserialize_image [OF this(1), of "fs_data (snd u)"] deserialize_image [OF this(2), of "[]"] q
    show ?thesis by (simp add: receive_client_update_def got_item_def derefE_def update_data_def g_def)
  qed
  from collect_map [where q = CLT_2_TKR_FILE_UPDATE and f = receive_client_update and h = "got_item i \<circ> update_data"
      and P = "\<lambda>u. ok_message (Update (fst u) (snd u))" and g = g, OF _ this assms(2,1,3)]
  obtain t' where "collect fuel receive_client_update t = Inr (map g us, t')"
    by (auto simp: receive_client_update_def)
  then show ?thesis by (simp add: g_def)
qed

abbreviation receive_got :: "tnt \<Rightarrow> ((byte list \<times> int \<times> int) option \<times> tnt) outcome" where
  "receive_got t \<equiv> receive_client_got t (replicate (PATH_MAX + 1) 0)"

abbreviation receive_request :: "tnt \<Rightarrow> (int option \<times> tnt) outcome" where
  "receive_request t \<equiv> Inr (if fst (receive_master_request t) > 0 then Some (fst (receive_master_request t)) else None,
     snd (receive_master_request t))"

lemma receive_got_loop:
  assumes "CLT_2_TKR_CLIENT_GOT t = map (got_item i \<circ> got_data) gs"
    "list_all (\<lambda>g. ok_message (Got (fst g) (snd g))) gs" "length gs < fuel"
  shows "\<exists>rs t'. collect fuel receive_got t = Inr (rs, t')
    \<and> map (\<lambda>r. (map_sum id fst (read_string (fst r)), snd r)) rs = map (\<lambda>g. (Inr (fst g), snd g, i)) gs"
proof -
  define a where "a = (\<lambda>g :: cstring \<times> int. (fst g @ replicate (Suc PATH_MAX - length (fst g)) (0 :: byte), snd g, i))"
  have "\<exists>t'. receive_got t = Inr (Some (a g), t') \<and> CLT_2_TKR_CLIENT_GOT t' = xs"
    if q: "CLT_2_TKR_CLIENT_GOT t = (got_item i \<circ> got_data) g # xs" and ok: "ok_message (Got (fst g) (snd g))" for t g xs
  proof -
    have ok': "is_int (snd g)" "length (fst g) \<le> PATH_MAX" using ok by simp_all
    then have "int_decode (got_data g) = Inr (snd g, string_bytes (fst g))"
      using int_codec.dec_enc [of "snd g"] by (simp add: got_data_def)
    moreover have "move_into (replicate (PATH_MAX + 1) 0) (string_bytes (fst g)) (int (length (got_data g)) - 4) = Inr (fst (a g))"
      using ok'(2) by (simp add: move_into_def got_data_def string_bytes_def a_def replicate_Suc [symmetric] Suc_diff_le del: replicate_Suc)
    ultimately show ?thesis using q by (simp add: receive_client_got_def got_item_def derefE_def a_def del: replicate_Suc)
  qed
  from collect_map [where q = CLT_2_TKR_CLIENT_GOT and f = receive_got and h = "got_item i \<circ> got_data"
      and P = "\<lambda>g. ok_message (Got (fst g) (snd g))" and g = a, OF _ this assms(2,1,3)]
  obtain t' where r: "collect fuel receive_got t = Inr (map a gs, t')"
    by (auto simp: receive_client_got_def)
  have "(map_sum id fst (read_string (fst (a g))), snd (a g)) = (Inr (fst g), snd g, i)" if "g \<in> set gs" for g
  proof -
    have g: "is_cstring (fst g)" "length (fst g) \<le> PATH_MAX" using assms(2) that by (auto simp: list_all_iff)
    then have "fst (a g) = string_bytes (fst g) @ replicate (PATH_MAX - length (fst g)) 0"
      by (simp add: a_def string_bytes_def Suc_diff_le)
    then show ?thesis using string_codec.dec_enc [OF g(1)] by (simp add: a_def)
  qed
  with r show ?thesis by simp
qed

lemma receive_request_loop:
  assumes "CLT_2_TKR_CLIENT_REQ_MASTER t = map (\<lambda>_. i) us" "1 \<le> i" "length us < fuel"
  shows "\<exists>t'. collect fuel receive_request t = Inr (map (\<lambda>_. i) us, t')"
  using collect_map [where q = CLT_2_TKR_CLIENT_REQ_MASTER and f = receive_request and h = "\<lambda>_. i"
      and P = "\<lambda>_. True" and g = "\<lambda>_. i", of us t fuel] assms
  by (auto simp: receive_master_request_def pop_int_def list_all_iff)

lemma parts_le: "length (states ms) \<le> length ms" "length (gots ms) \<le> length ms" "length (wants ms) \<le> length ms"
    "length (updates ms) \<le> length ms"
  using parts_length [of ms] by linarith+

text \<open>C8. What a client's logic hands to its network thread reaches the tracker's logic: after one poll
  of the client's queues the connection carries the messages, and however TCP cuts these bytes, the
  tracker handles each of them, takes no byte more, and its logic then receives exactly the updates, the
  chunks got and the requests for the master, each kind in the order sent, under the client's number.
  Paths fit in the tracker's buffer and lengths in an \<open>int\<close>.\<close>

theorem client_messages_reach_tracker:
  assumes "list_all ok_message ms" "c_idle c" "0 \<le> tracker_fd c"
    and "get_peer_by_socket (t_peer_table t) fd = Inr (Some p)" "1 \<le> p_id p"
    and "CLT_2_TKR_FILE_UPDATE t = []" "CLT_2_TKR_CLIENT_GOT t = []" "CLT_2_TKR_CLIENT_REQ_MASTER t = []"
    and "waiting (t_net t) fd (client_images ms @ later)"
  shows "(\<exists>net. clt_poll_queues connect (fold c_send ms c) = Inr (c\<lparr>c_net := net\<rparr>)
      \<and> sent_to (tracker_fd c) net = sent_to (tracker_fd c) (c_net c) @ client_images ms)
    \<and> (\<exists>t'. handles (handle_client_msg now fd) (length ms) t t' \<and> waiting (t_net t') fd later
      \<and> (\<exists>rs t''. collect (Suc (length ms)) receive_client_update t' = Inr (rs, t'')
        \<and> map snd rs = map (\<lambda>u. (p_id p, rootless (fst u), rootless (snd u))) (updates ms))
      \<and> (\<exists>rs t''. collect (Suc (length ms)) receive_got t' = Inr (rs, t'')
        \<and> map (\<lambda>r. (map_sum id fst (read_string (fst r)), snd r)) rs = map (\<lambda>g. (Inr (fst g), snd g, p_id p)) (gots ms))
      \<and> (\<exists>t''. collect (Suc (length ms)) receive_request t' = Inr (map (\<lambda>_. p_id p) (wants ms), t'')))"
proof (rule conjI [OF poll_messages [OF assms(2,3)]])
  note ok = parts_ok [OF assms(1)]
  note le = parts_le [of ms]
  obtain net where net: "waiting net fd later" and handles: "handles (handle_client_msg now fd) (length ms) t (t
      \<lparr>CLT_2_TKR_CUR_STATE := CLT_2_TKR_CUR_STATE t @ map (state_item (p_id p)) (states ms),
       CLT_2_TKR_CLIENT_GOT := CLT_2_TKR_CLIENT_GOT t @ map (got_item (p_id p) \<circ> got_data) (gots ms),
       CLT_2_TKR_CLIENT_REQ_MASTER := CLT_2_TKR_CLIENT_REQ_MASTER t @ map (\<lambda>_. p_id p) (wants ms),
       CLT_2_TKR_FILE_UPDATE := CLT_2_TKR_FILE_UPDATE t @ map (got_item (p_id p) \<circ> update_data) (updates ms), t_net := net\<rparr>)"
    (is "handles _ _ _ ?t")
    using handles_messages [OF assms(1,4,5,9)] by blast
  have u: "\<exists>rs t''. collect (Suc (length ms)) receive_client_update ?t = Inr (rs, t'')
      \<and> map snd rs = map (\<lambda>u. (p_id p, rootless (fst u), rootless (snd u))) (updates ms)"
    by (rule receive_update_loop [OF _ ok(2)]) (use assms(6) le in simp_all)
  have g: "\<exists>rs t''. collect (Suc (length ms)) receive_got ?t = Inr (rs, t'')
      \<and> map (\<lambda>r. (map_sum id fst (read_string (fst r)), snd r)) rs = map (\<lambda>g. (Inr (fst g), snd g, p_id p)) (gots ms)"
    by (rule receive_got_loop [OF _ ok(3)]) (use assms(7) le in simp_all)
  have r: "\<exists>t''. collect (Suc (length ms)) receive_request ?t = Inr (map (\<lambda>_. p_id p) (wants ms), t'')"
    by (rule receive_request_loop [OF _ assms(5)]) (use assms(8) le in simp_all)
  show "\<exists>t'. handles (handle_client_msg now fd) (length ms) t t' \<and> waiting (t_net t') fd later
      \<and> (\<exists>rs t''. collect (Suc (length ms)) receive_client_update t' = Inr (rs, t'')
        \<and> map snd rs = map (\<lambda>u. (p_id p, rootless (fst u), rootless (snd u))) (updates ms))
      \<and> (\<exists>rs t''. collect (Suc (length ms)) receive_got t' = Inr (rs, t'')
        \<and> map (\<lambda>r. (map_sum id fst (read_string (fst r)), snd r)) rs = map (\<lambda>g. (Inr (fst g), snd g, p_id p)) (gots ms))
      \<and> (\<exists>t''. collect (Suc (length ms)) receive_request t' = Inr (map (\<lambda>_. p_id p) (wants ms), t''))"
    by (intro exI [of _ ?t] conjI handles u g r) (simp add: net)
qed

text \<open>Client 5 on socket 7 of the tracker says that it got a chunk and wants the master, in two pieces.\<close>

definition no_net :: net where
  "no_net = \<lparr>n_in = (\<lambda>_. []), n_sent = [], n_closed = []\<rparr>"

definition peer_5 :: peer where
  "peer_5 = \<lparr>p_ip_addr = [10, 0, 0, 5], p_socketfd = 7, p_id = 5, p_time_last_alive = 0\<rparr>"

definition tracker_of_5 :: "piece list \<Rightarrow> tnt" where
  "tracker_of_5 ps = (StartTrackerNetwork no_net)\<lparr>t_peer_table := Some \<lparr>pt_list = [Free, Used peer_5, Free], pt_count = 1, pt_id_counter = 6\<rparr>,
     t_net := no_net\<lparr>n_in := (\<lambda>_. [])(7 := ps)\<rparr>\<rparr>"

lemma cut_in_two: "0 < k \<Longrightarrow> k < length bs \<Longrightarrow> n_in net fd = [Bytes (take k bs), Bytes (drop k bs)] \<Longrightarrow> waiting net fd bs"
  by (auto simp: waiting_def)

theorem client_messages_reach_tracker_witness:
  "\<exists>t s. handles (handle_client_msg 0 7) 2 (tracker_of_5 [Bytes (take 11 (client_images [Got [97] 2, WantMaster])), Bytes (drop 11 (client_images [Got [97] 2, WantMaster]))]) t
    \<and> collect 3 receive_request t = Inr ([5], s)"
proof -
  let ?ms = "[Got [97] 2, WantMaster]"
  let ?t = "tracker_of_5 [Bytes (take 11 (client_images ?ms)), Bytes (drop 11 (client_images ?ms))]"
  obtain c where c: "StartClientNetwork (Some [10, 0, 0, 1]) 4 no_net = Some c" by (simp add: StartClientNetwork_def)
  have idle: "c_idle c" "0 \<le> tracker_fd c" using c by (auto simp: StartClientNetwork_def c_idle_def)
  have images: "length (client_images ?ms) = 22"
    by (simp add: client_images_def packet_def header_def got_data_def string_bytes_def)
  have "waiting (t_net ?t) 7 (client_images ?ms @ [])"
    using cut_in_two [of 11 "client_images ?ms" "t_net ?t" 7] images by (simp add: tracker_of_5_def)
  moreover have "get_peer_by_socket (t_peer_table ?t) 7 = Inr (Some peer_5)" "1 \<le> p_id peer_5"
    by (simp_all add: tracker_of_5_def get_peer_by_socket_def get_peer_def peer_5_def)
  moreover have "CLT_2_TKR_FILE_UPDATE ?t = []" "CLT_2_TKR_CLIENT_GOT ?t = []" "CLT_2_TKR_CLIENT_REQ_MASTER ?t = []"
    by (simp_all add: tracker_of_5_def StartTrackerNetwork_def)
  moreover have "list_all ok_message ?ms" by (simp add: is_cstring_def is_int_def PATH_MAX_def)
  ultimately obtain t s where r: "handles (handle_client_msg 0 7) (length ?ms) ?t t" "collect (Suc (length ?ms)) receive_request t = Inr (map (\<lambda>_. p_id peer_5) (wants ?ms), s)"
    using client_messages_reach_tracker [OF _ idle, of ?ms ?t 7 peer_5 "[]" "\<lambda>_. None" 0] by blast
  have l: "length ?ms = 2" "Suc 2 = (3 :: nat)" "map (\<lambda>_. p_id peer_5) (wants ?ms) = [5]" by (simp_all add: peer_5_def)
  show ?thesis using r unfolding l by blast
qed

end
