(* ===== verification/Broadcast.thy ===== *)
theory Broadcast
  imports Messages
begin

text \<open>
  From the tracker to its clients: what the tracker's logic addresses to connected clients goes out with
  the next poll of the queues, to each client its own messages, and is what that client's logic receives.
\<close>

section \<open>The tracker's messages\<close>

text \<open>A difference with the client it comes from, a chunk some client got, the master and its table.\<close>

datatype tracker_message =
  Diff filesystem filesystem int | GotChunk int cstring int | Master filesystem | MasterTable filetable

fun t_send :: "int \<times> tracker_message \<Rightarrow> tnt \<Rightarrow> tnt outcome" where
  "t_send (dest, Diff adds dels originator) t =
     bindE (send_FS_update t dest originator (Some adds) (Some dels)) (\<lambda>(r, t). Inr t)"
| "t_send (dest, GotChunk got path chunk) t = bindE (send_got_chunk_update t dest got (Some path) chunk) (\<lambda>(r, t). Inr t)"
| "t_send (dest, Master fs) t = Inr (snd (send_master t dest (Some fs)))"
| "t_send (dest, MasterTable ft) t = bindE (send_master_filetable t dest (Some ft)) (\<lambda>(r, t). Inr t)"

fun diffs :: "(int \<times> tracker_message) list \<Rightarrow> (int \<times> filesystem \<times> filesystem \<times> int) list" where
  "diffs [] = []"
| "diffs ((d, Diff adds dels i) # ms) = (d, adds, dels, i) # diffs ms"
| "diffs (_ # ms) = diffs ms"

fun acqs :: "(int \<times> tracker_message) list \<Rightarrow> (int \<times> int \<times> cstring \<times> int) list" where
  "acqs [] = []"
| "acqs ((d, GotChunk got path chunk) # ms) = (d, got, path, chunk) # acqs ms"
| "acqs (_ # ms) = acqs ms"

fun masters :: "(int \<times> tracker_message) list \<Rightarrow> (int \<times> filesystem) list" where
  "masters [] = []"
| "masters ((d, Master fs) # ms) = (d, fs) # masters ms"
| "masters (_ # ms) = masters ms"

fun tables :: "(int \<times> tracker_message) list \<Rightarrow> (int \<times> filetable) list" where
  "tables [] = []"
| "tables ((d, MasterTable ft) # ms) = (d, ft) # tables ms"
| "tables (_ # ms) = tables ms"

definition diff_data :: "filesystem \<times> filesystem \<times> int \<Rightarrow> byte list" where
  "diff_data u = fs_data (fst u) @ fs_data (fst (snd u)) @ int_bytes (snd (snd u))"

definition acq_data :: "int \<times> cstring \<times> int \<Rightarrow> byte list" where
  "acq_data g = int_bytes (snd (snd g)) @ int_bytes (fst g) @ string_bytes (fst (snd g))"

text \<open>Messages that can be sent; the paths of a table are C strings and its peers \<open>int\<close>s.\<close>

definition ok_ft :: "filetable \<Rightarrow> bool" where
  "ok_ft ft \<longleftrightarrow> (\<exists>m. holds ft m \<and> ok_table m) \<and> short (table_data ft)"

fun ok_tracker_message :: "tracker_message \<Rightarrow> bool" where
  "ok_tracker_message (Diff adds dels i) \<longleftrightarrow> ok_folder (fs_root adds) \<and> ok_folder (fs_root dels) \<and> is_int i
     \<and> short (diff_data (adds, dels, i))"
| "ok_tracker_message (GotChunk got path chunk) \<longleftrightarrow> is_int got \<and> is_cstring path \<and> is_int chunk \<and> short (acq_data (got, path, chunk))"
| "ok_tracker_message (Master fs) \<longleftrightarrow> ok_folder (fs_root fs) \<and> short (fs_data fs)"
| "ok_tracker_message (MasterTable ft) \<longleftrightarrow> ok_ft ft"

definition item :: "('x \<Rightarrow> byte list) \<Rightarrow> int \<times> 'x \<Rightarrow> byte list ptr tracker_data" where
  "item enc x = \<lparr>td_client_id = fst x, td_data_len = int (length (enc (snd x))), td_data = Some (enc (snd x))\<rparr>"

text \<open>Client \<open>d\<close> is connected: \<open>pr d\<close> is its entry, with an open socket.\<close>

definition connected :: "peer_table ptr \<Rightarrow> (int \<Rightarrow> peer) \<Rightarrow> int \<Rightarrow> bool" where
  "connected table pr d \<longleftrightarrow> get_peer_by_id table d = Inr (Some (pr d)) \<and> 0 \<le> p_socketfd (pr d)"

lemma t_send_all:
  "list_all (\<lambda>m. connected (t_peer_table t) pr (fst m) \<and> ok_tracker_message (snd m)) ms \<Longrightarrow> foldE t_send ms t = Inr (t
   \<lparr>TKR_2_CLT_FILE_ACQ := TKR_2_CLT_FILE_ACQ t @ map (item acq_data) (acqs ms),
    TKR_2_CLT_FS_UPDATE := TKR_2_CLT_FS_UPDATE t @ map (item diff_data) (diffs ms),
    TKR_2_CLT_SEND_MASTER := TKR_2_CLT_SEND_MASTER t @ map (item fs_data) (masters ms),
    TKR_2_CLT_SEND_MASTER_FT := TKR_2_CLT_SEND_MASTER_FT t @ map (item table_data) (tables ms)\<rparr>)"
proof (induction ms arbitrary: t)
  case Nil
  show ?case by simp
next
  case (Cons x ms)
  obtain d m where x: "x = (d, m)" by (cases x)
  have c: "get_peer_by_id (t_peer_table t) d = Inr (Some (pr d))" using Cons.prems x by (simp add: connected_def)
  show ?case
  proof (cases m)
    case (Diff adds dels i)
    with Cons c x show ?thesis by (simp add: send_FS_update_def serialize_fs item_def diff_data_def)
  next
    case (GotChunk got path chunk)
    with Cons c x show ?thesis by (simp add: send_got_chunk_update_def item_def acq_data_def string_bytes_def)
  next
    case (Master fs)
    with Cons c x show ?thesis by (simp add: send_master_def serialize_fs item_def)
  next
    case (MasterTable ft)
    then obtain m' where "holds ft m'" using Cons.prems x by (auto simp: ok_ft_def)
    with serialize_table [OF this] MasterTable Cons c x show ?thesis
      by (simp add: send_master_filetable_def item_def table_data_def)
  qed
qed

section \<open>The tracker sends\<close>

lemma send_item:
  assumes "connected (t_peer_table t) pr (fst x)"
  shows "\<exists>net. send_client_message t (item enc x) type = Inr (1, t\<lparr>t_net := net\<rparr>)
    \<and> (\<forall>fd. sent_to fd net = sent_to fd (t_net t)
        @ (if p_socketfd (pr (fst x)) = fd then packet (t2c_code type) (enc (snd x)) else []))"
proof -
  let ?fd = "p_socketfd (pr (fst x))"
  let ?d = "enc (snd x)"
  let ?net = "(t_net t)\<lparr>n_sent := (n_sent (t_net t) @ [(?fd, tracker_pkt (t2c_code type) (int (length ?d)))]) @ [(?fd, ?d)]\<rparr>"
  have "send_client_message t (item enc x) type = Inr (1, t\<lparr>t_net := ?net\<rparr>)"
    using assms by (simp add: send_client_message_def item_def connected_def send_ok tracker_pkt_def)
  moreover have "sent_to fd ?net = sent_to fd (t_net t) @ (if ?fd = fd then packet (t2c_code type) ?d else [])" for fd
    by (simp add: sent_to_def packet_def header_def tracker_pkt_def)
  ultimately show ?thesis by blast
qed

lemma drain_sent:
  assumes "\<And>x t. x \<in> set xs \<Longrightarrow> t_peer_table t = table \<Longrightarrow>
      f (item enc x) t = bindE (send_client_message t (item enc x) type) (\<lambda>(r, t). Inr (True, t))"
    and "list_all (\<lambda>x. connected table pr (fst x)) xs" "t_peer_table t = table"
  shows "\<exists>net. drain f (map (item enc) xs) t = Inr ([], t\<lparr>t_net := net\<rparr>)
    \<and> (\<forall>fd. sent_to fd net = sent_to fd (t_net t)
        @ concat (map (\<lambda>x. if p_socketfd (pr (fst x)) = fd then packet (t2c_code type) (enc (snd x)) else []) xs))"
  using assms
proof (induction xs arbitrary: t)
  case Nil
  then show ?case by (intro exI [of _ "t_net t"]) simp
next
  case (Cons x xs)
  obtain n1 where 1: "send_client_message t (item enc x) type = Inr (1, t\<lparr>t_net := n1\<rparr>)"
    "\<forall>fd. sent_to fd n1 = sent_to fd (t_net t) @ (if p_socketfd (pr (fst x)) = fd then packet (t2c_code type) (enc (snd x)) else [])"
    using send_item [of t pr x enc type] Cons.prems(2,3) by auto
  obtain n2 where 2: "drain f (map (item enc) xs) (t\<lparr>t_net := n1\<rparr>) = Inr ([], t\<lparr>t_net := n2\<rparr>)"
    "\<forall>fd. sent_to fd n2 = sent_to fd n1
        @ concat (map (\<lambda>x. if p_socketfd (pr (fst x)) = fd then packet (t2c_code type) (enc (snd x)) else []) xs)"
    using Cons.IH [of "t\<lparr>t_net := n1\<rparr>"] Cons.prems by auto
  have "f (item enc x) t = Inr (True, t\<lparr>t_net := n1\<rparr>)" using Cons.prems(1) [of x t] Cons.prems(3) 1(1) by simp
  with 1(2) 2 show ?case by (intro exI [of _ n2]) simp
qed

definition t_idle :: "tnt \<Rightarrow> bool" where
  "t_idle t \<longleftrightarrow> TKR_2_CLT_TXN_UPDATE t = [] \<and> TKR_2_CLT_FILE_ACQ t = [] \<and> TKR_2_CLT_FS_UPDATE t = []
     \<and> TKR_2_CLT_ADD_PEER t = [] \<and> TKR_2_CLT_REMOVE_PEER t = [] \<and> TKR_2_CLT_SEND_MASTER t = [] \<and> TKR_2_CLT_SEND_MASTER_FT t = []"

definition to :: "int \<Rightarrow> (int \<times> 'x) list \<Rightarrow> 'x list" where
  "to d xs = map snd (filter (\<lambda>x. fst x = d) xs)"

definition tracker_images :: "int \<Rightarrow> (int \<times> tracker_message) list \<Rightarrow> byte list" where
  "tracker_images d ms = concat (map (packet (t2c_code FILE_ACQ_UPDATE)) (map acq_data (to d (acqs ms))))
     @ concat (map (packet (t2c_code FS_UPDATE)) (map diff_data (to d (diffs ms))))
     @ concat (map (packet (t2c_code MASTER_STATUS)) (map fs_data (to d (masters ms))))
     @ concat (map (packet (t2c_code MASTER_FT)) (map table_data (to d (tables ms))))"

text \<open>On a socket of its own a client finds only what is addressed to it.\<close>

lemma images_to:
  "(\<And>x. x \<in> set xs \<Longrightarrow> p_socketfd (pr (fst x)) = p_socketfd (pr d) \<Longrightarrow> fst x = d) \<Longrightarrow>
    concat (map (\<lambda>x. if p_socketfd (pr (fst x)) = p_socketfd (pr d) then packet ty (enc (snd x)) else []) xs)
      = concat (map (packet ty) (map enc (to d xs)))"
  unfolding to_def by (induction xs) fastforce+

lemma kinds_fst:
  "list_all (\<lambda>m. P (fst m)) ms \<Longrightarrow> list_all (\<lambda>x. P (fst x)) (acqs ms) \<and> list_all (\<lambda>x. P (fst x)) (diffs ms)
    \<and> list_all (\<lambda>x. P (fst x)) (masters ms) \<and> list_all (\<lambda>x. P (fst x)) (tables ms)"
proof (induction ms)
  case (Cons x ms)
  obtain d m where "x = (d, m)" by (cases x)
  with Cons show ?case by (cases m) simp_all
qed simp

lemma poll_tracker:
  assumes "t_idle t" "list_all (\<lambda>m. connected (t_peer_table t) pr (fst m) \<and> ok_tracker_message (snd m)) ms"
  shows "\<exists>t1 net. foldE t_send ms t = Inr t1 \<and> poll_queues t1 = Inr (t\<lparr>t_net := net\<rparr>)
    \<and> (\<forall>d. (\<forall>x \<in> set ms. p_socketfd (pr (fst x)) = p_socketfd (pr d) \<longrightarrow> fst x = d) \<longrightarrow>
        sent_to (p_socketfd (pr d)) net = sent_to (p_socketfd (pr d)) (t_net t) @ tracker_images d ms)"
proof -
  let ?t1 = "t\<lparr>TKR_2_CLT_FILE_ACQ := TKR_2_CLT_FILE_ACQ t @ map (item acq_data) (acqs ms),
    TKR_2_CLT_FS_UPDATE := TKR_2_CLT_FS_UPDATE t @ map (item diff_data) (diffs ms),
    TKR_2_CLT_SEND_MASTER := TKR_2_CLT_SEND_MASTER t @ map (item fs_data) (masters ms),
    TKR_2_CLT_SEND_MASTER_FT := TKR_2_CLT_SEND_MASTER_FT t @ map (item table_data) (tables ms)\<rparr>"
  note sent = t_send_all [OF assms(2)]
  have "list_all (\<lambda>m. connected (t_peer_table t) pr (fst m)) ms" using assms(2) by (simp add: list_all_iff)
  note con = kinds_fst [OF this]
  have 0: "check_txn_update_q ?t1 = Inr ?t1" using assms(1) by (cases t) (simp add: check_txn_update_q_def t_idle_def)
  obtain n1 where 1: "check_file_acq_q ?t1 = Inr (?t1\<lparr>t_net := n1, TKR_2_CLT_FILE_ACQ := []\<rparr>)"
    "\<forall>fd. sent_to fd n1 = sent_to fd (t_net t)
      @ concat (map (\<lambda>x. if p_socketfd (pr (fst x)) = fd then packet (t2c_code FILE_ACQ_UPDATE) (acq_data (snd x)) else []) (acqs ms))"
    using drain_sent [where t = ?t1 and xs = "acqs ms" and enc = acq_data and type = FILE_ACQ_UPDATE and pr = pr
        and table = "t_peer_table t" and f = "\<lambda>queue_item tnt. bindE (send_client_message tnt queue_item FILE_ACQ_UPDATE) (\<lambda>(r, tnt). Inr (True, tnt))"]
      con assms(1) by (auto simp: check_file_acq_q_def t_idle_def simp del: t2c_code.simps)
  let ?t2 = "?t1\<lparr>t_net := n1, TKR_2_CLT_FILE_ACQ := []\<rparr>"
  obtain n2 where 2: "check_fs_update_q ?t2 = Inr (?t2\<lparr>t_net := n2, TKR_2_CLT_FS_UPDATE := []\<rparr>)"
    "\<forall>fd. sent_to fd n2 = sent_to fd n1
      @ concat (map (\<lambda>x. if p_socketfd (pr (fst x)) = fd then packet (t2c_code FS_UPDATE) (diff_data (snd x)) else []) (diffs ms))"
    using drain_sent [where t = ?t2 and xs = "diffs ms" and enc = diff_data and type = FS_UPDATE and pr = pr
        and table = "t_peer_table t" and f = "\<lambda>queue_item tnt.
          bindE (get_peer_by_id (t_peer_table tnt) (td_client_id queue_item)) (\<lambda>client.
            if client = None then Inr (False, tnt)
            else bindE (send_client_message tnt queue_item FS_UPDATE) (\<lambda>(r, tnt). Inr (True, tnt)))"]
      con assms(1) by (auto simp: check_fs_update_q_def t_idle_def list_all_iff connected_def item_def simp del: t2c_code.simps)
  let ?t3 = "?t2\<lparr>t_net := n2, TKR_2_CLT_FS_UPDATE := []\<rparr>"
  have 3: "check_add_peer_q ?t3 = Inr ?t3" "check_remove_peer_q ?t3 = Inr ?t3"
    using assms(1) by (cases t, simp add: check_add_peer_q_def check_remove_peer_q_def t_idle_def)+
  obtain n4 where 4: "check_send_master_q ?t3 = Inr (?t3\<lparr>t_net := n4, TKR_2_CLT_SEND_MASTER := []\<rparr>)"
    "\<forall>fd. sent_to fd n4 = sent_to fd n2
      @ concat (map (\<lambda>x. if p_socketfd (pr (fst x)) = fd then packet (t2c_code MASTER_STATUS) (fs_data (snd x)) else []) (masters ms))"
    using drain_sent [where t = ?t3 and xs = "masters ms" and enc = fs_data and type = MASTER_STATUS and pr = pr
        and table = "t_peer_table t" and f = "\<lambda>queue_item tnt.
          bindE (get_peer_by_id (t_peer_table tnt) (td_client_id queue_item)) (\<lambda>client. bindE (derefE client) (\<lambda>_.
            bindE (send_client_message tnt queue_item MASTER_STATUS) (\<lambda>(r, tnt). Inr (True, tnt))))"]
      con assms(1) by (auto simp: check_send_master_q_def t_idle_def list_all_iff connected_def item_def derefE_def simp del: t2c_code.simps)
  let ?t4 = "?t3\<lparr>t_net := n4, TKR_2_CLT_SEND_MASTER := []\<rparr>"
  obtain n5 where 5: "check_send_master_ft_q ?t4 = Inr (?t4\<lparr>t_net := n5, TKR_2_CLT_SEND_MASTER_FT := []\<rparr>)"
    "\<forall>fd. sent_to fd n5 = sent_to fd n4
      @ concat (map (\<lambda>x. if p_socketfd (pr (fst x)) = fd then packet (t2c_code MASTER_FT) (table_data (snd x)) else []) (tables ms))"
    using drain_sent [where t = ?t4 and xs = "tables ms" and enc = table_data and type = MASTER_FT and pr = pr
        and table = "t_peer_table t" and f = "\<lambda>queue_item tnt. bindE (send_client_message tnt queue_item MASTER_FT) (\<lambda>(r, tnt). Inr (True, tnt))"]
      con assms(1) by (auto simp: check_send_master_ft_q_def t_idle_def simp del: t2c_code.simps)
  have fin: "?t4\<lparr>t_net := n5, TKR_2_CLT_SEND_MASTER_FT := []\<rparr> = t\<lparr>t_net := n5\<rparr>"
    using assms(1) by (cases t) (simp add: t_idle_def)
  have "poll_queues ?t1 = Inr (t\<lparr>t_net := n5\<rparr>)"
    by (simp only: poll_queues_def 0 1(1) 2(1) 3 4(1) 5(1) fin bindE.simps)
  moreover have "sent_to (p_socketfd (pr d)) n5 = sent_to (p_socketfd (pr d)) (t_net t) @ tracker_images d ms"
    if "\<forall>x \<in> set ms. p_socketfd (pr (fst x)) = p_socketfd (pr d) \<longrightarrow> fst x = d" for d
  proof -
    have "list_all (\<lambda>x. p_socketfd (pr (fst x)) = p_socketfd (pr d) \<longrightarrow> fst x = d) ms" using that by (simp add: list_all_iff)
    from kinds_fst [OF this] show ?thesis
      unfolding 1(2) [rule_format] 2(2) [rule_format] 4(2) [rule_format] 5(2) [rule_format] tracker_images_def
      by (simp only: list_all_iff images_to images_to [where enc = fs_data] append_assoc)
  qed
  ultimately show ?thesis using sent by blast
qed

section \<open>The client takes the messages in\<close>

lemma t2c_int: "is_int (t2c_code type)"
  by (cases type) (simp_all add: is_int_def)

interpretation client: receiver handle_tracker_msg "\<lambda>type buf c. bindE (tracker_msg type (buf_len buf) buf c) (\<lambda>c. Inr (1, c))"
    c_net "\<lambda>net c. c\<lparr>c_net := net\<rparr>" "\<lambda>c. tracker_fd c = fd" fd for fd
proof
  fix c :: cnt and type data later
  assume a: "tracker_fd c = fd" "is_int type" "short data" "waiting (c_net c) fd (packet type data @ later)"
  obtain n1 where 1: "safe_recv fd 8 (c_net c) = Inr (8, header type data, n1)" "waiting n1 fd (data @ later)"
    using safe_recv_header [OF a(4)] by blast
  note h = header_fields [OF a(2,3)]
  let ?buf = "if data = [] then None else Some data"
  show "\<exists>net. handle_tracker_msg c = bindE (tracker_msg type (buf_len ?buf) ?buf (c\<lparr>c_net := net\<rparr>)) (\<lambda>c. Inr (1, c)) \<and> waiting net fd later"
  proof (cases "data = []")
    case True
    then show ?thesis using a(1) 1 h by (intro exI [of _ n1]) (simp add: handle_tracker_msg_def)
  next
    case False
    obtain n2 where 2: "safe_recv fd (int (length data)) n1 = Inr (int (length data), data, n2)" "waiting n2 fd later"
      using safe_recv_ok [OF 1(2) refl] by blast
    with False show ?thesis using a(1) 1(1) h by (intro exI [of _ n2]) (simp add: handle_tracker_msg_def Let_def)
  qed
qed simp_all

definition data_item :: "byte list \<Rightarrow> byte list ptr client_data" where
  "data_item data = \<lparr>cd_client_id = undefined, cd_data_len = int (length data), cd_data = Some data\<rparr>"

definition master_item :: "filesystem \<Rightarrow> filesystem client_data" where
  "master_item fs = \<lparr>cd_client_id = undefined, cd_data_len = int (length (fs_data fs)), cd_data = rootless fs\<rparr>"

definition parsed_table :: "filetable \<Rightarrow> filetable" where
  "parsed_table ft = fst (projr (filetable_deserialize (table_data ft)))"

definition table_item :: "filetable \<Rightarrow> filetable client_data" where
  "table_item ft = \<lparr>cd_client_id = undefined, cd_data_len = int (length (table_data ft)), cd_data = parsed_table ft\<rparr>"

lemma tracker_msg_data:
  "tracker_msg (t2c_code FILE_ACQ_UPDATE) (int (length data)) (Some data) c = Inr (notify_file_acq_update c (data_item data))"
  "tracker_msg (t2c_code FS_UPDATE) (int (length data)) (Some data) c = Inr (notify_fs_update c (data_item data))"
  by (simp_all add: tracker_msg_def data_item_def)

lemma tracker_msg_master:
  "ok_folder (fs_root fs) \<Longrightarrow> tracker_msg (t2c_code MASTER_STATUS) (int (length (fs_data fs))) (Some (fs_data fs)) c
    = Inr (notify_master_received c (master_item fs))"
  using deserialize_image [of "fs_root fs" "[]"] by (simp add: tracker_msg_def derefE_def master_item_def)

lemma parsed_table_ok:
  assumes "holds ft m" "ok_table m"
  shows "filetable_deserialize (table_data ft) = Inr (parsed_table ft, length (table_data ft))"
    "holds (parsed_table ft) (\<lambda>path. map_option bare (m path))"
  using deserialize_table [OF assms, of "[]"] by (auto simp: parsed_table_def)

lemma tracker_msg_table:
  "ok_ft ft \<Longrightarrow> tracker_msg (t2c_code MASTER_FT) (int (length (table_data ft))) (Some (table_data ft)) c
    = Inr (notify_master_ft_received c (table_item ft))"
  using parsed_table_ok(1) by (auto simp: tracker_msg_def derefE_def table_item_def ok_ft_def)

lemma fold_notify_client:
  "fold (\<lambda>d c. notify_file_acq_update c (f d)) ds c = c\<lparr>TKR_2_ME_FILE_ACQ := TKR_2_ME_FILE_ACQ c @ map f ds\<rparr>"
  "fold (\<lambda>d c. notify_fs_update c (f d)) ds c = c\<lparr>TKR_2_ME_FS_UPDATE := TKR_2_ME_FS_UPDATE c @ map f ds\<rparr>"
  "fold (\<lambda>d c. notify_master_received c (g d)) ds c = c\<lparr>TKR_2_ME_RECEIVE_MASTER_JFS := TKR_2_ME_RECEIVE_MASTER_JFS c @ map g ds\<rparr>"
  "fold (\<lambda>d c. notify_master_ft_received c (h d)) ds c = c\<lparr>TKR_2_ME_RECEIVE_MASTER_FT := TKR_2_ME_RECEIVE_MASTER_FT c @ map h ds\<rparr>"
  by (induction ds arbitrary: c)
    (simp_all add: notify_file_acq_update_def notify_fs_update_def notify_master_received_def notify_master_ft_received_def)

lemma data_nonempty [simp]: "acq_data g \<noteq> []" "diff_data u \<noteq> []" "table_data ft \<noteq> []"
  by (simp_all add: acq_data_def diff_data_def table_data_def int_bytes_def)

lemma set_to: "x \<in> set (to d xs) \<longleftrightarrow> (d, x) \<in> set xs"
  by (force simp: to_def)

lemma kinds_ok:
  "list_all (\<lambda>m. ok_tracker_message (snd m)) ms \<Longrightarrow>
    (\<forall>x \<in> set (acqs ms). ok_tracker_message (GotChunk (fst (snd x)) (fst (snd (snd x))) (snd (snd (snd x)))))
    \<and> (\<forall>x \<in> set (diffs ms). ok_tracker_message (Diff (fst (snd x)) (fst (snd (snd x))) (snd (snd (snd x)))))
    \<and> (\<forall>x \<in> set (masters ms). ok_tracker_message (Master (snd x))) \<and> (\<forall>x \<in> set (tables ms). ok_tracker_message (MasterTable (snd x)))"
proof (induction ms)
  case (Cons x ms)
  obtain d m where "x = (d, m)" by (cases x)
  with Cons show ?case by (cases m) simp_all
qed simp

lemma kinds_length:
  "length (to d (acqs ms)) + length (to d (diffs ms)) + length (to d (masters ms)) + length (to d (tables ms)) = length (to d ms)"
proof (induction ms)
  case (Cons x ms)
  obtain e m where "x = (e, m)" by (cases x)
  with Cons show ?case by (cases m) (simp_all add: to_def)
qed (simp add: to_def)

lemma handles_from_tracker:
  assumes "list_all (\<lambda>m. ok_tracker_message (snd m)) ms" "waiting (c_net c) (tracker_fd c) (tracker_images d ms @ later)"
  shows "\<exists>net. handles handle_tracker_msg (length (to d ms)) c (c
      \<lparr>TKR_2_ME_FILE_ACQ := TKR_2_ME_FILE_ACQ c @ map (data_item \<circ> acq_data) (to d (acqs ms)),
       TKR_2_ME_FS_UPDATE := TKR_2_ME_FS_UPDATE c @ map (data_item \<circ> diff_data) (to d (diffs ms)),
       TKR_2_ME_RECEIVE_MASTER_JFS := TKR_2_ME_RECEIVE_MASTER_JFS c @ map master_item (to d (masters ms)),
       TKR_2_ME_RECEIVE_MASTER_FT := TKR_2_ME_RECEIVE_MASTER_FT c @ map table_item (to d (tables ms)), c_net := net\<rparr>)
    \<and> waiting net (tracker_fd c) later"
proof -
  let ?fd = "tracker_fd c"
  note ok = kinds_ok [OF assms(1)]
  have a: "short (acq_data x)" if "x \<in> set (to d (acqs ms))" for x using ok that by (fastforce simp: set_to)
  have u: "short (diff_data x)" if "x \<in> set (to d (diffs ms))" for x using ok that by (fastforce simp: set_to)
  have m: "ok_folder (fs_root x) \<and> short (fs_data x)" if "x \<in> set (to d (masters ms))" for x using ok that by (fastforce simp: set_to)
  have f: "ok_ft x" if "x \<in> set (to d (tables ms))" for x using ok that by (fastforce simp: set_to)
  then have f': "short (table_data x)" if "x \<in> set (to d (tables ms))" for x using that by (simp add: ok_ft_def)
  let ?r3 = "concat (map (packet (t2c_code MASTER_FT)) (map table_data (to d (tables ms)))) @ later"
  let ?r2 = "concat (map (packet (t2c_code MASTER_STATUS)) (map fs_data (to d (masters ms)))) @ ?r3"
  let ?r1 = "concat (map (packet (t2c_code FS_UPDATE)) (map diff_data (to d (diffs ms)))) @ ?r2"
  obtain n1 where 1: "handles handle_tracker_msg (length (to d (acqs ms))) c
      ((fold (\<lambda>g c. notify_file_acq_update c (data_item (acq_data g))) (to d (acqs ms)) c)\<lparr>c_net := n1\<rparr>)" "waiting n1 ?fd ?r1"
    using client.handles_all [where ds = "to d (acqs ms)" and type = "t2c_code FILE_ACQ_UPDATE" and enc = acq_data
        and push = "\<lambda>g c. notify_file_acq_update c (data_item (acq_data g))" and fd = ?fd and s = c and later = ?r1] a assms(2)
    by (auto simp: tracker_msg_data notify_file_acq_update_def tracker_images_def t2c_int simp del: t2c_code.simps)
  let ?c1 = "(fold (\<lambda>g c. notify_file_acq_update c (data_item (acq_data g))) (to d (acqs ms)) c)\<lparr>c_net := n1\<rparr>"
  obtain n2 where 2: "handles handle_tracker_msg (length (to d (diffs ms))) ?c1
      ((fold (\<lambda>g c. notify_fs_update c (data_item (diff_data g))) (to d (diffs ms)) ?c1)\<lparr>c_net := n2\<rparr>)" "waiting n2 ?fd ?r2"
    using client.handles_all [where ds = "to d (diffs ms)" and type = "t2c_code FS_UPDATE" and enc = diff_data
        and push = "\<lambda>g c. notify_fs_update c (data_item (diff_data g))" and fd = ?fd and s = ?c1 and later = ?r2] u 1(2)
    by (auto simp: tracker_msg_data notify_fs_update_def t2c_int fold_notify_client simp del: t2c_code.simps)
  let ?c2 = "(fold (\<lambda>g c. notify_fs_update c (data_item (diff_data g))) (to d (diffs ms)) ?c1)\<lparr>c_net := n2\<rparr>"
  obtain n3 where 3: "handles handle_tracker_msg (length (to d (masters ms))) ?c2
      ((fold (\<lambda>g c. notify_master_received c (master_item g)) (to d (masters ms)) ?c2)\<lparr>c_net := n3\<rparr>)" "waiting n3 ?fd ?r3"
    using client.handles_all [where ds = "to d (masters ms)" and type = "t2c_code MASTER_STATUS" and enc = fs_data
        and push = "\<lambda>g c. notify_master_received c (master_item g)" and fd = ?fd and s = ?c2 and later = ?r3] m 2(2)
    by (auto simp: tracker_msg_master notify_master_received_def t2c_int fold_notify_client simp del: t2c_code.simps)
  let ?c3 = "(fold (\<lambda>g c. notify_master_received c (master_item g)) (to d (masters ms)) ?c2)\<lparr>c_net := n3\<rparr>"
  obtain n4 where 4: "handles handle_tracker_msg (length (to d (tables ms))) ?c3
      ((fold (\<lambda>g c. notify_master_ft_received c (table_item g)) (to d (tables ms)) ?c3)\<lparr>c_net := n4\<rparr>)" "waiting n4 ?fd later"
    using client.handles_all [where ds = "to d (tables ms)" and type = "t2c_code MASTER_FT" and enc = table_data
        and push = "\<lambda>g c. notify_master_ft_received c (table_item g)" and fd = ?fd and s = ?c3 and later = later] f f' 3(2)
    by (auto simp: tracker_msg_table notify_master_ft_received_def t2c_int fold_notify_client simp del: t2c_code.simps)
  let ?c4 = "(fold (\<lambda>g c. notify_master_ft_received c (table_item g)) (to d (tables ms)) ?c3)\<lparr>c_net := n4\<rparr>"
  have "handles handle_tracker_msg (length (to d ms)) c ?c4"
    using handles_trans [OF handles_trans [OF handles_trans [OF 1(1) 2(1)] 3(1)] 4(1)] by (simp add: kinds_length)
  moreover have "?c4 = c
      \<lparr>TKR_2_ME_FILE_ACQ := TKR_2_ME_FILE_ACQ c @ map (data_item \<circ> acq_data) (to d (acqs ms)),
       TKR_2_ME_FS_UPDATE := TKR_2_ME_FS_UPDATE c @ map (data_item \<circ> diff_data) (to d (diffs ms)),
       TKR_2_ME_RECEIVE_MASTER_JFS := TKR_2_ME_RECEIVE_MASTER_JFS c @ map master_item (to d (masters ms)),
       TKR_2_ME_RECEIVE_MASTER_FT := TKR_2_ME_RECEIVE_MASTER_FT c @ map table_item (to d (tables ms)), c_net := n4\<rparr>"
    by (cases c) (simp add: fold_notify_client comp_def)
  ultimately show ?thesis using 4(2) by auto
qed

section \<open>The client's logic receives\<close>

lemma recv_diff_item:
  assumes "TKR_2_ME_FS_UPDATE c = data_item (diff_data u) # xs" "ok_tracker_message (Diff (fst u) (fst (snd u)) (snd (snd u)))"
  shows "\<exists>c'. recv_diff c = Inr (Some (rootless (fst u), rootless (fst (snd u)), snd (snd u)), c') \<and> TKR_2_ME_FS_UPDATE c' = xs"
proof -
  have f: "ok_folder (fs_root (fst u))" "ok_folder (fs_root (fst (snd u)))" "is_int (snd (snd u))" using assms(2) by simp_all
  from deserialize_image [OF f(1), of "fs_data (fst (snd u)) @ int_bytes (snd (snd u))"] deserialize_image [OF f(2), of "int_bytes (snd (snd u))"]
    int_codec.dec_enc [OF f(3), of "[]"] assms(1)
  show ?thesis by (simp add: recv_diff_def data_item_def derefE_def diff_data_def)
qed

lemma recv_diff_loop:
  assumes "TKR_2_ME_FS_UPDATE c = map (data_item \<circ> diff_data) us"
    "list_all (\<lambda>u. ok_tracker_message (Diff (fst u) (fst (snd u)) (snd (snd u)))) us" "length us < fuel"
  shows "\<exists>c'. collect fuel recv_diff c = Inr (map (\<lambda>u. (rootless (fst u), rootless (fst (snd u)), snd (snd u))) us, c')"
proof -
  have "\<exists>c'. recv_diff c = Inr (Some (rootless (fst u), rootless (fst (snd u)), snd (snd u)), c') \<and> TKR_2_ME_FS_UPDATE c' = xs"
    if "TKR_2_ME_FS_UPDATE c = (data_item \<circ> diff_data) u # xs" "ok_tracker_message (Diff (fst u) (fst (snd u)) (snd (snd u)))" for c u xs
    using recv_diff_item [of c u xs] that by simp
  from collect_map [where q = TKR_2_ME_FS_UPDATE and f = recv_diff and h = "data_item \<circ> diff_data"
      and P = "\<lambda>u. ok_tracker_message (Diff (fst u) (fst (snd u)) (snd (snd u)))"
      and g = "\<lambda>u. (rootless (fst u), rootless (fst (snd u)), snd (snd u))", OF _ this assms(2,1,3)]
  show ?thesis by (auto simp: recv_diff_def)
qed

lemma receive_chunk_got_loop:
  assumes "TKR_2_ME_FILE_ACQ c = map (data_item \<circ> acq_data) gs"
    "list_all (\<lambda>g. ok_tracker_message (GotChunk (fst g) (fst (snd g)) (snd (snd g)))) gs" "length gs < fuel"
  shows "\<exists>c'. collect fuel receive_chunk_got c = Inr (gs, c')"
proof -
  have "\<exists>c'. receive_chunk_got c = Inr (Some (id g), c') \<and> TKR_2_ME_FILE_ACQ c' = xs"
    if q: "TKR_2_ME_FILE_ACQ c = (data_item \<circ> acq_data) g # xs" and ok: "ok_tracker_message (GotChunk (fst g) (fst (snd g)) (snd (snd g)))" for c g xs
  proof -
    have f: "is_int (fst g)" "is_cstring (fst (snd g))" "is_int (snd (snd g))" using ok by simp_all
    from int_codec.dec_enc [OF f(3), of "int_bytes (fst g) @ string_bytes (fst (snd g))"] int_codec.dec_enc [OF f(1), of "string_bytes (fst (snd g))"]
      string_codec.dec_enc [OF f(2), of "[]"] q
    show ?thesis by (simp add: receive_chunk_got_def data_item_def derefE_def acq_data_def)
  qed
  from collect_map [where q = TKR_2_ME_FILE_ACQ and f = receive_chunk_got and h = "data_item \<circ> acq_data"
      and P = "\<lambda>g. ok_tracker_message (GotChunk (fst g) (fst (snd g)) (snd (snd g)))" and g = id, OF _ this assms(2,1,3)]
  show ?thesis by (auto simp: receive_chunk_got_def)
qed

abbreviation recv_masters :: "cnt \<Rightarrow> (filesystem option \<times> cnt) outcome" where
  "recv_masters c \<equiv> Inr (recv_master c)"

abbreviation recv_tables :: "cnt \<Rightarrow> ((filetable \<times> int) option \<times> cnt) outcome" where
  "recv_tables c \<equiv> Inr (recv_master_ft c)"

lemma recv_master_loop:
  assumes "TKR_2_ME_RECEIVE_MASTER_JFS c = map master_item fss" "length fss < fuel"
  shows "\<exists>c'. collect fuel recv_masters c = Inr (map rootless fss, c')"
  using collect_map [where q = TKR_2_ME_RECEIVE_MASTER_JFS and f = recv_masters and h = master_item
      and P = "\<lambda>_. True" and g = rootless, of fss c fuel] assms
  by (auto simp: recv_master_def master_item_def list_all_iff)

lemma recv_master_ft_loop:
  assumes "TKR_2_ME_RECEIVE_MASTER_FT c = map table_item fts" "length fts < fuel"
  shows "\<exists>c'. collect fuel recv_tables c = Inr (map (\<lambda>ft. (parsed_table ft, int (length (table_data ft)))) fts, c')"
  using collect_map [where q = TKR_2_ME_RECEIVE_MASTER_FT and f = recv_tables and h = table_item
      and P = "\<lambda>_. True" and g = "\<lambda>ft. (parsed_table ft, int (length (table_data ft)))", of fts c fuel] assms
  by (auto simp: recv_master_ft_def table_item_def list_all_iff)

lemma kinds_le: "length (to d (acqs ms)) \<le> length ms" "length (to d (diffs ms)) \<le> length ms"
    "length (to d (masters ms)) \<le> length ms" "length (to d (tables ms)) \<le> length ms"
proof -
  have "length (to d ms) \<le> length ms" by (simp add: to_def)
  with kinds_length [of d ms] show "length (to d (acqs ms)) \<le> length ms" "length (to d (diffs ms)) \<le> length ms"
    "length (to d (masters ms)) \<le> length ms" "length (to d (tables ms)) \<le> length ms" by linarith+
qed

text \<open>With the messages to \<open>d\<close> in its queues, the logic of the client collects each kind in order.\<close>

lemma logic_collects:
  assumes "list_all (\<lambda>m. ok_tracker_message (snd m)) ms"
    and "TKR_2_ME_FS_UPDATE c = map (data_item \<circ> diff_data) (to d (diffs ms))"
    and "TKR_2_ME_FILE_ACQ c = map (data_item \<circ> acq_data) (to d (acqs ms))"
    and "TKR_2_ME_RECEIVE_MASTER_JFS c = map master_item (to d (masters ms))"
    and "TKR_2_ME_RECEIVE_MASTER_FT c = map table_item (to d (tables ms))"
  shows "\<exists>s. collect (Suc (length ms)) recv_diff c
      = Inr (map (\<lambda>u. (rootless (fst u), rootless (fst (snd u)), snd (snd u))) (to d (diffs ms)), s)"
    "\<exists>s. collect (Suc (length ms)) receive_chunk_got c = Inr (to d (acqs ms), s)"
    "\<exists>s. collect (Suc (length ms)) recv_masters c = Inr (map rootless (to d (masters ms)), s)"
    "\<exists>fts s. collect (Suc (length ms)) recv_tables c = Inr (fts, s)
      \<and> list_all2 (\<lambda>ft r. \<exists>m. holds ft m \<and> holds (fst r) (\<lambda>path. map_option bare (m path))) (to d (tables ms)) fts"
proof -
  note ok = kinds_ok [OF assms(1)]
  note le = kinds_le [of d ms]
  have "list_all (\<lambda>u. ok_tracker_message (Diff (fst u) (fst (snd u)) (snd (snd u)))) (to d (diffs ms))"
    using ok by (fastforce simp: list_all_iff set_to simp del: ok_tracker_message.simps)
  then show "\<exists>s. collect (Suc (length ms)) recv_diff c
      = Inr (map (\<lambda>u. (rootless (fst u), rootless (fst (snd u)), snd (snd u))) (to d (diffs ms)), s)"
    by (rule recv_diff_loop [OF assms(2)]) (use le in simp)
  have "list_all (\<lambda>g. ok_tracker_message (GotChunk (fst g) (fst (snd g)) (snd (snd g)))) (to d (acqs ms))"
    using ok by (fastforce simp: list_all_iff set_to simp del: ok_tracker_message.simps)
  then show "\<exists>s. collect (Suc (length ms)) receive_chunk_got c = Inr (to d (acqs ms), s)"
    by (rule receive_chunk_got_loop [OF assms(3)]) (use le in simp)
  show "\<exists>s. collect (Suc (length ms)) recv_masters c = Inr (map rootless (to d (masters ms)), s)"
    by (rule recv_master_loop) (use assms(4) le in simp_all)
  have "\<exists>m. holds ft m \<and> holds (parsed_table ft) (\<lambda>path. map_option bare (m path))" if "ft \<in> set (to d (tables ms))" for ft
  proof -
    have "ok_ft ft" using ok that by (fastforce simp: set_to)
    with parsed_table_ok(2) show ?thesis by (auto simp: ok_ft_def)
  qed
  then have "list_all2 (\<lambda>ft r. \<exists>m. holds ft m \<and> holds (fst r) (\<lambda>path. map_option bare (m path))) (to d (tables ms))
      (map (\<lambda>ft. (parsed_table ft, int (length (table_data ft)))) (to d (tables ms)))"
    by (simp add: list.rel_map list.rel_refl_strong)
  moreover have "\<exists>s. collect (Suc (length ms)) recv_tables c
      = Inr (map (\<lambda>ft. (parsed_table ft, int (length (table_data ft)))) (to d (tables ms)), s)"
    by (rule recv_master_ft_loop [OF assms(5)]) (use le in simp)
  ultimately show "\<exists>fts s. collect (Suc (length ms)) recv_tables c = Inr (fts, s)
      \<and> list_all2 (\<lambda>ft r. \<exists>m. holds ft m \<and> holds (fst r) (\<lambda>path. map_option bare (m path))) (to d (tables ms)) fts"
    by blast
qed

text \<open>C9. Whatever the tracker's logic addresses to connected clients leaves with one poll of its queues:
  on the socket of a client go that client's messages and no other's, and however TCP cuts these bytes
  the client handles each message and its logic receives exactly the differences, the chunks others got,
  the master file systems and the master tables addressed to it, in order. A table comes without the
  work under way; root paths do not travel.\<close>

theorem tracker_messages_reach_clients:
  assumes "t_idle t" "list_all (\<lambda>m. connected (t_peer_table t) pr (fst m) \<and> ok_tracker_message (snd m)) ms"
    and "\<forall>x \<in> set ms. p_socketfd (pr (fst x)) = p_socketfd (pr d) \<longrightarrow> fst x = d"
    and "waiting (c_net c) (tracker_fd c) (tracker_images d ms @ later)"
    and "TKR_2_ME_FS_UPDATE c = []" "TKR_2_ME_FILE_ACQ c = []" "TKR_2_ME_RECEIVE_MASTER_JFS c = []" "TKR_2_ME_RECEIVE_MASTER_FT c = []"
  shows "(\<exists>t1 net. foldE t_send ms t = Inr t1 \<and> poll_queues t1 = Inr (t\<lparr>t_net := net\<rparr>)
      \<and> sent_to (p_socketfd (pr d)) net = sent_to (p_socketfd (pr d)) (t_net t) @ tracker_images d ms)
    \<and> (\<exists>c'. handles handle_tracker_msg (length (to d ms)) c c' \<and> waiting (c_net c') (tracker_fd c) later
      \<and> (\<exists>s. collect (Suc (length ms)) recv_diff c'
          = Inr (map (\<lambda>u. (rootless (fst u), rootless (fst (snd u)), snd (snd u))) (to d (diffs ms)), s))
      \<and> (\<exists>s. collect (Suc (length ms)) receive_chunk_got c' = Inr (to d (acqs ms), s))
      \<and> (\<exists>s. collect (Suc (length ms)) recv_masters c' = Inr (map rootless (to d (masters ms)), s))
      \<and> (\<exists>fts s. collect (Suc (length ms)) recv_tables c' = Inr (fts, s)
          \<and> list_all2 (\<lambda>ft r. \<exists>m. holds ft m \<and> holds (fst r) (\<lambda>path. map_option bare (m path))) (to d (tables ms)) fts))"
proof
  show "\<exists>t1 net. foldE t_send ms t = Inr t1 \<and> poll_queues t1 = Inr (t\<lparr>t_net := net\<rparr>)
      \<and> sent_to (p_socketfd (pr d)) net = sent_to (p_socketfd (pr d)) (t_net t) @ tracker_images d ms"
    using poll_tracker [OF assms(1,2)] assms(3) by blast
next
  have oks: "list_all (\<lambda>m. ok_tracker_message (snd m)) ms" using assms(2) by (simp add: list_all_iff)
  obtain net where net: "waiting net (tracker_fd c) later" and handles: "handles handle_tracker_msg (length (to d ms)) c (c
      \<lparr>TKR_2_ME_FILE_ACQ := TKR_2_ME_FILE_ACQ c @ map (data_item \<circ> acq_data) (to d (acqs ms)),
       TKR_2_ME_FS_UPDATE := TKR_2_ME_FS_UPDATE c @ map (data_item \<circ> diff_data) (to d (diffs ms)),
       TKR_2_ME_RECEIVE_MASTER_JFS := TKR_2_ME_RECEIVE_MASTER_JFS c @ map master_item (to d (masters ms)),
       TKR_2_ME_RECEIVE_MASTER_FT := TKR_2_ME_RECEIVE_MASTER_FT c @ map table_item (to d (tables ms)), c_net := net\<rparr>)"
    (is "handles _ _ _ ?c")
    using handles_from_tracker [OF oks assms(4)] by blast
  have "TKR_2_ME_FS_UPDATE ?c = map (data_item \<circ> diff_data) (to d (diffs ms))"
    "TKR_2_ME_FILE_ACQ ?c = map (data_item \<circ> acq_data) (to d (acqs ms))"
    "TKR_2_ME_RECEIVE_MASTER_JFS ?c = map master_item (to d (masters ms))"
    "TKR_2_ME_RECEIVE_MASTER_FT ?c = map table_item (to d (tables ms))"
    using assms(5-8) by simp_all
  note collects = logic_collects [OF oks this]
  show "\<exists>c'. handles handle_tracker_msg (length (to d ms)) c c' \<and> waiting (c_net c') (tracker_fd c) later
      \<and> (\<exists>s. collect (Suc (length ms)) recv_diff c'
          = Inr (map (\<lambda>u. (rootless (fst u), rootless (fst (snd u)), snd (snd u))) (to d (diffs ms)), s))
      \<and> (\<exists>s. collect (Suc (length ms)) receive_chunk_got c' = Inr (to d (acqs ms), s))
      \<and> (\<exists>s. collect (Suc (length ms)) recv_masters c' = Inr (map rootless (to d (masters ms)), s))
      \<and> (\<exists>fts s. collect (Suc (length ms)) recv_tables c' = Inr (fts, s)
          \<and> list_all2 (\<lambda>ft r. \<exists>m. holds ft m \<and> holds (fst r) (\<lambda>path. map_option bare (m path))) (to d (tables ms)) fts)"
    by (intro exI [of _ ?c] conjI handles collects) (simp add: net)
qed

theorem tracker_messages_reach_clients_witness:
  "\<exists>c c' s. StartClientNetwork (Some [10, 0, 0, 1]) 4 (no_net\<lparr>n_in := (\<lambda>_. [])(0 := [Bytes (take 9 (tracker_images 5 [(5, GotChunk 3 [97] 2)])),
      Bytes (drop 9 (tracker_images 5 [(5, GotChunk 3 [97] 2)]))])\<rparr>) = Some c
    \<and> handles handle_tracker_msg 1 c c' \<and> collect 2 receive_chunk_got c' = Inr ([(3, [97], 2)], s)"
proof -
  let ?ms = "[(5 :: int, GotChunk 3 [97] 2)]"
  let ?net = "no_net\<lparr>n_in := (\<lambda>_. [])(0 := [Bytes (take 9 (tracker_images 5 ?ms)), Bytes (drop 9 (tracker_images 5 ?ms))])\<rparr>"
  let ?t = "tracker_of_5 []"
  obtain c where c: "StartClientNetwork (Some [10, 0, 0, 1]) 4 ?net = Some c" by (simp add: StartClientNetwork_def)
  have fields: "tracker_fd c = 0" "c_net c = ?net" "TKR_2_ME_FS_UPDATE c = []" "TKR_2_ME_FILE_ACQ c = []"
    "TKR_2_ME_RECEIVE_MASTER_JFS c = []" "TKR_2_ME_RECEIVE_MASTER_FT c = []"
    using c by (auto simp: StartClientNetwork_def)
  have "length (tracker_images 5 ?ms) = 18"
    by (simp add: tracker_images_def to_def packet_def header_def acq_data_def string_bytes_def)
  then have w: "waiting (c_net c) (tracker_fd c) (tracker_images 5 ?ms @ [])"
    using cut_in_two [of 9 "tracker_images 5 ?ms" "c_net c" 0] fields by simp
  have "t_idle ?t" by (simp add: t_idle_def tracker_of_5_def StartTrackerNetwork_def)
  moreover have "list_all (\<lambda>m. connected (t_peer_table ?t) (\<lambda>_. peer_5) (fst m) \<and> ok_tracker_message (snd m)) ?ms"
    by (simp add: connected_def tracker_of_5_def get_peer_by_id_def get_peer_def peer_5_def is_int_def is_cstring_def
        short_def acq_data_def string_bytes_def)
  moreover have "\<forall>x \<in> set ?ms. p_socketfd peer_5 = p_socketfd peer_5 \<longrightarrow> fst x = 5" by simp
  ultimately obtain c' s where r: "handles handle_tracker_msg (length (to 5 ?ms)) c c'"
    "collect (Suc (length ?ms)) receive_chunk_got c' = Inr (to 5 (acqs ?ms), s)"
    using tracker_messages_reach_clients [OF _ _ _ w fields(3-6), of ?t "\<lambda>_. peer_5"] by blast
  have l: "length (to 5 ?ms) = 1" "Suc (length ?ms) = 2" "to 5 (acqs ?ms) = [(3, [97], 2)]" by (simp_all add: to_def)
  show ?thesis using c r unfolding l by blast
qed

end
