(* ===== verification/PeerTalk.thy ===== *)
theory PeerTalk
  imports Messages
begin

text \<open>
  Between clients: requests for chunks, the chunks and the rejections, over an open connection. The
  sender counts what a peer owes it, the answers count down.
\<close>

datatype peer_message =
    Request (pm_path: cstring) (pm_chunk: int) (pm_job: int)
  | Answer (pm_path: cstring) (pm_chunk: int) (pm_data: "byte list") (pm_job: int)
  | Reject (pm_path: cstring) (pm_chunk: int) (pm_job: int)

fun p_send :: "int \<Rightarrow> peer_message \<Rightarrow> cnt \<Rightarrow> cnt outcome" where
  "p_send i (Request path chunk job) c = bindE (send_chunk_request c i (Some path) chunk job) (\<lambda>(r, c). Inr c)"
| "p_send i (Answer path chunk data job) c =
     bindE (send_chunk c i (Some path) chunk (Some data) (int (length data)) job) (\<lambda>(r, c). Inr c)"
| "p_send i (Reject path chunk job) c = bindE (send_chunk_rejection c i (Some path) chunk job) (\<lambda>(r, c). Inr c)"

fun kind :: "peer_message \<Rightarrow> client_to_client" where
  "kind (Request path chunk job) = CHUNK_REQUEST"
| "kind (Answer path chunk data job) = CHUNK"
| "kind (Reject path chunk job) = REQ_REJECT"

fun payload :: "peer_message \<Rightarrow> byte list" where
  "payload (Answer path chunk data job) = data"
| "payload _ = []"

fun data_len :: "peer_message \<Rightarrow> int" where
  "data_len (Request path chunk job) = 0"
| "data_len (Answer path chunk data job) = int (length data)"
| "data_len (Reject path chunk job) = -1"

text \<open>The queue item of a message to peer \<open>i\<close>; the one it becomes at the other end has no data when there is none.\<close>

definition chunk_item :: "int \<Rightarrow> byte list ptr \<Rightarrow> peer_message \<Rightarrow> chunk_data" where
  "chunk_item i data m = \<lparr>ck_job_id = pm_job m, ck_client_id = i, ck_chunk_num = pm_chunk m,
     ck_file_str_len = int (length (pm_path m)) + 1, ck_file_name = Some (string_bytes (pm_path m)),
     ck_data_len = data_len m, ck_data = data\<rparr>"

abbreviation out_item :: "int \<Rightarrow> peer_message \<Rightarrow> chunk_data" where
  "out_item i m \<equiv> chunk_item i (if kind m = CHUNK then Some (payload m) else None) m"

abbreviation in_item :: "int \<Rightarrow> peer_message \<Rightarrow> chunk_data" where
  "in_item i m \<equiv> chunk_item i (if payload m = [] then None else Some (payload m)) m"

definition c2c_header :: "peer_message \<Rightarrow> byte list" where
  "c2c_header m = c2c_pkt_bytes \<lparr>cp_type = c2c_code (kind m), cp_src_client = undefined, cp_chunk_num = pm_chunk m,
     cp_file_str_len = int (length (pm_path m)) + 1, cp_data_len = data_len m, cp_job_id = pm_job m\<rparr>"

definition peer_image :: "peer_message \<Rightarrow> byte list" where
  "peer_image m = c2c_header m @ string_bytes (pm_path m) @ payload m"

definition ok_peer_message :: "peer_message \<Rightarrow> bool" where
  "ok_peer_message m \<longleftrightarrow> is_int (pm_chunk m) \<and> is_int (pm_job m) \<and> short (string_bytes (pm_path m)) \<and> short (payload m)"

abbreviation of_kind :: "client_to_client \<Rightarrow> peer_message list \<Rightarrow> peer_message list" where
  "of_kind k \<equiv> filter (\<lambda>m. kind m = k)"

lemma length_string_bytes [simp]: "int (length (string_bytes path)) = int (length path) + 1"
  by (simp add: string_bytes_def)

lemma length_c2c_header [simp]: "length (c2c_header m) = 24"
  by (simp add: c2c_header_def c2c_pkt_bytes_def)

lemma c2c_header_of:
  assumes "ok_peer_message m"
  shows "cp_type (c2c_pkt_of (c2c_header m)) = c2c_code (kind m)" "cp_chunk_num (c2c_pkt_of (c2c_header m)) = pm_chunk m"
    "cp_file_str_len (c2c_pkt_of (c2c_header m)) = int (length (pm_path m)) + 1"
    "cp_data_len (c2c_pkt_of (c2c_header m)) = data_len m" "cp_job_id (c2c_pkt_of (c2c_header m)) = pm_job m"
proof -
  have k: "is_int (c2c_code (kind m))" by (cases m) (simp_all add: is_int_def)
  have p: "is_int (int (length (pm_path m)) + 1)" "is_int (int (length (payload m)))"
    using assms short_int by (fastforce simp: ok_peer_message_def)+
  have "is_int (data_len m)" using p(2) by (cases m) (simp_all add: is_int_def)
  with k p(1) show "cp_type (c2c_pkt_of (c2c_header m)) = c2c_code (kind m)" "cp_chunk_num (c2c_pkt_of (c2c_header m)) = pm_chunk m"
    "cp_file_str_len (c2c_pkt_of (c2c_header m)) = int (length (pm_path m)) + 1"
    "cp_data_len (c2c_pkt_of (c2c_header m)) = data_len m" "cp_job_id (c2c_pkt_of (c2c_header m)) = pm_job m"
    using assms by (simp_all add: c2c_header_def c2c_pkt_bytes_def c2c_pkt_of_def ok_peer_message_def)
qed

section \<open>Sending\<close>

lemma p_send_one:
  assumes "get_peer_by_id (c_peer_table c) i = Inr (Some q)"
  shows "p_send i m c = Inr (c
    \<lparr>ME_2_CLT_REQ_CHUNK := ME_2_CLT_REQ_CHUNK c @ map (out_item i) (of_kind CHUNK_REQUEST [m]),
     ME_2_CLT_SEND_CHUNK := ME_2_CLT_SEND_CHUNK c @ map (out_item i) (of_kind CHUNK [m]),
     ME_2_CLT_SEND_ERROR := ME_2_CLT_SEND_ERROR c @ map (out_item i) (of_kind REQ_REJECT [m])\<rparr>)"
  using assms
  by (cases m) (simp_all add: send_chunk_request_def send_chunk_def send_chunk_rejection_def move_into_def chunk_item_def)

lemma p_send_all:
  assumes "get_peer_by_id (c_peer_table c) i = Inr (Some q)"
  shows "foldE (p_send i) ms c = Inr (c
    \<lparr>ME_2_CLT_REQ_CHUNK := ME_2_CLT_REQ_CHUNK c @ map (out_item i) (of_kind CHUNK_REQUEST ms),
     ME_2_CLT_SEND_CHUNK := ME_2_CLT_SEND_CHUNK c @ map (out_item i) (of_kind CHUNK ms),
     ME_2_CLT_SEND_ERROR := ME_2_CLT_SEND_ERROR c @ map (out_item i) (of_kind REQ_REJECT ms)\<rparr>)"
  using assms
proof (induction ms arbitrary: c)
  case Nil
  show ?case by simp
next
  case (Cons m ms)
  then show ?case by (simp add: p_send_one del: p_send.simps)
qed

lemma send_header:
  assumes "0 \<le> fd"
  shows "send_chunk_header fd (kind m) (chunk_item i data m) net
    = Inr (net\<lparr>n_sent := n_sent net @ [(fd, c2c_header m), (fd, string_bytes (pm_path m))]\<rparr>)"
proof -
  have "c2c_pkt_bytes \<lparr>cp_type = c2c_code (kind m), cp_src_client = undefined, cp_chunk_num = ck_chunk_num (chunk_item i data m),
     cp_file_str_len = ck_file_str_len (chunk_item i data m), cp_data_len = ck_data_len (chunk_item i data m),
     cp_job_id = ck_job_id (chunk_item i data m)\<rparr> = c2c_header m"
    by (simp add: c2c_header_def chunk_item_def)
  then show ?thesis
    unfolding send_chunk_header_def using assms by (simp add: send_ok chunk_item_def)
qed

text \<open>Requests to \<open>i\<close> that have no answer yet, one more, or \<open>k\<close> more.\<close>

definition add_owed :: "int \<Rightarrow> nat \<Rightarrow> (int \<rightharpoonup> int) \<Rightarrow> (int \<rightharpoonup> int)" where
  "add_owed i k n = (if k = 0 then n else n(i \<mapsto> (case n i of None \<Rightarrow> 0 | Some j \<Rightarrow> j) + int k))"

lemma add_owed_0 [simp]: "add_owed i 0 n = n"
  by (simp add: add_owed_def)

lemma add_owed_add [simp]: "add_owed i k (add_owed i j n) = add_owed i (j + k) n"
  by (simp add: add_owed_def add.assoc)

lemma add_owed_1: "add_owed i 1 n = n(i \<mapsto> (case n i of None \<Rightarrow> 1 | Some n \<Rightarrow> n + 1))"
  by (simp add: add_owed_def split: option.splits)

text \<open>A queue whose every item \<open>f\<close> sends over an open connection.\<close>

lemma drain_chunks:
  assumes step: "\<And>m c n. m \<in> set ms \<Longrightarrow> get_peer_by_id (c_peer_table c) i = Inr (Some q) \<Longrightarrow> owes (request_table c) n \<Longrightarrow>
      \<exists>net ht. f (out_item i m) c = Inr (True, c\<lparr>c_net := net, request_table := ht\<rparr>) \<and> owes ht (add_owed i k n)
        \<and> sent_to fd net = sent_to fd (c_net c) @ peer_image m"
    and "get_peer_by_id (c_peer_table c) i = Inr (Some q)" "owes (request_table c) n"
  shows "\<exists>net ht. drain f (map (out_item i) ms) c = Inr ([], c\<lparr>c_net := net, request_table := ht\<rparr>)
    \<and> owes ht (add_owed i (length ms * k) n) \<and> sent_to fd net = sent_to fd (c_net c) @ concat (map peer_image ms)"
  using assms
proof (induction ms arbitrary: c n)
  case Nil
  then show ?case by (intro exI [of _ "c_net c"] exI [of _ "request_table c"]) simp
next
  case (Cons m ms)
  from Cons.prems(1) [OF _ Cons.prems(2,3), of m] obtain n1 ht1 where
    1: "f (out_item i m) c = Inr (True, c\<lparr>c_net := n1, request_table := ht1\<rparr>)" "owes ht1 (add_owed i k n)"
      "sent_to fd n1 = sent_to fd (c_net c) @ peer_image m" by auto
  let ?c = "c\<lparr>c_net := n1, request_table := ht1\<rparr>"
  have "\<exists>net ht. drain f (map (out_item i) ms) ?c = Inr ([], ?c\<lparr>c_net := net, request_table := ht\<rparr>)
    \<and> owes ht (add_owed i (length ms * k) (add_owed i k n)) \<and> sent_to fd net = sent_to fd (c_net ?c) @ concat (map peer_image ms)"
    by (rule Cons.IH) (use Cons.prems 1(2) in simp_all)
  then obtain n2 ht2 where 2: "drain f (map (out_item i) ms) ?c = Inr ([], c\<lparr>c_net := n2, request_table := ht2\<rparr>)"
    "owes ht2 (add_owed i (k + length ms * k) n)" "sent_to fd n2 = sent_to fd n1 @ concat (map peer_image ms)" by auto
  have "drain f (map (out_item i) (m # ms)) c = Inr ([], c\<lparr>c_net := n2, request_table := ht2\<rparr>)"
    using 1(1) 2(1) by simp
  with 1(3) 2(2,3) show ?case by (intro exI [of _ n2] exI [of _ ht2]) simp
qed

definition open_to :: "int \<Rightarrow> int \<Rightarrow> cnt \<Rightarrow> bool" where
  "open_to i fd c \<longleftrightarrow> (\<exists>q. get_peer_by_id (c_peer_table c) i = Inr (Some q) \<and> p_socketfd q = fd)"

lemma same_tables: "c\<lparr>c_net := net\<rparr> = c\<lparr>c_net := net, request_table := request_table c\<rparr>"
  by simp

lemma drain_requests_to:
  assumes "open_to i fd c" "0 < fd" "1 \<le> i" "owes (request_table c) n" "\<forall>m \<in> set ms. kind m = CHUNK_REQUEST"
    and "ME_2_CLT_REQ_CHUNK c = map (out_item i) ms"
  shows "\<exists>net ht. check_req_chunk_q connect c = Inr (c\<lparr>c_net := net, request_table := ht, ME_2_CLT_REQ_CHUNK := []\<rparr>)
    \<and> owes ht (add_owed i (length ms) n) \<and> sent_to fd net = sent_to fd (c_net c) @ concat (map peer_image ms)"
proof -
  obtain q where q: "get_peer_by_id (c_peer_table c) i = Inr (Some q)" "p_socketfd q = fd" using assms(1) by (auto simp: open_to_def)
  define f where "f = (\<lambda>queue_item cnt. bindE (get_peer_by_id (c_peer_table cnt) (ck_client_id queue_item)) (\<lambda>peer.
         bindE (connect_to_peer connect cnt peer (ck_client_id queue_item)) (\<lambda>(fd, cnt).
           if fd < 0 then Inr (False, cnt)
           else bindE (send_chunk_header fd CHUNK_REQUEST queue_item (c_net cnt)) (\<lambda>net.
             bindE (increment_conn_record (cnt\<lparr>c_net := net\<rparr>) (ck_client_id queue_item)) (\<lambda>(requests, cnt). Inr (True, cnt))))))"
  have step: "\<exists>net ht. f (out_item i m) c = Inr (True, c\<lparr>c_net := net, request_table := ht\<rparr>) \<and> owes ht (add_owed i 1 n)
        \<and> sent_to fd net = sent_to fd (c_net c) @ peer_image m"
    if m: "m \<in> set ms" and get: "get_peer_by_id (c_peer_table c) i = Inr (Some q)" and o: "owes (request_table c) n" for m c n
  proof -
    have k: "kind m = CHUNK_REQUEST" using m assms(5) by simp
    let ?net = "(c_net c)\<lparr>n_sent := n_sent (c_net c) @ [(fd, c2c_header m), (fd, string_bytes (pm_path m))]\<rparr>"
    have s: "send_chunk_header fd CHUNK_REQUEST (chunk_item i None m) (c_net c) = Inr ?net"
      using send_header [of fd m i None "c_net c"] assms(2) k by simp
    have conn: "connect_to_peer connect c (Some q) i = Inr (fd, c)"
      using assms(2,3) q(2) by (simp add: connect_to_peer_def)
    obtain r ht where inc: "increment_conn_record (c\<lparr>c_net := ?net\<rparr>) i = Inr (r, c\<lparr>c_net := ?net, request_table := ht\<rparr>)"
      "owes ht (add_owed i 1 n)"
      using owes_increment [of "c\<lparr>c_net := ?net\<rparr>" n i] o assms(3) unfolding add_owed_1 by auto
    have pl: "payload m = []" using k by (cases m) simp_all
    have i: "ck_client_id (chunk_item i None m) = i" by (simp add: chunk_item_def)
    have "f (out_item i m) c = Inr (True, c\<lparr>c_net := ?net, request_table := ht\<rparr>)"
      using k get conn s inc(1) assms(2) by (simp add: f_def i)
    moreover have "sent_to fd ?net = sent_to fd (c_net c) @ peer_image m"
      by (simp add: sent_to_def peer_image_def pl)
    ultimately show ?thesis using inc(2) by blast
  qed
  obtain net ht where "drain f (map (out_item i) ms) c = Inr ([], c\<lparr>c_net := net, request_table := ht\<rparr>)"
    "owes ht (add_owed i (length ms * 1) n)" "sent_to fd net = sent_to fd (c_net c) @ concat (map peer_image ms)"
    using drain_chunks [OF step q(1) assms(4)] by blast
  then show ?thesis using assms(6) by (intro exI [of _ net] exI [of _ ht]) (simp add: check_req_chunk_q_def f_def)
qed

lemma drain_answers_to:
  assumes "open_to i fd c" "0 < fd" "owes (request_table c) n" "\<forall>m \<in> set ms. kind m = CHUNK"
    and "ME_2_CLT_SEND_CHUNK c = map (out_item i) ms"
  shows "\<exists>net ht. check_send_chunk_q c = Inr (c\<lparr>c_net := net, request_table := ht, ME_2_CLT_SEND_CHUNK := []\<rparr>)
    \<and> owes ht n \<and> sent_to fd net = sent_to fd (c_net c) @ concat (map peer_image ms)"
proof -
  obtain q where q: "get_peer_by_id (c_peer_table c) i = Inr (Some q)" "p_socketfd q = fd" using assms(1) by (auto simp: open_to_def)
  define f :: "chunk_data \<Rightarrow> cnt \<Rightarrow> (bool \<times> cnt) outcome" where "f = (\<lambda>queue_item cnt. bindE (get_peer_by_id (c_peer_table cnt) (ck_client_id queue_item)) (\<lambda>peer. case peer of
           None \<Rightarrow> Inr (False, cnt)
         | Some peer \<Rightarrow>
             if p_socketfd peer < 0 then Inr (False, cnt)
             else bindE (send_chunk_header (p_socketfd peer) CHUNK queue_item (c_net cnt)) (\<lambda>net.
               bindE (send (p_socketfd peer) (ck_data queue_item) (ck_data_len queue_item) net) (\<lambda>net.
                 Inr (True, cnt\<lparr>c_net := net\<rparr>)))))"
  have step: "\<exists>net ht. f (out_item i m) c = Inr (True, c\<lparr>c_net := net, request_table := ht\<rparr>) \<and> owes ht (add_owed i 0 n)
        \<and> sent_to fd net = sent_to fd (c_net c) @ peer_image m"
    if m: "m \<in> set ms" and get: "get_peer_by_id (c_peer_table c) i = Inr (Some q)" and o: "owes (request_table c) n" for m c n
  proof -
    have k: "kind m = CHUNK" using m assms(4) by simp
    let ?item = "chunk_item i (Some (payload m)) m"
    let ?n1 = "(c_net c)\<lparr>n_sent := n_sent (c_net c) @ [(fd, c2c_header m), (fd, string_bytes (pm_path m))]\<rparr>"
    let ?n2 = "?n1\<lparr>n_sent := n_sent ?n1 @ [(fd, payload m)]\<rparr>"
    have 1: "send_chunk_header fd CHUNK ?item (c_net c) = Inr ?n1"
      using send_header [of fd m i "Some (payload m)" "c_net c"] assms(2) k by simp
    have i: "ck_client_id ?item = i" "ck_data ?item = Some (payload m)" "ck_data_len ?item = int (length (payload m))"
      using k by (cases m; simp add: chunk_item_def)+
    have 2: "send fd (ck_data ?item) (ck_data_len ?item) ?n1 = Inr ?n2" using i assms(2) by (simp add: send_ok)
    have "f (out_item i m) c = Inr (True, c\<lparr>c_net := ?n2\<rparr>)" using k get q(2) 1 2 assms(2) by (simp add: f_def i(1))
    moreover have "sent_to fd ?n2 = sent_to fd (c_net c) @ peer_image m" by (simp add: sent_to_def peer_image_def)
    ultimately show ?thesis using o by (intro exI [of _ ?n2] exI [of _ "request_table c"]) simp
  qed
  obtain net ht where "drain f (map (out_item i) ms) c = Inr ([], c\<lparr>c_net := net, request_table := ht\<rparr>)"
    "owes ht (add_owed i (length ms * 0) n)" "sent_to fd net = sent_to fd (c_net c) @ concat (map peer_image ms)"
    using drain_chunks [OF step q(1) assms(3)] by blast
  then show ?thesis using assms(5) by (intro exI [of _ net] exI [of _ ht]) (simp add: check_send_chunk_q_def f_def)
qed

lemma drain_rejects_to:
  assumes "open_to i fd c" "0 < fd" "owes (request_table c) n" "\<forall>m \<in> set ms. kind m = REQ_REJECT"
    and "ME_2_CLT_SEND_ERROR c = map (out_item i) ms"
  shows "\<exists>net ht. check_req_error_q c = Inr (c\<lparr>c_net := net, request_table := ht, ME_2_CLT_SEND_ERROR := []\<rparr>)
    \<and> owes ht n \<and> sent_to fd net = sent_to fd (c_net c) @ concat (map peer_image ms)"
proof -
  obtain q where q: "get_peer_by_id (c_peer_table c) i = Inr (Some q)" "p_socketfd q = fd" using assms(1) by (auto simp: open_to_def)
  define f :: "chunk_data \<Rightarrow> cnt \<Rightarrow> (bool \<times> cnt) outcome" where "f = (\<lambda>queue_item cnt. bindE (get_peer_by_id (c_peer_table cnt) (ck_client_id queue_item)) (\<lambda>peer. case peer of
           None \<Rightarrow> Inr (False, cnt)
         | Some peer \<Rightarrow> bindE (send_chunk_header (p_socketfd peer) REQ_REJECT queue_item (c_net cnt)) (\<lambda>net.
             Inr (True, cnt\<lparr>c_net := net\<rparr>))))"
  have step: "\<exists>net ht. f (out_item i m) c = Inr (True, c\<lparr>c_net := net, request_table := ht\<rparr>) \<and> owes ht (add_owed i 0 n)
        \<and> sent_to fd net = sent_to fd (c_net c) @ peer_image m"
    if m: "m \<in> set ms" and get: "get_peer_by_id (c_peer_table c) i = Inr (Some q)" and o: "owes (request_table c) n" for m c n
  proof -
    have k: "kind m = REQ_REJECT" using m assms(4) by simp
    let ?net = "(c_net c)\<lparr>n_sent := n_sent (c_net c) @ [(fd, c2c_header m), (fd, string_bytes (pm_path m))]\<rparr>"
    have 1: "send_chunk_header fd REQ_REJECT (chunk_item i None m) (c_net c) = Inr ?net"
      using send_header [of fd m i None "c_net c"] assms(2) k by simp
    have i: "ck_client_id (chunk_item i None m) = i" "payload m = []" using k by (simp add: chunk_item_def, cases m, simp_all)
    have "f (out_item i m) c = Inr (True, c\<lparr>c_net := ?net\<rparr>)" using k get q(2) 1 by (simp add: f_def i(1))
    moreover have "sent_to fd ?net = sent_to fd (c_net c) @ peer_image m" by (simp add: sent_to_def peer_image_def i(2))
    ultimately show ?thesis using o by (intro exI [of _ ?net] exI [of _ "request_table c"]) simp
  qed
  obtain net ht where "drain f (map (out_item i) ms) c = Inr ([], c\<lparr>c_net := net, request_table := ht\<rparr>)"
    "owes ht (add_owed i (length ms * 0) n)" "sent_to fd net = sent_to fd (c_net c) @ concat (map peer_image ms)"
    using drain_chunks [OF step q(1) assms(3)] by blast
  then show ?thesis using assms(5) by (intro exI [of _ net] exI [of _ ht]) (simp add: check_req_error_q_def f_def)
qed

text \<open>The messages in the order in which the queues are polled.\<close>

definition polled :: "peer_message list \<Rightarrow> peer_message list" where
  "polled ms = of_kind CHUNK_REQUEST ms @ of_kind CHUNK ms @ of_kind REQ_REJECT ms"

definition peer_images :: "peer_message list \<Rightarrow> byte list" where
  "peer_images ms = concat (map peer_image (polled ms))"

lemma drain_none: "q = [] \<Longrightarrow> drain f q s = Inr ([], s)"
  by simp

lemma quiet_status: "ME_2_TKR_CUR_STATUS c = [] \<Longrightarrow> check_cur_status_q c = Inr (c\<lparr>ME_2_TKR_CUR_STATUS := []\<rparr>)"
  by (simp add: check_cur_status_q_def drain_none del: drain.simps)

lemma quiet_acqs: "ME_2_TKR_ACQ_UPDATE c = [] \<Longrightarrow> clt_check_file_acq_q c = Inr (c\<lparr>ME_2_TKR_ACQ_UPDATE := []\<rparr>)"
  by (simp add: clt_check_file_acq_q_def drain_none del: drain.simps)

lemma quiet_requests: "ME_2_TKR_GET_MASTER c = [] \<Longrightarrow> check_master_req_q c = Inr (c\<lparr>ME_2_TKR_GET_MASTER := []\<rparr>)"
  by (simp add: check_master_req_q_def drain_none del: drain.simps)

lemma quiet_updates: "ME_2_TKR_UPDATED_FILE_DIFF c = [] \<Longrightarrow> check_updated_fs_q c = Inr (c\<lparr>ME_2_TKR_UPDATED_FILE_DIFF := []\<rparr>)"
  by (simp add: check_updated_fs_q_def drain_none del: drain.simps)

lemmas quiet_polls = quiet_status quiet_acqs quiet_requests quiet_updates

lemma poll_peer_messages:
  assumes "c_idle c" "open_to i fd c" "0 < fd" "1 \<le> i" "owes (request_table c) n"
  shows "\<exists>c1 net ht. foldE (p_send i) ms c = Inr c1
    \<and> clt_poll_queues connect c1 = Inr (c\<lparr>c_net := net, request_table := ht\<rparr>)
    \<and> owes ht (add_owed i (length (of_kind CHUNK_REQUEST ms)) n) \<and> sent_to fd net = sent_to fd (c_net c) @ peer_images ms"
proof -
  obtain q where q: "get_peer_by_id (c_peer_table c) i = Inr (Some q)" "p_socketfd q = fd" using assms(2) by (auto simp: open_to_def)
  let ?c1 = "c\<lparr>ME_2_CLT_REQ_CHUNK := map (out_item i) (of_kind CHUNK_REQUEST ms),
     ME_2_CLT_SEND_CHUNK := map (out_item i) (of_kind CHUNK ms), ME_2_CLT_SEND_ERROR := map (out_item i) (of_kind REQ_REJECT ms)\<rparr>"
  have c1: "foldE (p_send i) ms c = Inr ?c1" using p_send_all [OF q(1)] assms(1) by (simp add: c_idle_def)
  have open1: "open_to i fd ?c1" using q by (simp add: open_to_def)
  obtain n1 h1 where 1: "check_req_chunk_q connect ?c1 = Inr (?c1\<lparr>c_net := n1, request_table := h1, ME_2_CLT_REQ_CHUNK := []\<rparr>)"
    "owes h1 (add_owed i (length (of_kind CHUNK_REQUEST ms)) n)" 
    "sent_to fd n1 = sent_to fd (c_net ?c1) @ concat (map peer_image (of_kind CHUNK_REQUEST ms))"
  proof -
    have "owes (request_table ?c1) n" "\<forall>m \<in> set (of_kind CHUNK_REQUEST ms). kind m = CHUNK_REQUEST"
      "ME_2_CLT_REQ_CHUNK ?c1 = map (out_item i) (of_kind CHUNK_REQUEST ms)" using assms(5) by simp_all
    from drain_requests_to [OF open1 assms(3,4) this] that show thesis by blast
  qed
  let ?c2 = "?c1\<lparr>c_net := n1, request_table := h1, ME_2_CLT_REQ_CHUNK := []\<rparr>"
  have open2: "open_to i fd ?c2" using q by (simp add: open_to_def)
  obtain n2 h2 where 2: "check_send_chunk_q ?c2 = Inr (?c2\<lparr>c_net := n2, request_table := h2, ME_2_CLT_SEND_CHUNK := []\<rparr>)"
    "owes h2 (add_owed i (length (of_kind CHUNK_REQUEST ms)) n)"
    "sent_to fd n2 = sent_to fd (c_net ?c2) @ concat (map peer_image (of_kind CHUNK ms))"
  proof -
    have "owes (request_table ?c2) (add_owed i (length (of_kind CHUNK_REQUEST ms)) n)" "\<forall>m \<in> set (of_kind CHUNK ms). kind m = CHUNK"
      "ME_2_CLT_SEND_CHUNK ?c2 = map (out_item i) (of_kind CHUNK ms)" using 1(2) by simp_all
    from drain_answers_to [OF open2 assms(3) this] that show thesis by blast
  qed
  let ?c3 = "?c2\<lparr>c_net := n2, request_table := h2, ME_2_CLT_SEND_CHUNK := []\<rparr>"
  have open3: "open_to i fd ?c3" using q by (simp add: open_to_def)
  obtain n3 h3 where 3: "check_req_error_q ?c3 = Inr (?c3\<lparr>c_net := n3, request_table := h3, ME_2_CLT_SEND_ERROR := []\<rparr>)"
    "owes h3 (add_owed i (length (of_kind CHUNK_REQUEST ms)) n)"
    "sent_to fd n3 = sent_to fd (c_net ?c3) @ concat (map peer_image (of_kind REQ_REJECT ms))"
  proof -
    have "owes (request_table ?c3) (add_owed i (length (of_kind CHUNK_REQUEST ms)) n)" "\<forall>m \<in> set (of_kind REQ_REJECT ms). kind m = REQ_REJECT"
      "ME_2_CLT_SEND_ERROR ?c3 = map (out_item i) (of_kind REQ_REJECT ms)" using 2(2) by simp_all
    from drain_rejects_to [OF open3 assms(3) this] that show thesis by blast
  qed
  have quiet: "ME_2_TKR_CUR_STATUS ?c1 = []" "ME_2_TKR_ACQ_UPDATE ?c1 = []" "ME_2_TKR_GET_MASTER ?c1 = []" "ME_2_TKR_UPDATED_FILE_DIFF ?c1 = []"
    using assms(1) by (simp_all add: c_idle_def)
  have same: "?c1\<lparr>ME_2_TKR_CUR_STATUS := []\<rparr> = ?c1" "?c1\<lparr>ME_2_TKR_ACQ_UPDATE := []\<rparr> = ?c1"
    "?c1\<lparr>ME_2_TKR_GET_MASTER := []\<rparr> = ?c1" "?c1\<lparr>ME_2_TKR_UPDATED_FILE_DIFF := []\<rparr> = ?c1"
    using assms(1) by (cases c, simp add: c_idle_def)+
  have "clt_poll_queues connect ?c1 = Inr (?c3\<lparr>c_net := n3, request_table := h3, ME_2_CLT_SEND_ERROR := []\<rparr>)"
    unfolding clt_poll_queues_def quiet_status [OF quiet(1)] same bindE.simps quiet_acqs [OF quiet(2)]
      quiet_requests [OF quiet(3)] quiet_updates [OF quiet(4)] 1(1) 2(1) 3(1) ..
  also have "?c3\<lparr>c_net := n3, request_table := h3, ME_2_CLT_SEND_ERROR := []\<rparr> = c\<lparr>c_net := n3, request_table := h3\<rparr>"
    using assms(1) by (cases c) (simp add: c_idle_def)
  finally have "clt_poll_queues connect ?c1 = Inr (c\<lparr>c_net := n3, request_table := h3\<rparr>)" .
  moreover have "sent_to fd n3 = sent_to fd (c_net c) @ peer_images ms"
    using 1(3) 2(3) 3(3) by (simp add: peer_images_def polled_def)
  ultimately show ?thesis using c1 3(2) by blast
qed

section \<open>Receiving\<close>

lemma recv_part_ok:
  "waiting net fd (bs @ later) \<Longrightarrow> bs \<noteq> [] \<Longrightarrow> n = int (length bs) \<Longrightarrow>
    \<exists>net'. recv_part fd n net = Inr (Some (Some bs), net') \<and> waiting net' fd later"
  using safe_recv_ok [of net fd bs later n] by (auto simp: recv_part_def)

lemma recv_part_none: "n \<le> 0 \<Longrightarrow> recv_part fd n net = Inr (Some None, net)"
  by (simp add: recv_part_def)

text \<open>What a message from peer \<open>i\<close> leaves: the item in its queue, and one answer less to come.\<close>

definition taken :: "int \<Rightarrow> peer_message list \<Rightarrow> net \<Rightarrow> conn_rec hashtable \<Rightarrow> cnt \<Rightarrow> cnt" where
  "taken i ms net ht c = c\<lparr>c_net := net, request_table := ht,
     CLT_2_ME_REQUEST_CHUNK := CLT_2_ME_REQUEST_CHUNK c @ map (in_item i) (filter (\<lambda>m. kind m = CHUNK_REQUEST) ms),
     CLT_2_ME_RECEIVE_CHUNK := CLT_2_ME_RECEIVE_CHUNK c @ map (in_item i) (filter (\<lambda>m. kind m \<noteq> CHUNK_REQUEST) ms)\<rparr>"

definition less_owed :: "int \<Rightarrow> nat \<Rightarrow> (int \<rightharpoonup> int) \<Rightarrow> (int \<rightharpoonup> int)" where
  "less_owed i k n = n(i := map_option (\<lambda>j. j - int k) (n i))"

lemma less_owed_0 [simp]: "less_owed i 0 n = n"
  by (cases "n i") (auto simp: less_owed_def)

lemma less_owed_add [simp]: "less_owed i k (less_owed i j n) = less_owed i (j + k) n"
  by (cases "n i") (auto simp: less_owed_def)

lemma take_one:
  assumes "ok_peer_message m" "owes (request_table c) n" "0 \<le> p_id p"
  shows "\<exists>ht. peer_msg (c2c_pkt_of (c2c_header m)) (Some (string_bytes (pm_path m))) (if payload m = [] then None else Some (payload m))
      (Some p) c = Inr (taken (p_id p) [m] (c_net c) ht c)
    \<and> owes ht (less_owed (p_id p) (length (filter (\<lambda>m. kind m \<noteq> CHUNK_REQUEST) [m])) n)"
proof (cases "kind m = CHUNK_REQUEST")
  case True
  then have "payload m = []" "data_len m = 0" by (cases m; simp)+
  with True assms(2) show ?thesis
    by (intro exI [of _ "request_table c"])
      (simp add: peer_msg_def derefE_def c2c_header_of [OF assms(1)] notify_chunk_request_def taken_def chunk_item_def)
next
  case False
  obtain r ht where 1: "decrement_conn_record c (p_id p) = Inr (r, c\<lparr>request_table := ht\<rparr>)" "owes ht (less_owed (p_id p) 1 n)"
    using owes_decrement [OF assms(2,3)] unfolding less_owed_def by auto
  show ?thesis
  proof (cases "kind m = CHUNK")
    case True
    with False 1 show ?thesis
      by (intro exI [of _ ht])
        (simp add: peer_msg_def derefE_def c2c_header_of [OF assms(1)] notify_chunk_received_def taken_def chunk_item_def)
  next
    case no: False
    with False have k: "kind m = REQ_REJECT" "payload m = []" by (cases m; simp)+
    with 1 show ?thesis
      by (intro exI [of _ ht])
        (simp add: peer_msg_def derefE_def c2c_header_of [OF assms(1)] notify_error_received_def taken_def chunk_item_def)
  qed
qed

lemma handle_one:
  assumes "ok_peer_message m" "owes (request_table c) n" "0 \<le> p_id p"
    and "get_peer_by_socket (c_peer_table c) fd = Inr (Some p)" "waiting (c_net c) fd (peer_image m @ later)"
  shows "\<exists>net ht. handle_peer_msg fd c = Inr (1, taken (p_id p) [m] net ht c) \<and> waiting net fd later
    \<and> owes ht (less_owed (p_id p) (length (filter (\<lambda>m. kind m \<noteq> CHUNK_REQUEST) [m])) n)"
proof -
  note h = c2c_header_of [OF assms(1)]
  obtain n1 where 1: "safe_recv fd 24 (c_net c) = Inr (24, c2c_header m, n1)" "waiting n1 fd (string_bytes (pm_path m) @ payload m @ later)"
    using safe_recv_ok [of "c_net c" fd "c2c_header m" "string_bytes (pm_path m) @ payload m @ later" 24] assms(5)
    by (auto simp: peer_image_def)
  have ne: "string_bytes (pm_path m) \<noteq> []" by (simp add: string_bytes_def)
  obtain n2 where 2: "recv_part fd (int (length (pm_path m)) + 1) n1 = Inr (Some (Some (string_bytes (pm_path m))), n2)"
    "waiting n2 fd (payload m @ later)"
    using recv_part_ok [OF 1(2) ne, of "int (length (pm_path m)) + 1"] by auto
  obtain n3 where 3: "recv_part fd (data_len m) n2 = Inr (Some (if payload m = [] then None else Some (payload m)), n3)"
    "waiting n3 fd later"
  proof (cases "payload m = []")
    case True
    then have "data_len m \<le> 0" by (cases m) simp_all
    with True 2(2) that show thesis by (simp add: recv_part_none)
  next
    case False
    then have "data_len m = int (length (payload m))" by (cases m) simp_all
    from recv_part_ok [OF 2(2) False this] False that show thesis by auto
  qed
  have o: "owes (request_table (c\<lparr>c_net := n3\<rparr>)) n" using assms(2) by simp
  from take_one [OF assms(1) o assms(3)] obtain ht where
    4: "peer_msg (c2c_pkt_of (c2c_header m)) (Some (string_bytes (pm_path m))) (if payload m = [] then None else Some (payload m))
      (Some p) (c\<lparr>c_net := n3\<rparr>) = Inr (taken (p_id p) [m] n3 ht c)"
      "owes ht (less_owed (p_id p) (length (filter (\<lambda>m. kind m \<noteq> CHUNK_REQUEST) [m])) n)"
    by (auto simp: taken_def)
  have "handle_peer_msg fd c = Inr (1, taken (p_id p) [m] n3 ht c)"
    unfolding handle_peer_msg_def assms(4) 1(1) bindE.simps prod.case Let_def h(3,4) 2(1) option.case 3(1) 4(1) by simp
  with 3(2) 4(2) show ?thesis by blast
qed

lemma taken_taken: "taken i ms n2 h2 (taken i [m] n1 h1 c) = taken i (m # ms) n2 h2 c"
  by (simp add: taken_def)

lemma handles_peer_messages:
  assumes "list_all ok_peer_message ms" "owes (request_table c) n" "0 \<le> p_id p"
    and "get_peer_by_socket (c_peer_table c) fd = Inr (Some p)" "waiting (c_net c) fd (concat (map peer_image ms) @ later)"
  shows "\<exists>net ht. handles (handle_peer_msg fd) (length ms) c (taken (p_id p) ms net ht c) \<and> waiting net fd later
    \<and> owes ht (less_owed (p_id p) (length (filter (\<lambda>m. kind m \<noteq> CHUNK_REQUEST) ms)) n)"
  using assms
proof (induction ms arbitrary: c n)
  case Nil
  then show ?case by (intro exI [of _ "c_net c"] exI [of _ "request_table c"]) (simp add: taken_def)
next
  case (Cons m ms)
  have "ok_peer_message m" "waiting (c_net c) fd (peer_image m @ concat (map peer_image ms) @ later)" using Cons.prems by simp_all
  from handle_one [OF this(1) Cons.prems(2-4) this(2)] obtain n1 h1 where
    1: "handle_peer_msg fd c = Inr (1, taken (p_id p) [m] n1 h1 c)" "waiting n1 fd (concat (map peer_image ms) @ later)"
      "owes h1 (less_owed (p_id p) (length (filter (\<lambda>m. kind m \<noteq> CHUNK_REQUEST) [m])) n)" by blast
  let ?c = "taken (p_id p) [m] n1 h1 c"
  have f: "request_table ?c = h1" "c_peer_table ?c = c_peer_table c" "c_net ?c = n1" by (simp_all add: taken_def)
  have "list_all ok_peer_message ms" using Cons.prems(1) by simp
  from Cons.IH [OF this, of ?c] Cons.prems(3,4) 1(2,3) obtain n2 h2 where
    2: "handles (handle_peer_msg fd) (length ms) ?c (taken (p_id p) ms n2 h2 ?c)" "waiting n2 fd later"
      "owes h2 (less_owed (p_id p) (length (filter (\<lambda>m. kind m \<noteq> CHUNK_REQUEST) ms))
        (less_owed (p_id p) (length (filter (\<lambda>m. kind m \<noteq> CHUNK_REQUEST) [m])) n))"
    unfolding f by blast
  have "handles (handle_peer_msg fd) (length (m # ms)) c (taken (p_id p) (m # ms) n2 h2 c)"
    using handles_Suc [OF 1(1) 2(1)] by (simp add: taken_taken)
  moreover have "owes h2 (less_owed (p_id p) (length (filter (\<lambda>m. kind m \<noteq> CHUNK_REQUEST) (m # ms))) n)"
    using 2(3) by (cases "kind m = CHUNK_REQUEST") simp_all
  ultimately show ?case using 2(2) by blast
qed

section \<open>The exchange\<close>

definition next_request :: "cnt \<Rightarrow> ((int \<times> byte list ptr \<times> int \<times> int) option \<times> cnt) outcome" where
  "next_request c = Inr (receive_chunk_request c)"

definition next_chunk :: "cnt \<Rightarrow> ((int \<times> byte list ptr \<times> int \<times> int \<times> byte list ptr \<times> int) option \<times> cnt) outcome" where
  "next_chunk c = Inr (receive_chunk c)"

definition request_of :: "int \<Rightarrow> peer_message \<Rightarrow> int \<times> byte list ptr \<times> int \<times> int" where
  "request_of i m = (i, Some (string_bytes (pm_path m)), pm_chunk m, pm_job m)"

definition chunk_of :: "int \<Rightarrow> peer_message \<Rightarrow> int \<times> byte list ptr \<times> int \<times> int \<times> byte list ptr \<times> int" where
  "chunk_of i m = (i, Some (string_bytes (pm_path m)), pm_chunk m, data_len m,
     if payload m = [] then None else Some (payload m), pm_job m)"

lemma next_request_loop:
  "CLT_2_ME_REQUEST_CHUNK c = map (in_item i) ms \<Longrightarrow> length ms < fuel \<Longrightarrow> \<exists>s. collect fuel next_request c = Inr (map (request_of i) ms, s)"
  using collect_map [where q = CLT_2_ME_REQUEST_CHUNK and f = next_request and h = "in_item i" and g = "request_of i" and P = "\<lambda>_. True"]
  by (fastforce simp: next_request_def receive_chunk_request_def request_of_def chunk_item_def list_all_iff)

lemma next_chunk_loop:
  "CLT_2_ME_RECEIVE_CHUNK c = map (in_item i) ms \<Longrightarrow> length ms < fuel \<Longrightarrow> \<exists>s. collect fuel next_chunk c = Inr (map (chunk_of i) ms, s)"
  using collect_map [where q = CLT_2_ME_RECEIVE_CHUNK and f = next_chunk and h = "in_item i" and g = "chunk_of i" and P = "\<lambda>_. True"]
  by (fastforce simp: next_chunk_def receive_chunk_def chunk_of_def chunk_item_def list_all_iff)

lemma polled_kinds:
  "of_kind CHUNK_REQUEST (polled ms) = of_kind CHUNK_REQUEST ms"
  "filter (\<lambda>m. kind m \<noteq> CHUNK_REQUEST) (polled ms) = of_kind CHUNK ms @ of_kind REQ_REJECT ms"
  by (simp_all add: polled_def filter_id_conv flip: filter_filter cong: filter_cong)

lemma length_polled: "length (polled ms) = length ms"
proof (induction ms)
  case (Cons m ms)
  then show ?case by (cases m) (simp_all add: polled_def)
qed (simp add: polled_def)

lemma length_answers: "length (of_kind CHUNK ms @ of_kind REQ_REJECT ms) \<le> length ms" "length (of_kind CHUNK_REQUEST ms) \<le> length ms"
  using length_polled [of ms] by (simp_all add: polled_def)

text \<open>C10. Between clients with an open connection: requests for chunks, chunks and rejections handed to the
  network of one, sent with one poll of its queues, cut anyhow by TCP and handled by the other, are what
  its logic receives: the requests in order, then the chunks in order and the rejections, with length -1
  and no data. The sender's table counts each request to the peer, and the receiver's counts one answer
  less to come for each chunk or rejection.\<close>

theorem peer_messages_exchanged:
  assumes "c_idle c" "open_to i fd c" "0 < fd" "1 \<le> i" "owes (request_table c) n" "list_all ok_peer_message ms"
    and "get_peer_by_socket (c_peer_table d) fd' = Inr (Some p)" "0 \<le> p_id p" "owes (request_table d) k"
    and "CLT_2_ME_REQUEST_CHUNK d = []" "CLT_2_ME_RECEIVE_CHUNK d = []"
    and "waiting (c_net d) fd' (peer_images ms @ later)"
  shows "(\<exists>c1 net ht. foldE (p_send i) ms c = Inr c1
      \<and> clt_poll_queues connect c1 = Inr (c\<lparr>c_net := net, request_table := ht\<rparr>)
      \<and> owes ht (add_owed i (length (of_kind CHUNK_REQUEST ms)) n) \<and> sent_to fd net = sent_to fd (c_net c) @ peer_images ms)
    \<and> (\<exists>d'. handles (handle_peer_msg fd') (length ms) d d' \<and> waiting (c_net d') fd' later
      \<and> owes (request_table d') (less_owed (p_id p) (length (of_kind CHUNK ms @ of_kind REQ_REJECT ms)) k)
      \<and> (\<exists>s. collect (Suc (length ms)) next_request d' = Inr (map (request_of (p_id p)) (of_kind CHUNK_REQUEST ms), s))
      \<and> (\<exists>s. collect (Suc (length ms)) next_chunk d' = Inr (map (chunk_of (p_id p)) (of_kind CHUNK ms @ of_kind REQ_REJECT ms), s)))"
proof (rule conjI [OF poll_peer_messages [OF assms(1-5)]])
  have "list_all ok_peer_message (polled ms)" using assms(6) by (auto simp: polled_def list_all_iff)
  from handles_peer_messages [OF this assms(9,8,7), of later] assms(12) obtain net ht where
    1: "handles (handle_peer_msg fd') (length ms) d (taken (p_id p) (polled ms) net ht d)" "waiting net fd' later"
      "owes ht (less_owed (p_id p) (length (of_kind CHUNK ms @ of_kind REQ_REJECT ms)) k)"
    unfolding polled_kinds length_polled peer_images_def by blast
  let ?d = "taken (p_id p) (polled ms) net ht d"
  have f: "c_net ?d = net" "request_table ?d = ht" by (simp_all add: taken_def)
  have q: "CLT_2_ME_REQUEST_CHUNK ?d = map (in_item (p_id p)) (of_kind CHUNK_REQUEST ms)"
    "CLT_2_ME_RECEIVE_CHUNK ?d = map (in_item (p_id p)) (of_kind CHUNK ms @ of_kind REQ_REJECT ms)"
    using assms(10,11) by (simp_all add: taken_def polled_kinds)
  have "\<exists>s. collect (Suc (length ms)) next_request ?d = Inr (map (request_of (p_id p)) (of_kind CHUNK_REQUEST ms), s)"
    "\<exists>s. collect (Suc (length ms)) next_chunk ?d = Inr (map (chunk_of (p_id p)) (of_kind CHUNK ms @ of_kind REQ_REJECT ms), s)"
    using next_request_loop [OF q(1), of "Suc (length ms)"] next_chunk_loop [OF q(2), of "Suc (length ms)"] length_answers [of ms]
    by (simp_all add: less_Suc_eq_le)
  moreover have "waiting (c_net ?d) fd' later"
    "owes (request_table ?d) (less_owed (p_id p) (length (of_kind CHUNK ms @ of_kind REQ_REJECT ms)) k)"
    using 1(2,3) by (simp_all add: f)
  ultimately show "\<exists>d'. handles (handle_peer_msg fd') (length ms) d d' \<and> waiting (c_net d') fd' later
      \<and> owes (request_table d') (less_owed (p_id p) (length (of_kind CHUNK ms @ of_kind REQ_REJECT ms)) k)
      \<and> (\<exists>s. collect (Suc (length ms)) next_request d' = Inr (map (request_of (p_id p)) (of_kind CHUNK_REQUEST ms), s))
      \<and> (\<exists>s. collect (Suc (length ms)) next_chunk d' = Inr (map (chunk_of (p_id p)) (of_kind CHUNK ms @ of_kind REQ_REJECT ms), s))"
    using 1(1) by blast
qed

text \<open>A request and a chunk between a client and peer 5, on socket 7 at both ends, in two pieces.\<close>

theorem peer_messages_exchanged_witness:
  "\<exists>c d s. StartClientNetwork (Some [10, 0, 0, 1]) 4 (no_net\<lparr>n_in := (\<lambda>_. [])(7 :=
      [Bytes (take 30 (peer_images [Answer [98] 0 [1, 2] 4, Request [97] 2 9])), Bytes (drop 30 (peer_images [Answer [98] 0 [1, 2] 4, Request [97] 2 9]))])\<rparr>) = Some c
    \<and> handles (handle_peer_msg 7) 2 (c\<lparr>c_peer_table := Some \<lparr>pt_list = [Used peer_5, Free], pt_count = 1, pt_id_counter = 6\<rparr>\<rparr>) d
    \<and> collect 3 next_chunk d = Inr ([(5, Some [98, 0], 0, 2, Some [1, 2], 4)], s)"
proof -
  let ?ms = "[Answer [98] 0 [1, 2] 4, Request [97] 2 9]"
  let ?net = "no_net\<lparr>n_in := (\<lambda>_. [])(7 := [Bytes (take 30 (peer_images ?ms)), Bytes (drop 30 (peer_images ?ms))])\<rparr>"
  obtain c where c: "StartClientNetwork (Some [10, 0, 0, 1]) 4 ?net = Some c" by (simp add: StartClientNetwork_def)
  let ?d = "c\<lparr>c_peer_table := Some \<lparr>pt_list = [Used peer_5, Free], pt_count = 1, pt_id_counter = 6\<rparr>\<rparr>"
  have d: "c_idle ?d" "c_net ?d = ?net" "CLT_2_ME_REQUEST_CHUNK ?d = []" "CLT_2_ME_RECEIVE_CHUNK ?d = []"
    using c by (auto simp: StartClientNetwork_def c_idle_def)
  have o: "owes (request_table ?d) (\<lambda>_. None)" using c owes_new by (auto simp: StartClientNetwork_def)
  have p: "get_peer_by_socket (c_peer_table ?d) 7 = Inr (Some peer_5)" "open_to 5 7 ?d" "0 \<le> p_id peer_5"
    by (simp_all add: get_peer_by_socket_def open_to_def get_peer_by_id_def get_peer_def peer_5_def)
  have images: "length (peer_images ?ms) = 54"
    by (simp add: peer_images_def polled_def peer_image_def string_bytes_def)
  have w: "waiting (c_net ?d) 7 (peer_images ?ms @ [])"
    using cut_in_two [of 30 "peer_images ?ms" "c_net ?d" 7] images d(2) by simp
  have ok: "list_all ok_peer_message ?ms" by (simp add: ok_peer_message_def is_int_def short_def string_bytes_def)
  have n: "(0 :: int) < 7" "(1 :: int) \<le> 5" by simp_all
  from peer_messages_exchanged [OF d(1) p(2) n o ok p(1,3) o d(3,4) w] obtain d' s where
    r: "handles (handle_peer_msg 7) (length ?ms) ?d d'"
      "collect (Suc (length ?ms)) next_chunk d' = Inr (map (chunk_of (p_id peer_5)) (of_kind CHUNK ?ms @ of_kind REQ_REJECT ?ms), s)"
    by blast
  have l: "length ?ms = 2" "Suc 2 = (3 :: nat)"
    "map (chunk_of (p_id peer_5)) (of_kind CHUNK ?ms @ of_kind REQ_REJECT ?ms) = [(5, Some [98, 0], 0, 2, Some [1, 2], 4)]"
    by (simp_all add: peer_5_def chunk_of_def string_bytes_def)
  show ?thesis using c r unfolding l by blast
qed

end
