(* ===== verification/Tracker.thy ===== *)
theory Tracker
  imports TrackerNet
begin

text \<open>
  \<open>tracker.c\<close>: the numbers of the connected clients, the master file system and the master file table,
  and the main loop that keeps them up to date and passes on what clients report. The web page and the
  e-mail are left out; printing has no effect on the state.
\<close>

section \<open>The numbers of the clients\<close>

text \<open>The array has \<open>peerTableSize\<close> cells; \<open>-1\<close> marks a free one.\<close>

record id_table =
  numberOfEntries :: int
  peerIDs :: "int list"

definition createPeerTable :: id_table where
  "createPeerTable = \<lparr>numberOfEntries = 0, peerIDs = replicate 16 (-1)\<rparr>"

text \<open>The loop runs to \<open>numberOfEntries\<close>, not to the size of the array.\<close>

fun contains_loop :: "nat \<Rightarrow> int \<Rightarrow> int list \<Rightarrow> int outcome" where
  "contains_loop 0 peerID ids = Inr (-1)"
| "contains_loop (Suc n) peerID [] = Inl OutOfBounds"
| "contains_loop (Suc n) peerID (i # ids) = (if i = peerID then Inr 1 else contains_loop n peerID ids)"

definition containsPeer :: "id_table \<Rightarrow> int \<Rightarrow> int outcome" where
  "containsPeer peerTable peerID =
     (if peerID < 1 then Inr (-1) else contains_loop (nat (numberOfEntries peerTable)) peerID (peerIDs peerTable))"

fun add_slot :: "int \<Rightarrow> int list \<Rightarrow> (int \<times> int list) option" where
  "add_slot peerID [] = None"
| "add_slot peerID (i # ids) =
     (if i = peerID then Some (-1, i # ids)
      else if i = -1 then Some (1, peerID # ids)
      else map_option (\<lambda>(r, ids). (r, i # ids)) (add_slot peerID ids))"

text \<open>When every slot is taken the array is doubled and the number put after the old cells.\<close>

definition addPeerToTable :: "int \<Rightarrow> id_table \<Rightarrow> int \<times> id_table" where
  "addPeerToTable peerID peerTable =
     (let ids = peerIDs peerTable;
          (r, ids) = (case add_slot peerID ids of
            Some s \<Rightarrow> s
          | None \<Rightarrow> (1, (ids @ replicate (length ids) (-1))[length ids := peerID]))
      in (r, peerTable\<lparr>numberOfEntries := numberOfEntries peerTable + 1, peerIDs := ids\<rparr>))"

fun clear_slot :: "int \<Rightarrow> int list \<Rightarrow> int list option" where
  "clear_slot peerID [] = None"
| "clear_slot peerID (i # ids) = (if i = peerID then Some (-1 # ids) else map_option ((#) i) (clear_slot peerID ids))"

text \<open>After a search without success the cell past the end is read.\<close>

definition removePeerFromTable :: "int \<Rightarrow> id_table \<Rightarrow> (int \<times> id_table) outcome" where
  "removePeerFromTable peerID peerTable = (case clear_slot peerID (peerIDs peerTable) of
     None \<Rightarrow> Inl OutOfBounds
   | Some ids \<Rightarrow> Inr (1, \<lparr>numberOfEntries = numberOfEntries peerTable - 1, peerIDs = ids\<rparr>))"

section \<open>Broadcasts\<close>

definition broadcast :: "(int \<Rightarrow> tnt \<Rightarrow> (int \<times> tnt) outcome) \<Rightarrow> int \<Rightarrow> id_table \<Rightarrow> tnt \<Rightarrow> tnt outcome" where
  "broadcast tell origin peerTable network =
     foldE (\<lambda>i network. if i \<noteq> -1 \<and> i \<noteq> origin \<and> i \<noteq> 0
       then bindE (tell i network) (\<lambda>(r, network). Inr network) else Inr network) (peerIDs peerTable) network"

definition newPeerBroadcast :: "int \<Rightarrow> id_table \<Rightarrow> tnt \<Rightarrow> tnt outcome" where
  "newPeerBroadcast newPeerID = broadcast (\<lambda>i network. Inr (send_peer_added network i newPeerID)) newPeerID"

definition lostPeerBroadcast :: "int \<Rightarrow> id_table \<Rightarrow> tnt \<Rightarrow> tnt outcome" where
  "lostPeerBroadcast lostPeerID = broadcast (\<lambda>i network. Inr (send_peer_removed network i lostPeerID)) lostPeerID"

definition filesystemUpdateBroadcast :: "filesystem \<Rightarrow> filesystem \<Rightarrow> int \<Rightarrow> id_table \<Rightarrow> tnt \<Rightarrow> tnt outcome" where
  "filesystemUpdateBroadcast additions deletions originator =
     broadcast (\<lambda>i network. send_FS_update network i originator (Some additions) (Some deletions)) originator"

definition clientGotBroadcast :: "cstring \<Rightarrow> int \<Rightarrow> int \<Rightarrow> id_table \<Rightarrow> tnt \<Rightarrow> tnt outcome" where
  "clientGotBroadcast file_got chunk_got peer_got_id =
     broadcast (\<lambda>i network. send_got_chunk_update network i peer_got_id (Some file_got) chunk_got) peer_got_id"

section \<open>The state and its updates\<close>

text \<open>The globals of the tracker, its network and the state of \<open>rand\<close>.\<close>

record 's tracker =
  tk_fs :: filesystem
  tk_filetable :: filetable
  tk_peerTable :: id_table
  tk_network :: tnt
  tk_rand :: 's

definition updateNetwork ::
    "bool \<Rightarrow> ('s \<Rightarrow> nat \<times> 's) \<Rightarrow> int \<Rightarrow> filesystem \<Rightarrow> filesystem \<Rightarrow> 's tracker \<Rightarrow> 's tracker outcome" where
  "updateNetwork stale rnd updatePusher additions deletions tk =
     (let additions = filesystem_set_root_path additions None;
          deletions = filesystem_set_root_path deletions None;
          fs = filesystem_minus_equals (tk_fs tk) deletions
      in bindE (filesystem_plus_equals fs additions) (\<lambda>fs.
         bindE (filetable_remove_filesystem stale (tk_filetable tk) deletions) (\<lambda>filetable.
         bindE (filetable_add_filesystem stale rnd (filetable, tk_rand tk) additions updatePusher False) (\<lambda>(filetable, s).
         bindE (filesystemUpdateBroadcast additions deletions updatePusher (tk_peerTable tk) (tk_network tk)) (\<lambda>network.
           Inr (tk\<lparr>tk_fs := fs, tk_filetable := filetable, tk_network := network, tk_rand := s\<rparr>))))))"

text \<open>Whether a chunk of the file has no owner; the loop stops at the first one.\<close>

definition unowned :: "filetable \<Rightarrow> cstring \<Rightarrow> bool outcome" where
  "unowned filetable prune_path =
     bindE (filetable_get_num_chunks filetable prune_path) (\<lambda>n.
       foldE (\<lambda>i found. if found then Inr True
         else bindE (filetable_get_peers_who_have_file_chunk filetable prune_path (int i)) (\<lambda>owners.
           bindE (derefE owners) (\<lambda>owners. Inr (owners = [])))) [0..<nat n] False)"

definition files_to_prune :: "filetable \<Rightarrow> cstring list outcome" where
  "files_to_prune ft = (case hashtableiterator_new ft of
     None \<Rightarrow> Inr []
   | Some fti \<Rightarrow> hashtable_while (Suc (length (hashtable_items ft))) (\<lambda>fte files. case fte of
         None \<Rightarrow> Inl NullDeref
       | Some e \<Rightarrow> bindE (unowned ft (fte_path e)) (\<lambda>prune. Inr (if prune then files @ [fte_path e] else files)))
       ft fti [])"

definition prune_file :: "bool \<Rightarrow> cstring \<Rightarrow> filesystem \<times> filetable \<Rightarrow> (filesystem \<times> filetable) outcome" where
  "prune_file stale prune_path s = (case s of (fs, ft) \<Rightarrow>
     bindE (filesystem_remove_file_at_path fs prune_path) (\<lambda>fs.
     bindE (filetable_remove_file stale ft prune_path) (\<lambda>ft. Inr (fs, ft))))"

text \<open>The pruned master goes to every client, to number 0 as well.\<close>

definition prune_filesystem :: "bool \<Rightarrow> 's tracker \<Rightarrow> 's tracker outcome" where
  "prune_filesystem stale tk =
     bindE (files_to_prune (tk_filetable tk)) (\<lambda>files.
       if files = [] then Inr tk
       else bindE (foldE (prune_file stale) files (tk_fs tk, tk_filetable tk)) (\<lambda>(fs, ft).
         let network = fold (\<lambda>i network. if i \<noteq> -1 then snd (send_master network i (Some fs)) else network)
               (peerIDs (tk_peerTable tk)) (tk_network tk)
         in Inr (tk\<lparr>tk_fs := fs, tk_filetable := ft, tk_network := network\<rparr>)))"

section \<open>The main loop\<close>

text \<open>The bodies of the five loops, then the loops. What a receiving function fills in is its result.\<close>

definition new_client_in :: "int \<Rightarrow> 's tracker \<Rightarrow> 's tracker outcome" where
  "new_client_in peerID tk = (let (r, peerTable) = addPeerToTable peerID (tk_peerTable tk)
     in bindE (newPeerBroadcast peerID peerTable (tk_network tk)) (\<lambda>network.
       Inr (tk\<lparr>tk_peerTable := peerTable, tk_network := network\<rparr>)))"

definition master_request_in :: "int \<Rightarrow> 's tracker \<Rightarrow> 's tracker outcome" where
  "master_request_in peerID tk = (let (r, network) = send_master (tk_network tk) peerID (Some (tk_fs tk))
     in bindE (send_master_filetable network peerID (Some (tk_filetable tk))) (\<lambda>(r, network).
       Inr (tk\<lparr>tk_network := network\<rparr>)))"

definition lost_client_in :: "bool \<Rightarrow> int \<Rightarrow> 's tracker \<Rightarrow> 's tracker outcome" where
  "lost_client_in stale peerID tk =
     bindE (removePeerFromTable peerID (tk_peerTable tk)) (\<lambda>(r, peerTable).
     bindE (lostPeerBroadcast peerID peerTable (tk_network tk)) (\<lambda>network.
       prune_filesystem stale (tk\<lparr>tk_peerTable := peerTable,
         tk_filetable := filetable_remove_peer (tk_filetable tk) peerID, tk_network := network\<rparr>)))"

text \<open>\<open>file_got\<close> is the buffer of the caller, which is cleared only after an update that was passed on.\<close>

definition cleared :: "byte list" where
  "cleared = replicate (PATH_MAX + 1) 0"

definition client_got_in :: "byte list \<times> int \<times> int \<Rightarrow> byte list \<times> 's tracker \<Rightarrow> (byte list \<times> 's tracker) outcome" where
  "client_got_in r s = (case (r, s) of ((file_got, chunk_got, peer_got_id), (_, tk)) \<Rightarrow>
     bindE (containsPeer (tk_peerTable tk) peer_got_id) (\<lambda>contained.
       if contained = -1 then Inr (file_got, tk)
       else bindE (read_string file_got) (\<lambda>(path, _).
         bindE (clientGotBroadcast path chunk_got peer_got_id (tk_peerTable tk) (tk_network tk)) (\<lambda>network.
         bindE (filetable_set_that_peer_has_file_chunk (tk_filetable tk) path peer_got_id chunk_got) (\<lambda>filetable.
           Inr (cleared, tk\<lparr>tk_filetable := filetable, tk_network := network\<rparr>))))))"

definition client_update_in ::
    "bool \<Rightarrow> ('s \<Rightarrow> nat \<times> 's) \<Rightarrow> int \<times> filesystem \<times> filesystem \<Rightarrow> 's tracker \<Rightarrow> 's tracker outcome" where
  "client_update_in stale rnd r tk = (case r of (clientID, additions, deletions) \<Rightarrow>
     updateNetwork stale rnd clientID additions deletions tk)"

definition if_positive :: "int \<Rightarrow> int option" where
  "if_positive i = (if i > 0 then Some i else None)"

definition on_network :: "(tnt \<Rightarrow> int \<times> tnt) \<Rightarrow> 's tracker \<Rightarrow> (int option \<times> 's tracker) outcome" where
  "on_network f tk = (let (i, network) = f (tk_network tk) in Inr (if_positive i, tk\<lparr>tk_network := network\<rparr>))"

definition next_got :: "byte list \<times> 's tracker \<Rightarrow> ((byte list \<times> int \<times> int) option \<times> byte list \<times> 's tracker) outcome" where
  "next_got s = (case s of (file_got, tk) \<Rightarrow>
     bindE (receive_client_got (tk_network tk) file_got) (\<lambda>(r, network).
       Inr (r, file_got, tk\<lparr>tk_network := network\<rparr>)))"

definition next_update :: "'s tracker \<Rightarrow> ((int \<times> filesystem \<times> filesystem) option \<times> 's tracker) outcome" where
  "next_update tk = bindE (receive_client_update (tk_network tk)) (\<lambda>(r, network).
     Inr (case r of None \<Rightarrow> None | Some (len, u) \<Rightarrow> if len > 0 then Some u else None, tk\<lparr>tk_network := network\<rparr>))"

text \<open>One round; no loop runs more often than its queue is long.\<close>

definition tracker_round :: "bool \<Rightarrow> ('s \<Rightarrow> nat \<times> 's) \<Rightarrow> 's tracker \<Rightarrow> 's tracker outcome" where
  "tracker_round stale rnd tk =
     bindE (recv_while (Suc (length (CLT_2_TKR_NEW_CLIENT (tk_network tk)))) (on_network receive_new_client) new_client_in tk) (\<lambda>tk.
     bindE (recv_while (Suc (length (CLT_2_TKR_CLIENT_REQ_MASTER (tk_network tk)))) (on_network receive_master_request)
       master_request_in tk) (\<lambda>tk.
     bindE (recv_while (Suc (length (CLT_2_TKR_REMOVE_CLIENT (tk_network tk)))) (on_network receive_lost_client)
       (lost_client_in stale) tk) (\<lambda>tk.
     bindE (recv_while (Suc (length (CLT_2_TKR_CLIENT_GOT (tk_network tk)))) next_got client_got_in (cleared, tk)) (\<lambda>(file_got, tk).
       recv_while (Suc (length (CLT_2_TKR_FILE_UPDATE (tk_network tk)))) next_update (client_update_in stale rnd) tk))))"

definition tracker_init :: "bool \<Rightarrow> ('s \<Rightarrow> nat \<times> 's) \<Rightarrow> net \<Rightarrow> 's \<Rightarrow> 's tracker outcome" where
  "tracker_init stale rnd net s =
     bindE (filesystem_new (\<lambda>path. path) (\<lambda>_. DiskDir []) None) (\<lambda>fs.
     bindE (filetable_add_filesystem stale rnd (filetable_new, s) fs 0 False) (\<lambda>(filetable, s).
       Inr \<lparr>tk_fs = fs, tk_filetable = filetable, tk_peerTable = createPeerTable, tk_network = StartTrackerNetwork net, tk_rand = s\<rparr>))"

text \<open>The main loop until the interrupt: \<open>network_threads\<close> tells what the network does between the rounds.\<close>

fun tracker_loop ::
    "bool \<Rightarrow> ('s \<Rightarrow> nat \<times> 's) \<Rightarrow> (tnt \<Rightarrow> tnt outcome) list \<Rightarrow> 's tracker \<Rightarrow> 's tracker outcome" where
  "tracker_loop stale rnd [] tk = Inr tk"
| "tracker_loop stale rnd (network_thread # network_threads) tk =
     bindE (network_thread (tk_network tk)) (\<lambda>network.
     bindE (tracker_round stale rnd (tk\<lparr>tk_network := network\<rparr>)) (tracker_loop stale rnd network_threads))"

definition tracker_main :: "bool \<Rightarrow> ('s \<Rightarrow> nat \<times> 's) \<Rightarrow> net \<Rightarrow> 's \<Rightarrow> (tnt \<Rightarrow> tnt outcome) list \<Rightarrow> net outcome" where
  "tracker_main stale rnd net s network_threads =
     bindE (tracker_init stale rnd net s) (\<lambda>tk.
     bindE (tracker_loop stale rnd network_threads tk) (\<lambda>tk. EndTrackerNetwork (tk_network tk)))"

end
