(* ===== verification/TrackerInv.thy ===== *)
theory TrackerInv
  imports Tracker FileTabCodec
begin

text \<open>
  What the tracker keeps true: its numbers are those of the connected clients, the file table lists the
  files of the master file system, and every chunk of every file has a connected holder.
\<close>

section \<open>The numbers as a set\<close>

definition used_ids :: "int list \<Rightarrow> int list" where
  "used_ids ids = filter (\<lambda>i. i \<noteq> -1) ids"

definition members :: "id_table \<Rightarrow> int set" where
  "members t = set (used_ids (peerIDs t))"

definition ids_ok :: "id_table \<Rightarrow> bool" where
  "ids_ok t \<longleftrightarrow> distinct (used_ids (peerIDs t)) \<and> numberOfEntries t = int (length (used_ids (peerIDs t)))
     \<and> peerIDs t \<noteq> [] \<and> (\<forall>i \<in> members t. 0 < i)"

lemma used_ids_simps [simp]:
  "used_ids [] = []" "used_ids (i # ids) = (if i = -1 then used_ids ids else i # used_ids ids)"
  "used_ids (xs @ ys) = used_ids xs @ used_ids ys" "used_ids (replicate n (-1)) = []"
  by (simp_all add: used_ids_def)

lemma ids_ok_new: "ids_ok createPeerTable" "members createPeerTable = {}"
  by (simp_all add: ids_ok_def members_def createPeerTable_def)

lemma contains_loop_take:
  "n \<le> length ids \<Longrightarrow> contains_loop n p ids = Inr (if p \<in> set (take n ids) then 1 else -1)"
proof (induction ids arbitrary: n)
  case (Cons i ids)
  then show ?case by (cases n) auto
qed simp

lemma used_ids_le: "length (used_ids ids) \<le> length ids"
  by (simp add: used_ids_def)

lemma containsPeer_ok:
  assumes "ids_ok t" "1 \<le> p"
  shows "containsPeer t p = Inr (if p \<in> set (take (length (used_ids (peerIDs t))) (peerIDs t)) then 1 else -1)"
  using assms contains_loop_take [OF used_ids_le] by (simp add: containsPeer_def ids_ok_def)

lemma add_slot_new:
  "p \<notin> set ids \<Longrightarrow> case add_slot p ids of
      None \<Rightarrow> -1 \<notin> set ids
    | Some (r, ids') \<Rightarrow> r = 1 \<and> mset (used_ids ids') = add_mset p (mset (used_ids ids)) \<and> ids' \<noteq> []" if "p \<noteq> -1"
  using that
proof (induction ids)
  case (Cons i ids)
  then show ?case by (cases "add_slot p ids") (auto split: if_splits)
qed simp

lemma peer_in_table_ok:
  assumes "ids_ok t" "0 < p" "p \<notin> members t"
  shows "\<exists>t'. addPeerToTable p t = (1, t') \<and> ids_ok t' \<and> members t' = insert p (members t)"
proof -
  have p: "p \<noteq> -1" using assms(2) by simp
  then have new: "p \<notin> set (peerIDs t)" using assms(3) by (simp add: members_def used_ids_def)
  let ?full = "(peerIDs t @ replicate (length (peerIDs t)) (-1))[length (peerIDs t) := p]"
  have ne: "peerIDs t \<noteq> []" using assms(1) by (simp add: ids_ok_def)
  have full: "used_ids ?full = used_ids (peerIDs t) @ [p]"
  proof -
    obtain n where n: "length (peerIDs t) = Suc n" using ne by (cases "peerIDs t") auto
    then have "?full = peerIDs t @ p # replicate n (-1)" by (simp add: list_update_append)
    with p show ?thesis by simp
  qed
  obtain ids where ids: "addPeerToTable p t = (1, t\<lparr>numberOfEntries := numberOfEntries t + 1, peerIDs := ids\<rparr>)"
    "mset (used_ids ids) = add_mset p (mset (used_ids (peerIDs t)))" "ids \<noteq> []"
  proof (cases "add_slot p (peerIDs t)")
    case None
    with that [of ?full] full ne show thesis by (simp add: addPeerToTable_def Let_def)
  next
    case (Some s)
    with that add_slot_new [OF p new] show thesis by (cases s) (simp add: addPeerToTable_def)
  qed
  have e: "mset (used_ids ids) = mset (p # used_ids (peerIDs t))" using ids(2) by simp
  have s: "set (used_ids ids) = insert p (set (used_ids (peerIDs t)))" "length (used_ids ids) = Suc (length (used_ids (peerIDs t)))"
    "distinct (used_ids ids) \<longleftrightarrow> distinct (p # used_ids (peerIDs t))"
    using mset_eq_setD [OF e] mset_eq_length [OF e] mset_eq_imp_distinct_iff [OF e] by simp_all
  then have "ids_ok (t\<lparr>numberOfEntries := numberOfEntries t + 1, peerIDs := ids\<rparr>)"
    using assms ids(3) by (simp add: ids_ok_def members_def)
  then show ?thesis using ids(1) s(1) by (simp add: members_def)
qed

lemma clear_slot_in:
  "p \<in> set ids \<Longrightarrow> p \<noteq> -1 \<Longrightarrow> \<exists>ids'. clear_slot p ids = Some ids' \<and> add_mset p (mset (used_ids ids')) = mset (used_ids ids) \<and> ids' \<noteq> []"
proof (induction ids)
  case (Cons i ids)
  then show ?case by (cases "i = p") auto
qed simp

lemma clear_slot_out: "p \<notin> set ids \<Longrightarrow> clear_slot p ids = None"
  by (induction ids) simp_all

lemma remove_peer_ok:
  assumes "ids_ok t" "p \<in> members t"
  shows "\<exists>t'. removePeerFromTable p t = Inr (1, t') \<and> ids_ok t' \<and> members t' = members t - {p}"
proof -
  have p: "p \<in> set (peerIDs t)" "p \<noteq> -1" using assms(2) by (simp_all add: members_def used_ids_def)
  obtain ids where ids: "clear_slot p (peerIDs t) = Some ids" "add_mset p (mset (used_ids ids)) = mset (used_ids (peerIDs t))" "ids \<noteq> []"
    using clear_slot_in [OF p] by blast
  have e: "mset (p # used_ids ids) = mset (used_ids (peerIDs t))" using ids(2) by simp
  have s: "insert p (set (used_ids ids)) = set (used_ids (peerIDs t))" "Suc (length (used_ids ids)) = length (used_ids (peerIDs t))"
    "distinct (p # used_ids ids) \<longleftrightarrow> distinct (used_ids (peerIDs t))"
    using mset_eq_setD [OF e] mset_eq_length [OF e] mset_eq_imp_distinct_iff [OF e] by simp_all
  let ?t = "\<lparr>numberOfEntries = numberOfEntries t - 1, peerIDs = ids\<rparr>"
  have d: "p \<notin> set (used_ids ids)" "distinct (used_ids ids)" using assms(1) s(3) by (simp_all add: ids_ok_def)
  then have m: "members ?t = members t - {p}" using s(1) by (auto simp: members_def)
  have "numberOfEntries t = int (length (used_ids (peerIDs t)))" "\<forall>i \<in> members t. 0 < i" using assms(1) by (simp_all add: ids_ok_def)
  then have "ids_ok ?t" using d(2) ids(3) m unfolding ids_ok_def s(2) [symmetric] by simp
  with m show ?thesis using ids(1) by (simp add: removePeerFromTable_def)
qed

section \<open>Broadcasts never fault\<close>

definition good_net :: "tnt \<Rightarrow> bool" where
  "good_net network \<longleftrightarrow> (\<forall>i. \<exists>r. get_peer_by_id (t_peer_table network) i = Inr r)"

lemma broadcast_ok:
  assumes tell: "\<And>i network. good_net network \<Longrightarrow> \<exists>r network'. tell i network = Inr (r, network') \<and> t_peer_table network' = t_peer_table network"
    and "good_net network"
  shows "\<exists>network'. broadcast tell origin t network = Inr network' \<and> good_net network'"
proof -
  have "\<exists>network'. foldE (\<lambda>i network. if i \<noteq> -1 \<and> i \<noteq> origin \<and> i \<noteq> 0
      then bindE (tell i network) (\<lambda>(r, network). Inr network) else Inr network) ids network = Inr network' \<and> good_net network'"
    if "good_net network" for ids network
    using that
  proof (induction ids arbitrary: network)
    case Nil
    then show ?case by simp
  next
    case (Cons i ids)
    obtain r net1 where 1: "tell i network = Inr (r, net1)" "t_peer_table net1 = t_peer_table network"
      using tell [OF Cons.prems] by blast
    then have "good_net net1" using Cons.prems by (simp add: good_net_def)
    with Cons.IH 1(1) Cons.prems show ?case by simp
  qed
  with assms(2) show ?thesis by (simp add: broadcast_def)
qed

lemma tell_added: "\<exists>r network'. Inr (send_peer_added network i p) = Inr (r, network') \<and> t_peer_table network' = t_peer_table network"
  by (simp add: send_peer_added_def)

lemma tell_removed: "\<exists>r network'. Inr (send_peer_removed network i p) = Inr (r, network') \<and> t_peer_table network' = t_peer_table network"
  by (simp add: send_peer_removed_def)

lemma tell_update: "good_net network \<Longrightarrow>
    \<exists>r network'. send_FS_update network i p (Some adds) (Some dels) = Inr (r, network') \<and> t_peer_table network' = t_peer_table network"
proof -
  assume "good_net network"
  then obtain c where "get_peer_by_id (t_peer_table network) i = Inr c" by (auto simp: good_net_def)
  then show ?thesis by (cases c) (simp_all add: send_FS_update_def Let_def split: prod.splits)
qed

lemma tell_got: "good_net network \<Longrightarrow>
    \<exists>r network'. send_got_chunk_update network i p (Some path) chunk = Inr (r, network') \<and> t_peer_table network' = t_peer_table network"
proof -
  assume "good_net network"
  then obtain c where "get_peer_by_id (t_peer_table network) i = Inr c" by (auto simp: good_net_def)
  then show ?thesis by (cases c) (simp_all add: send_got_chunk_update_def Let_def)
qed

lemma broadcasts_ok:
  assumes "good_net network"
  shows "\<exists>network'. newPeerBroadcast p t network = Inr network' \<and> good_net network'"
    "\<exists>network'. lostPeerBroadcast p t network = Inr network' \<and> good_net network'"
    "\<exists>network'. filesystemUpdateBroadcast adds dels p t network = Inr network' \<and> good_net network'"
    "\<exists>network'. clientGotBroadcast path chunk p t network = Inr network' \<and> good_net network'"
  unfolding newPeerBroadcast_def lostPeerBroadcast_def filesystemUpdateBroadcast_def clientGotBroadcast_def
  by (rule broadcast_ok [OF _ assms], rule tell_added tell_removed tell_update tell_got, assumption?)+

lemma masters_ok:
  "good_net network \<Longrightarrow> good_net (fold (\<lambda>i network. if i \<noteq> -1 then snd (send_master network i (Some fs)) else network) ids network)"
  by (induction ids arbitrary: network) (simp_all add: send_master_def good_net_def split: prod.splits)

section \<open>Paths\<close>

definition named :: "filesystem \<Rightarrow> bool" where
  "named fs \<longleftrightarrow> (\<forall>(p, x) \<in> entries (fs_root fs). list_all is_component (p @ [f_name x]))"

lemma joined_inj:
  assumes "list_all is_component cs" "list_all is_component ds" "joined cs = joined ds"
  shows "cs = ds"
proof -
  have "(Inr cs :: cstring list outcome) = Inr ds"
    using path_loop_joined [OF assms(1), of False] path_loop_joined [OF assms(2), of False] unfolding assms(3) by (rule trans [OF sym])
  then show ?thesis by (rule sum.inject(2) [THEN iffD1])
qed

lemma entries_unique:
  "uniq f \<Longrightarrow> (p, x) \<in> entries f \<Longrightarrow> (p, y) \<in> entries f \<Longrightarrow> f_name x = f_name y \<Longrightarrow> x = y"
proof (induction p arbitrary: f)
  case Nil
  have "distinct (map f_name (fo_files f))" using Nil.prems(1) by (cases f) simp
  with Nil.prems show ?case by (auto simp: entries_top distinct_map inj_on_def)
next
  case (Cons n p)
  have d: "distinct (map fo_name (fo_folders f))" using Cons.prems(1) by (cases f) simp
  have "\<exists>d. sub n (fo_folders f) = Some d \<and> (p, x) \<in> entries d" "\<exists>d. sub n (fo_folders f) = Some d \<and> (p, y) \<in> entries d"
    using Cons.prems(2,3) entries_sub [OF d] by blast+
  then obtain d where "sub n (fo_folders f) = Some d" "(p, x) \<in> entries d" "(p, y) \<in> entries d" by auto
  with Cons.IH [OF uniq_sub] Cons.prems(1,4) show ?case by blast
qed

text \<open>What is below a folder has the folder's entry.\<close>

lemma below_folder:
  "wf_folder f \<Longrightarrow> cs \<noteq> [] \<Longrightarrow> (cs @ q, y) \<in> entries f \<Longrightarrow> (butlast cs, dir_entry (last cs)) \<in> entries f"
proof (induction cs arbitrary: f)
  case (Cons n cs)
  have d: "distinct (map fo_name (fo_folders f))" using wf_names [OF Cons.prems(1)] by simp
  obtain g where g: "sub n (fo_folders f) = Some g" "(cs @ q, y) \<in> entries g"
    using Cons.prems(3) entries_sub [OF d] by auto
  show ?case
  proof (cases "cs = []")
    case True
    with wf_dir [OF Cons.prems(1)] sub_name [OF g(1)] g(1) show ?thesis by (auto simp: entries_top)
  next
    case False
    with Cons.IH [OF wf_sub [OF Cons.prems(1) g(1)] False g(2)] g(1) show ?thesis by (simp add: entries_sub [OF d])
  qed
qed simp

text \<open>The paths the file table lists for a file system: its files whose size fits in an \<open>int\<close>.\<close>

definition listed :: "filesystem \<Rightarrow> cstring set" where
  "listed fs = fst ` tracked fs"

definition sized :: "fileinfo \<Rightarrow> bool" where
  "sized x \<longleftrightarrow> f_is_folder x = 0 \<and> 0 \<le> file_get_size x"

lemma listed_iff: "path \<in> listed fs \<longleftrightarrow> (\<exists>(p, x) \<in> entries (fs_root fs). sized x \<and> path = joined (p @ [f_name x]))"
proof
  assume "path \<in> listed fs"
  then obtain len t p x where "(p, x) \<in> entries (fs_root fs)" "(path, len, t) = shown [] (p, x)" "0 \<le> len"
    by (auto simp: listed_def tracked_def simp del: shown_def)
  then show "\<exists>(p, x) \<in> entries (fs_root fs). sized x \<and> path = joined (p @ [f_name x])"
    by (intro bexI [of _ "(p, x)"]) (auto simp: shown_def sized_def split: if_splits)
next
  assume "\<exists>(p, x) \<in> entries (fs_root fs). sized x \<and> path = joined (p @ [f_name x])"
  then obtain p x where e: "(p, x) \<in> entries (fs_root fs)" "sized x" "path = joined (p @ [f_name x])" by auto
  then have "shown [] (p, x) = (path, file_get_size x, f_last_modified x)" by (simp add: shown_def sized_def)
  then have "(path, file_get_size x) \<in> tracked fs" using e by (force simp: tracked_def sized_def)
  then show "path \<in> listed fs" unfolding listed_def by force
qed

lemma same_path:
  assumes "uniq (fs_root fs)" "named fs" "(p, x) \<in> entries (fs_root fs)" "(q, y) \<in> entries (fs_root fs)"
    and "joined (p @ [f_name x]) = joined (q @ [f_name y])"
  shows "p = q \<and> x = y"
proof -
  have "list_all is_component (p @ [f_name x])" "list_all is_component (q @ [f_name y])"
    using assms(2-4) by (auto simp: named_def)
  from joined_inj [OF this assms(5)] have "p = q" "f_name x = f_name y" by simp_all
  with entries_unique [OF assms(1,3)] assms(4) show ?thesis by simp
qed

lemma listed_remove:
  assumes "wf_folder (fs_root fs)" "named fs" "(p, x) \<in> entries (fs_root fs)" "sized x"
    and "entries r = off_path (p @ [f_name x]) (fs_root fs)"
  shows "listed (fs\<lparr>fs_root := r\<rparr>) = listed fs - {joined (p @ [f_name x])}" "named (fs\<lparr>fs_root := r\<rparr>)"
proof -
  note u = wf_uniq [OF assms(1)]
  let ?cs = "p @ [f_name x]"
  have off: "(q, y) \<in> entries r \<longleftrightarrow> (q, y) \<in> entries (fs_root fs) \<and> joined (q @ [f_name y]) \<noteq> joined ?cs"
    if y: "sized y" for q y
  proof (cases "(q, y) \<in> entries (fs_root fs)")
    case True
    have "take (length ?cs) q \<noteq> ?cs"
    proof
      assume "take (length ?cs) q = ?cs"
      then have "q = ?cs @ drop (length ?cs) q" by (metis append_take_drop_id)
      with True below_folder [OF assms(1), of ?cs "drop (length ?cs) q" y] have "(p, dir_entry (f_name x)) \<in> entries (fs_root fs)" by simp
      with entries_unique [OF u assms(3)] have "x = dir_entry (f_name x)" by simp
      with assms(4) show False by (metis dir_entry_simps(2) sized_def zero_neq_one)
    qed
    moreover have "joined (q @ [f_name y]) = joined ?cs \<longleftrightarrow> q = p \<and> f_name y = f_name x"
      using same_path [OF u assms(2) True assms(3)] by auto
    ultimately show ?thesis using True by (auto simp: assms(5) off_path_def)
  qed (simp add: assms(5) off_path_def)
  have "path \<in> listed (fs\<lparr>fs_root := r\<rparr>) \<longleftrightarrow> path \<in> listed fs - {joined ?cs}" for path
  proof -
    have "path \<in> listed (fs\<lparr>fs_root := r\<rparr>) \<longleftrightarrow> (\<exists>q y. (q, y) \<in> entries r \<and> sized y \<and> path = joined (q @ [f_name y]))"
      by (auto simp: listed_iff)
    also have "\<dots> \<longleftrightarrow> (\<exists>q y. ((q, y) \<in> entries (fs_root fs) \<and> joined (q @ [f_name y]) \<noteq> joined ?cs) \<and> sized y \<and> path = joined (q @ [f_name y]))"
      using off by blast
    also have "\<dots> \<longleftrightarrow> path \<in> listed fs - {joined ?cs}" by (auto simp: listed_iff)
    finally show ?thesis .
  qed
  then show "listed (fs\<lparr>fs_root := r\<rparr>) = listed fs - {joined ?cs}" by blast
  show "named (fs\<lparr>fs_root := r\<rparr>)" using assms(2) by (auto simp: named_def assms(5) off_path_def)
qed

lemma listed_diff:
  assumes "wf_folder (fs_root old)" "wf_folder (fs_root new)" "named old" "named new"
    and "filesystem_diff old new = (additions, deletions)"
  shows "listed new = (listed old - listed deletions) \<union> listed additions"
proof -
  note u = wf_uniq [OF assms(1)] wf_uniq [OF assms(2)]
  have e: "entries (fs_root additions) = entries (fs_root new) - entries (fs_root old)"
    "entries (fs_root deletions) = entries (fs_root old) - entries (fs_root new)"
    using diff_entries [OF u assms(5)] by simp_all
  have "path \<in> (listed old - listed deletions) \<union> listed additions" if path: "path \<in> listed new" for path
  proof -
    obtain p x where x: "(p, x) \<in> entries (fs_root new)" "sized x" "path = joined (p @ [f_name x])" using path by (auto simp: listed_iff)
    show ?thesis
    proof (cases "(p, x) \<in> entries (fs_root old)")
      case True
      have "path \<notin> listed deletions"
      proof
        assume "path \<in> listed deletions"
        then obtain q y where y: "(q, y) \<in> entries (fs_root old)" "(q, y) \<notin> entries (fs_root new)" "path = joined (q @ [f_name y])"
          by (auto simp: listed_iff e(2))
        with same_path [OF u(1) assms(3) True y(1)] x show False by simp
      qed
      with True x show ?thesis by (auto simp: listed_iff)
    next
      case False
      with x show ?thesis by (auto simp: listed_iff e(1))
    qed
  qed
  moreover have "path \<in> listed new" if path: "path \<in> listed old" "path \<notin> listed deletions" for path
  proof -
    obtain p x where x: "(p, x) \<in> entries (fs_root old)" "sized x" "path = joined (p @ [f_name x])" using path(1) by (auto simp: listed_iff)
    with path(2) have "(p, x) \<in> entries (fs_root new)" by (force simp: listed_iff e(2))
    with x show ?thesis by (auto simp: listed_iff)
  qed
  moreover have "path \<in> listed new" if "path \<in> listed additions" for path using that by (auto simp: listed_iff e(1))
  ultimately show ?thesis by blast
qed

section \<open>Pruning\<close>

definition orphaned :: "fileentry \<Rightarrow> bool" where
  "orphaned e \<longleftrightarrow> [] \<in> set (fte_chunks e)"

lemma unowned_ok:
  assumes "holds ft m" "m path = Some e"
  shows "unowned ft path = Inr (orphaned e)"
proof -
  let ?n = "length (fte_chunks e)"
  define f where "f = (\<lambda>i found. if found then Inr True
         else bindE (filetable_get_peers_who_have_file_chunk ft path (int i)) (\<lambda>owners.
           bindE (derefE owners) (\<lambda>owners. Inr (owners = []))))"
  have get: "filetable_get_peers_who_have_file_chunk ft path (int i) = Inr (Some (fte_chunks e ! i))" if "i < ?n" for i
    using that by (simp add: filetable_get_peers_who_have_file_chunk_def holds_find [OF assms(1)] assms(2) queue_at_def)
  have run: "foldE f is b = Inr (b \<or> (\<exists>i \<in> set is. fte_chunks e ! i = []))" if "\<forall>i \<in> set is. i < ?n" for "is" b
    using that
  proof (induction "is" arbitrary: b)
    case Nil
    then show ?case by simp
  next
    case (Cons i "is")
    have "f i b = Inr (b \<or> fte_chunks e ! i = [])" using get [of i] Cons.prems by (simp add: f_def derefE_def)
    with Cons.IH Cons.prems show ?case by auto
  qed
  have "filetable_get_num_chunks ft path = Inr (int ?n)"
    by (simp add: filetable_get_num_chunks_def holds_find [OF assms(1)] assms(2))
  then have "unowned ft path = foldE f [0..<?n] False" by (simp add: unowned_def f_def)
  also have "\<dots> = Inr (orphaned e)"
    by (subst run) (auto simp: orphaned_def in_set_conv_nth)
  finally show ?thesis .
qed

lemma files_to_prune_ok:
  assumes "holds ft m"
  shows "\<exists>files. files_to_prune ft = Inr files \<and> distinct files \<and> set files = {k. \<exists>e. m k = Some e \<and> orphaned e}"
proof -
  have ok: "hashtable_ok ft" using assms by (simp add: holds_def keyed_ok_def)
  have none: "None \<notin> set (hashtable_items ft)" using hashtable_items_some [OF ok] by blast
  define f :: "fileentry option \<Rightarrow> cstring list \<Rightarrow> cstring list outcome" where "f = (\<lambda>fte files. case fte of
         None \<Rightarrow> Inl NullDeref
       | Some e \<Rightarrow> bindE (unowned ft (fte_path e)) (\<lambda>prune. Inr (if prune then files @ [fte_path e] else files)))"
  have run: "foldE f es files = Inr (files @ map fte_path (filter orphaned (map the es)))" if "set es \<subseteq> set (hashtable_items ft)" for es files
    using that
  proof (induction es arbitrary: files)
    case Nil
    then show ?case by simp
  next
    case (Cons r es)
    then obtain e where e: "r = Some e" using none by (cases r) auto
    have "e \<in> set (map the (hashtable_items ft))" using Cons.prems e by force
    then have "e \<in> ran m" by (rule holds_items [OF assms])
    then obtain k where "m k = Some e" by (auto simp: ran_def)
    then have "m (fte_path e) = Some e" using holds_path [OF assms] by auto
    then have "f r files = Inr (if orphaned e then files @ [fte_path e] else files)" by (simp add: f_def e unowned_ok [OF assms])
    with Cons e show ?case by simp
  qed
  let ?files = "map fte_path (filter orphaned (map the (hashtable_items ft)))"
  have "files_to_prune ft = Inr ?files"
    unfolding files_to_prune_def f_def [symmetric] hashtable_loop [OF ok] using run [OF subset_refl, of "[]"] by simp
  moreover have "distinct ?files" using holds_distinct [OF assms] by (simp add: distinct_map_filter)
  moreover have "set ?files = {k. \<exists>e. m k = Some e \<and> orphaned e}"
  proof (rule set_eqI)
    fix k
    show "k \<in> set ?files \<longleftrightarrow> k \<in> {k. \<exists>e. m k = Some e \<and> orphaned e}"
    proof
      assume "k \<in> set ?files"
      then obtain e where e: "e \<in> set (map the (hashtable_items ft))" "orphaned e" "k = fte_path e" by auto
      from holds_items [OF assms e(1)] obtain j where j: "m j = Some e" by (auto simp: ran_def)
      with holds_path [OF assms j] e(2,3) show "k \<in> {k. \<exists>e. m k = Some e \<and> orphaned e}" by auto
    next
      assume "k \<in> {k. \<exists>e. m k = Some e \<and> orphaned e}"
      then obtain e where e: "m k = Some e" "orphaned e" by auto
      with holds_item [OF assms e(1)] holds_path [OF assms e(1)] show "k \<in> set ?files" by force
    qed
  qed
  ultimately show ?thesis by blast
qed

lemma remove_peer_holds:
  assumes "holds ft m"
  shows "holds (filetable_remove_peer ft p) (\<lambda>k. map_option (\<lambda>e. e\<lparr>fte_chunks := map (filter (\<lambda>q. q \<noteq> p)) (fte_chunks e)\<rparr>) (m k))"
proof (cases "hashtableiterator_new ft")
  case None
  have "hashtable_ok ft" using assms by (simp add: holds_def keyed_ok_def)
  with None hashtableiterator_new_at have "hashtable_items ft = []" by force
  then have "m k = None" for k using holds_item [OF assms, of k] by (cases "m k") auto
  then have m: "m = (\<lambda>k. None)" by (rule ext)
  show ?thesis using assms unfolding m by (simp add: filetable_remove_peer_def None)
next
  case (Some hti)
  then show ?thesis
    using holds_poke_all [OF assms, of "\<lambda>e. e\<lparr>fte_chunks := map (filter (\<lambda>q. q \<noteq> p)) (fte_chunks e)\<rparr>"]
    by (simp add: filetable_remove_peer_def)
qed

text \<open>The table lists the files of a well-formed, named tree.\<close>

definition in_step :: "filesystem \<Rightarrow> filetable \<Rightarrow> (cstring \<rightharpoonup> fileentry) \<Rightarrow> bool" where
  "in_step fs ft m \<longleftrightarrow> wf_folder (fs_root fs) \<and> named fs \<and> holds ft m \<and> dom m = listed fs"

lemma prune_one:
  assumes "in_step fs ft m" "m path \<noteq> None"
  shows "\<exists>fs' ft'. prune_file True path (fs, ft) = Inr (fs', ft') \<and> in_step fs' ft' (m(path := None))"
proof -
  note ok = assms(1) [unfolded in_step_def]
  obtain p x where x: "(p, x) \<in> entries (fs_root fs)" "sized x" "path = joined (p @ [f_name x])"
  proof -
    have "path \<in> listed fs" using ok assms(2) by blast
    with that show thesis by (auto simp: listed_iff)
  qed
  have comps: "list_all is_component (p @ [f_name x])" using ok x(1) by (auto simp: named_def)
  have has: "has_path (p @ [f_name x]) (fs_root fs)" using x(1) by (auto simp: has_path_def)
  obtain r where r: "folder_remove_file_at_path (p @ [f_name x]) (fs_root fs) = Inr r" "wf_folder r"
    "entries r = off_path (p @ [f_name x]) (fs_root fs)"
    using removed [of "fs_root fs" "p @ [f_name x]"] ok has by (auto simp: removed_def)
  have "get_path_components path = Inr (p @ [f_name x])"
    unfolding get_path_components_def x(3) by (rule path_loop_joined [OF comps])
  then have fs': "filesystem_remove_file_at_path fs path = Inr (fs\<lparr>fs_root := r\<rparr>)"
    by (simp add: filesystem_remove_file_at_path_def r(1))
  obtain ft' where ft': "filetable_remove_file True ft path = Inr ft'" "holds ft' (m(path := None))"
    using holds_remove [of ft m path] ok assms(2) by (auto simp: filetable_remove_file_def filetableentry_destroy_def)
  have "in_step (fs\<lparr>fs_root := r\<rparr>) ft' (m(path := None))"
    using ok r(2) ft'(2) listed_remove [of fs p x r] x r(3) by (auto simp: in_step_def)
  then show ?thesis using fs' ft'(1) by (simp add: prune_file_def)
qed

lemma prune_all:
  "in_step fs ft m \<Longrightarrow> distinct files \<Longrightarrow> set files \<subseteq> dom m \<Longrightarrow>
    \<exists>fs' ft'. foldE (prune_file True) files (fs, ft) = Inr (fs', ft') \<and> in_step fs' ft' (m |` (- set files))"
proof (induction files arbitrary: fs ft m)
  case Nil
  then show ?case by (simp add: restrict_map_def)
next
  case (Cons path files)
  have "m path \<noteq> None" using Cons.prems(3) by auto
  from prune_one [OF Cons.prems(1) this] obtain fs1 ft1 where
    1: "prune_file True path (fs, ft) = Inr (fs1, ft1)" "in_step fs1 ft1 (m(path := None))" by blast
  have "distinct files" "set files \<subseteq> dom (m(path := None))" using Cons.prems(2,3) by auto
  from Cons.IH [OF 1(2) this] obtain fs2 ft2 where
    2: "foldE (prune_file True) files (fs1, ft1) = Inr (fs2, ft2)" "in_step fs2 ft2 ((m(path := None)) |` (- set files))" by blast
  have "(m(path := None)) |` (- set files) = m |` (- set (path # files))" by (auto simp: restrict_map_def fun_eq_iff)
  with 1(1) 2 show ?case by simp
qed

definition tracker_ok :: "'s tracker \<Rightarrow> bool" where
  "tracker_ok tk \<longleftrightarrow> ids_ok (tk_peerTable tk) \<and> good_net (tk_network tk)
     \<and> (\<exists>m. in_step (tk_fs tk) (tk_filetable tk) m
        \<and> (\<forall>e \<in> ran m. \<forall>owners \<in> set (fte_chunks e). owners \<noteq> [] \<and> set owners \<subseteq> members (tk_peerTable tk)))"

lemma pruned:
  assumes "ids_ok (tk_peerTable tk)" "good_net (tk_network tk)" "in_step (tk_fs tk) (tk_filetable tk) m"
    and "\<forall>e \<in> ran m. \<forall>owners \<in> set (fte_chunks e). set owners \<subseteq> members (tk_peerTable tk)"
  shows "\<exists>tk'. prune_filesystem True tk = Inr tk' \<and> tracker_ok tk' \<and> tk_peerTable tk' = tk_peerTable tk"
proof -
  have h: "holds (tk_filetable tk) m" using assms(3) by (simp add: in_step_def)
  obtain files where files: "files_to_prune (tk_filetable tk) = Inr files" "distinct files"
    "set files = {k. \<exists>e. m k = Some e \<and> orphaned e}"
    using files_to_prune_ok [OF h] by blast
  have kept: "\<forall>e \<in> ran (m |` (- set files)). \<forall>owners \<in> set (fte_chunks e). owners \<noteq> [] \<and> set owners \<subseteq> members (tk_peerTable tk)"
  proof (intro ballI conjI)
    fix e owners
    assume e: "e \<in> ran (m |` (- set files))" "owners \<in> set (fte_chunks e)"
    then obtain k where k: "m k = Some e" "k \<notin> set files" by (auto simp: ran_def restrict_map_def split: if_splits)
    then have "\<not> orphaned e" using files(3) by auto
    with e(2) show "owners \<noteq> []" by (auto simp: orphaned_def)
    show "set owners \<subseteq> members (tk_peerTable tk)" using assms(4) k(1) e(2) by (auto simp: ran_def)
  qed
  show ?thesis
  proof (cases "files = []")
    case True
    then have "m |` (- set files) = m" by (simp add: restrict_map_def)
    with assms(1-3) kept have "tracker_ok tk" unfolding tracker_ok_def by metis
    with True files(1) show ?thesis by (simp add: prune_filesystem_def)
  next
    case False
    have "set files \<subseteq> dom m" using files(3) by auto
    from prune_all [OF assms(3) files(2) this] obtain fs' ft' where
      1: "foldE (prune_file True) files (tk_fs tk, tk_filetable tk) = Inr (fs', ft')" "in_step fs' ft' (m |` (- set files))" by blast
    let ?net = "fold (\<lambda>i network. if i \<noteq> -1 then snd (send_master network i (Some fs')) else network)
               (peerIDs (tk_peerTable tk)) (tk_network tk)"
    let ?tk = "tk\<lparr>tk_fs := fs', tk_filetable := ft', tk_network := ?net\<rparr>"
    have "prune_filesystem True tk = Inr ?tk" using False files(1) 1(1) by (simp add: prune_filesystem_def Let_def)
    moreover have "tracker_ok ?tk"
      unfolding tracker_ok_def using assms(1) masters_ok [OF assms(2)] 1(2) kept by auto
    ultimately show ?thesis by auto
  qed
qed

section \<open>The handlers keep the invariant\<close>

lemma joins_ok:
  assumes "tracker_ok tk" "0 < p" "p \<notin> members (tk_peerTable tk)"
  shows "\<exists>tk'. new_client_in p tk = Inr tk' \<and> tracker_ok tk' \<and> members (tk_peerTable tk') = insert p (members (tk_peerTable tk))"
proof -
  obtain t where t: "addPeerToTable p (tk_peerTable tk) = (1, t)" "ids_ok t" "members t = insert p (members (tk_peerTable tk))"
    using peer_in_table_ok [OF _ assms(2,3)] assms(1) by (auto simp: tracker_ok_def)
  have "good_net (tk_network tk)" using assms(1) by (simp add: tracker_ok_def)
  from broadcasts_ok(1) [OF this] obtain network where
    n: "newPeerBroadcast p t (tk_network tk) = Inr network" "good_net network" by blast
  have "tracker_ok (tk\<lparr>tk_peerTable := t, tk_network := network\<rparr>)"
    using assms(1) t(2,3) n(2) by (fastforce simp: tracker_ok_def)
  with t n(1) show ?thesis by (simp add: new_client_in_def)
qed

lemma wants_ok:
  assumes "tracker_ok tk"
  shows "\<exists>tk'. master_request_in p tk = Inr tk' \<and> tracker_ok tk' \<and> tk_peerTable tk' = tk_peerTable tk"
proof -
  obtain m where m: "holds (tk_filetable tk) m" using assms by (auto simp: tracker_ok_def in_step_def)
  let ?net = "snd (send_master (tk_network tk) p (Some (tk_fs tk)))"
  have g: "good_net ?net" using assms by (simp add: tracker_ok_def good_net_def send_master_def split: prod.splits)
  then obtain c where c: "get_peer_by_id (t_peer_table ?net) p = Inr c" by (auto simp: good_net_def)
  obtain r network where n: "send_master_filetable ?net p (Some (tk_filetable tk)) = Inr (r, network)" "t_peer_table network = t_peer_table ?net"
  proof (cases c)
    case None
    with that c show thesis by (simp add: send_master_filetable_def)
  next
    case (Some q)
    have "table_data (tk_filetable tk) \<noteq> []" by (simp add: table_data_def)
    with Some that c show thesis by (simp add: send_master_filetable_def serialize_table [OF m])
  qed
  have "tracker_ok (tk\<lparr>tk_network := network\<rparr>)" using assms g n(2) by (simp add: tracker_ok_def good_net_def)
  moreover have "master_request_in p tk = Inr (tk\<lparr>tk_network := network\<rparr>)"
    using n(1) by (cases "send_master (tk_network tk) p (Some (tk_fs tk))") (simp add: master_request_in_def)
  ultimately show ?thesis by simp
qed

lemma leaves_ok:
  assumes "tracker_ok tk" "p \<in> members (tk_peerTable tk)"
  shows "\<exists>tk'. lost_client_in True p tk = Inr tk' \<and> tracker_ok tk' \<and> members (tk_peerTable tk') = members (tk_peerTable tk) - {p}"
proof -
  obtain m where m: "in_step (tk_fs tk) (tk_filetable tk) m"
      "\<forall>e \<in> ran m. \<forall>owners \<in> set (fte_chunks e). owners \<noteq> [] \<and> set owners \<subseteq> members (tk_peerTable tk)"
    and i: "ids_ok (tk_peerTable tk)" "good_net (tk_network tk)"
    using assms(1) by (auto simp: tracker_ok_def)
  obtain t where t: "removePeerFromTable p (tk_peerTable tk) = Inr (1, t)" "ids_ok t" "members t = members (tk_peerTable tk) - {p}"
    using remove_peer_ok [OF i(1) assms(2)] by blast
  obtain network where n: "lostPeerBroadcast p t (tk_network tk) = Inr network" "good_net network"
    using broadcasts_ok(2) [OF i(2)] by blast
  let ?g = "\<lambda>e. e\<lparr>fte_chunks := map (filter (\<lambda>q. q \<noteq> p)) (fte_chunks e)\<rparr>"
  let ?m = "\<lambda>k. map_option ?g (m k)"
  let ?tk = "tk\<lparr>tk_peerTable := t, tk_filetable := filetable_remove_peer (tk_filetable tk) p, tk_network := network\<rparr>"
  have "dom ?m = dom m" by (auto simp: dom_def)
  then have step: "in_step (tk_fs ?tk) (tk_filetable ?tk) ?m"
    using m(1) remove_peer_holds [of "tk_filetable tk" m p] by (simp add: in_step_def)
  have own: "\<forall>e \<in> ran ?m. \<forall>owners \<in> set (fte_chunks e). set owners \<subseteq> members (tk_peerTable ?tk)"
  proof (intro ballI)
    fix e owners
    assume e: "e \<in> ran ?m" "owners \<in> set (fte_chunks e)"
    then obtain k d where d: "m k = Some d" "e = ?g d" by (auto simp: ran_def)
    then obtain ps where "ps \<in> set (fte_chunks d)" "owners = filter (\<lambda>q. q \<noteq> p) ps" using e(2) by auto
    then show "set owners \<subseteq> members (tk_peerTable ?tk)" using m(2) d(1) t(3) by (fastforce simp: ran_def)
  qed
  have "ids_ok (tk_peerTable ?tk)" "good_net (tk_network ?tk)" using t(2) n(2) by simp_all
  from pruned [OF this step own] obtain tk' where "prune_filesystem True ?tk = Inr tk'" "tracker_ok tk'" "tk_peerTable tk' = t" by auto
  then show ?thesis using t n(1) by (simp add: lost_client_in_def)
qed

text \<open>A chunk of a file of the master, got by a client.\<close>

definition known_chunk :: "filetable \<Rightarrow> cstring \<Rightarrow> int \<Rightarrow> bool" where
  "known_chunk ft path chunk \<longleftrightarrow> (\<exists>e. find_entry ft path = Inr (Some e) \<and> 0 \<le> chunk \<and> chunk < int (length (fte_chunks e)))"

lemma has_ok:
  assumes "tracker_ok tk" "known_chunk (tk_filetable tk) path chunk" "1 \<le> p"
    and "read_string buf = Inr (path, rest)"
  shows "\<exists>buf' tk'. client_got_in (buf, chunk, p) (old, tk) = Inr (buf', tk') \<and> tracker_ok tk' \<and> tk_peerTable tk' = tk_peerTable tk"
proof -
  obtain m where m: "in_step (tk_fs tk) (tk_filetable tk) m"
      "\<forall>e \<in> ran m. \<forall>owners \<in> set (fte_chunks e). owners \<noteq> [] \<and> set owners \<subseteq> members (tk_peerTable tk)"
    and i: "ids_ok (tk_peerTable tk)" "good_net (tk_network tk)"
    using assms(1) by (auto simp: tracker_ok_def)
  have h: "holds (tk_filetable tk) m" using m(1) by (simp add: in_step_def)
  note contains = containsPeer_ok [OF i(1) assms(3)]
  show ?thesis
  proof (cases "p \<in> set (take (length (used_ids (peerIDs (tk_peerTable tk)))) (peerIDs (tk_peerTable tk)))")
    case False
    with assms(1) contains show ?thesis by (simp add: client_got_in_def)
  next
    case True
    then have "p \<in> set (peerIDs (tk_peerTable tk))" by (rule in_set_takeD)
    then have p: "p \<in> members (tk_peerTable tk)" using assms(3) by (simp add: members_def used_ids_def)
    obtain network where n: "clientGotBroadcast path chunk p (tk_peerTable tk) (tk_network tk) = Inr network" "good_net network"
      using broadcasts_ok(4) [OF i(2)] by blast
    obtain e where e: "m path = Some e" "0 \<le> chunk" "chunk < int (length (fte_chunks e))"
      using assms(2) holds_find [OF h] by (auto simp: known_chunk_def)
    let ?ps = "fte_chunks e ! nat chunk"
    have ps: "?ps \<in> set (fte_chunks e)" using e(2,3) by simp
    have get: "filetable_get_peers_who_have_file_chunk (tk_filetable tk) path chunk = Inr (Some ?ps)"
      using e by (simp add: filetable_get_peers_who_have_file_chunk_def holds_find [OF h] queue_at_def)
    obtain ft m' where ft: "filetable_set_that_peer_has_file_chunk (tk_filetable tk) path p chunk = Inr ft" "holds ft m'" "dom m' = dom m"
      "\<forall>e \<in> ran m'. \<forall>owners \<in> set (fte_chunks e). owners \<noteq> [] \<and> set owners \<subseteq> members (tk_peerTable tk)"
    proof (cases "p \<in> set ?ps")
      case True
      then show thesis using that [OF _ h refl m(2)] get by (simp add: filetable_set_that_peer_has_file_chunk_def)
    next
      case False
      let ?g = "\<lambda>e. e\<lparr>fte_chunks := (fte_chunks e)[nat chunk := ?ps @ [p]]\<rparr>"
      obtain ft where ft: "change_entry (tk_filetable tk) path ?g = Inr ft" "holds ft (m(path := map_option ?g (m path)))"
        using holds_change [OF h, of ?g path] by auto
      have own: "\<forall>d \<in> ran (m(path \<mapsto> ?g e)). \<forall>owners \<in> set (fte_chunks d). owners \<noteq> [] \<and> set owners \<subseteq> members (tk_peerTable tk)"
      proof (intro ballI)
        fix d owners
        assume d: "d \<in> ran (m(path \<mapsto> ?g e))" "owners \<in> set (fte_chunks d)"
        have old: "owners \<noteq> [] \<and> set owners \<subseteq> members (tk_peerTable tk)" if "k \<in> ran m" "owners \<in> set (fte_chunks k)" for k
          using m(2) that by blast
        have er: "e \<in> ran m" using e(1) by (auto simp: ran_def)
        show "owners \<noteq> [] \<and> set owners \<subseteq> members (tk_peerTable tk)"
        proof (cases "d = ?g e")
          case True
          with d(2) have "owners = ?ps @ [p] \<or> owners \<in> set (fte_chunks e)" using set_update_subset_insert by fastforce
          moreover have "?ps \<noteq> []" "set ?ps \<subseteq> members (tk_peerTable tk)" using m(2) er ps by blast+
          ultimately show ?thesis using old [OF er] p by auto
        next
          case False
          with d(1) have "d \<in> ran m" by (auto simp: ran_def split: if_splits)
          with old d(2) show ?thesis by blast
        qed
      qed
      show thesis
        by (rule that [of ft "m(path \<mapsto> ?g e)"])
          (use False get ft own e(1) in \<open>auto simp: filetable_set_that_peer_has_file_chunk_def\<close>)
    qed
    let ?tk = "tk\<lparr>tk_filetable := ft, tk_network := network\<rparr>"
    have "client_got_in (buf, chunk, p) (old, tk) = Inr (cleared, ?tk)"
      using True contains n(1) ft(1) assms(4) by (simp add: client_got_in_def)
    moreover have "in_step (tk_fs ?tk) (tk_filetable ?tk) m'" using m(1) ft(2,3) by (simp add: in_step_def)
    then have "tracker_ok ?tk" unfolding tracker_ok_def using i(1) n(2) ft(4) by auto
    ultimately show ?thesis by simp
  qed
qed

lemma listed_entries: "entries (fs_root fs) = entries (fs_root fs') \<Longrightarrow> listed fs = listed fs'"
  by (rule set_eqI) (simp only: listed_iff)

lemma diff_rootless:
  "filesystem_diff old new = (additions, deletions) \<Longrightarrow>
    filesystem_plus_equals (filesystem_minus_equals fs (filesystem_set_root_path deletions None)) (filesystem_set_root_path additions None)
      = filesystem_plus_equals (filesystem_minus_equals fs deletions) additions"
  by (simp add: filesystem_plus_equals_def filesystem_minus_equals_def filesystem_set_root_path_def)

lemma table_remove:
  "holds ft m \<Longrightarrow> \<exists>ft'. filetable_remove_filesystem True ft fs = Inr ft' \<and> holds ft' (\<lambda>path. if path \<in> listed fs then None else m path)"
  unfolding listed_def by (rule conjunct2 [OF filetable_both])

lemma table_add:
  "holds ft m \<Longrightarrow> \<exists>ft' s' m'. filetable_add_filesystem True rnd (ft, s) fs peer needs_data = Inr (ft', s') \<and> holds ft' m'
      \<and> (\<forall>path. if path \<in> listed fs
           then \<exists>len e. (path, len) \<in> tracked fs \<and> m' path = Some e \<and> fresh peer needs_data path len e
           else m' path = m path)"
  unfolding listed_def by (rule conjunct1 [OF filetable_both])

text \<open>
  An update is the difference between the tree its author knew, which has the entries of the master in some
  order, and the author's new one. The other clients are told of it.
\<close>

lemma changes_ok:
  assumes "tracker_ok tk" "a \<in> members (tk_peerTable tk)" "wf_folder (fs_root new)" "named new"
    and "wf_folder (fs_root old)" "entries (fs_root (tk_fs tk)) = entries (fs_root old)"
    and "filesystem_diff old new = (additions, deletions)"
  shows "\<exists>tk'. client_update_in True rnd (a, additions, deletions) tk = Inr tk' \<and> tracker_ok tk'
    \<and> tk_peerTable tk' = tk_peerTable tk \<and> entries (fs_root (tk_fs tk')) = entries (fs_root new)
    \<and> filesystemUpdateBroadcast (filesystem_set_root_path additions None) (filesystem_set_root_path deletions None) a
        (tk_peerTable tk) (tk_network tk) = Inr (tk_network tk')"
proof -
  obtain m where m: "in_step (tk_fs tk) (tk_filetable tk) m"
      "\<forall>e \<in> ran m. \<forall>owners \<in> set (fte_chunks e). owners \<noteq> [] \<and> set owners \<subseteq> members (tk_peerTable tk)"
    and i: "ids_ok (tk_peerTable tk)" "good_net (tk_network tk)"
    using assms(1) by (auto simp: tracker_ok_def)
  have ok: "wf_folder (fs_root (tk_fs tk))" "named (tk_fs tk)" "holds (tk_filetable tk) m" "dom m = listed (tk_fs tk)"
    using m(1) by (simp_all add: in_step_def)
  let ?adds = "filesystem_set_root_path additions None" and ?dels = "filesystem_set_root_path deletions None"
  have listed_sets: "listed ?adds = listed additions" "listed ?dels = listed deletions"
    by (rule listed_entries, simp add: filesystem_set_root_path_def)+
  obtain fs where fs: "filesystem_plus_equals (filesystem_minus_equals (tk_fs tk) ?dels) ?adds = Inr fs"
    "wf_folder (fs_root fs)" "entries (fs_root fs) = entries (fs_root new)"
    using diff_applied_alike [OF _ assms(3,7), of "tk_fs tk"] ok(1) assms(5,6) unfolding diff_rootless [OF assms(7)] alike_def by blast
  obtain ft1 where 1: "filetable_remove_filesystem True (tk_filetable tk) ?dels = Inr ft1"
    "holds ft1 (\<lambda>path. if path \<in> listed deletions then None else m path)"
    using table_remove [OF ok(3), of ?dels] unfolding listed_sets by blast
  obtain ft2 s m2 where 2: "filetable_add_filesystem True rnd (ft1, tk_rand tk) ?adds a False = Inr (ft2, s)" "holds ft2 m2"
    "\<forall>path. if path \<in> listed additions then \<exists>len e. (path, len) \<in> tracked ?adds \<and> m2 path = Some e \<and> fresh a False path len e
       else m2 path = (if path \<in> listed deletions then None else m path)"
    using table_add [OF 1(2), of rnd "tk_rand tk" ?adds a False] unfolding listed_sets by blast
  obtain network where n: "filesystemUpdateBroadcast ?adds ?dels a (tk_peerTable tk) (tk_network tk) = Inr network" "good_net network"
    using broadcasts_ok(3) [OF i(2)] by blast
  let ?tk = "tk\<lparr>tk_fs := fs, tk_filetable := ft2, tk_network := network, tk_rand := s\<rparr>"
  have run: "client_update_in True rnd (a, additions, deletions) tk = Inr ?tk"
    using fs(1) 1(1) 2(1) n(1) by (simp add: client_update_in_def updateNetwork_def Let_def)
  have "named fs" using assms(4) fs(3) by (simp add: named_def)
  moreover have "dom m2 = listed fs"
  proof -
    have old: "named old" using ok(2) assms(6) by (simp add: named_def)
    have "path \<in> dom m2 \<longleftrightarrow> path \<in> (listed (tk_fs tk) - listed deletions) \<union> listed additions" for path
      using spec [OF 2(3), of path] ok(4) by (cases "path \<in> listed additions") (auto simp: dom_def split: if_splits)
    then show ?thesis
      using listed_diff [OF assms(5,3) old assms(4,7)] listed_entries [OF fs(3)] listed_entries [OF assms(6)] by blast
  qed
  ultimately have step: "in_step fs ft2 m2" using fs(2) 2(2) by (simp add: in_step_def)
  have own: "owners \<noteq> [] \<and> set owners \<subseteq> members (tk_peerTable tk)" if e: "m2 path = Some e" "owners \<in> set (fte_chunks e)" for path e owners
  proof (cases "path \<in> listed additions")
    case True
    then obtain len where "fresh a False path len e" using spec [OF 2(3), of path] e(1) by auto
    with e(2) have "owners = [a]" by (auto simp: fresh_def Let_def)
    with assms(2) show ?thesis by simp
  next
    case False
    then have "m path = Some e" using spec [OF 2(3), of path] e(1) by (auto split: if_splits)
    with m(2) e(2) show ?thesis by (auto simp: ran_def)
  qed
  have "\<forall>e \<in> ran m2. \<forall>owners \<in> set (fte_chunks e). owners \<noteq> [] \<and> set owners \<subseteq> members (tk_peerTable ?tk)"
  proof (intro ballI)
    fix e owners
    assume "e \<in> ran m2" "owners \<in> set (fte_chunks e)"
    with own show "owners \<noteq> [] \<and> set owners \<subseteq> members (tk_peerTable ?tk)" by (auto simp: ran_def)
  qed
  with i(1) n(2) step have "tracker_ok ?tk" unfolding tracker_ok_def by auto
  with run fs(3) n(1) show ?thesis by simp
qed

section \<open>Everything that reaches the tracker\<close>

text \<open>What clients can make it do: join, leave, ask for the master, report a chunk, change files.\<close>

datatype event = Joins int | Leaves int | WantsMaster int | Has cstring int int | Changed int filesystem filesystem

fun legal :: "'s tracker \<Rightarrow> event \<Rightarrow> bool" where
  "legal tk (Joins p) \<longleftrightarrow> 0 < p \<and> p \<notin> members (tk_peerTable tk)"
| "legal tk (Leaves p) \<longleftrightarrow> p \<in> members (tk_peerTable tk)"
| "legal tk (WantsMaster p) \<longleftrightarrow> True"
| "legal tk (Has path chunk p) \<longleftrightarrow> 1 \<le> p \<and> is_cstring path \<and> known_chunk (tk_filetable tk) path chunk"
| "legal tk (Changed a old new) \<longleftrightarrow> a \<in> members (tk_peerTable tk) \<and> wf_folder (fs_root new) \<and> named new
     \<and> wf_folder (fs_root old) \<and> entries (fs_root (tk_fs tk)) = entries (fs_root old)"

fun tracker_event :: "('s \<Rightarrow> nat \<times> 's) \<Rightarrow> event \<Rightarrow> 's tracker \<Rightarrow> 's tracker outcome" where
  "tracker_event rnd (Joins p) tk = new_client_in p tk"
| "tracker_event rnd (Leaves p) tk = lost_client_in True p tk"
| "tracker_event rnd (WantsMaster p) tk = master_request_in p tk"
| "tracker_event rnd (Has path chunk p) tk =
     bindE (client_got_in (string_bytes path @ drop (length path + 1) cleared, chunk, p) (cleared, tk)) (\<lambda>(_, tk). Inr tk)"
| "tracker_event rnd (Changed a old new) tk =
     (let (additions, deletions) = filesystem_diff old new in client_update_in True rnd (a, additions, deletions) tk)"

text \<open>The states between two events; the network thread puts in its own state as it likes.\<close>

inductive reaches :: "('s \<Rightarrow> nat \<times> 's) \<Rightarrow> 's tracker \<Rightarrow> bool" for rnd where
  start: "tracker_init True rnd net s = Inr tk \<Longrightarrow> reaches rnd tk"
| network: "reaches rnd tk \<Longrightarrow> good_net network \<Longrightarrow> reaches rnd (tk\<lparr>tk_network := network\<rparr>)"
| event: "reaches rnd tk \<Longrightarrow> legal tk ev \<Longrightarrow> tracker_event rnd ev tk = Inr tk' \<Longrightarrow> reaches rnd tk'"

lemma init_ok: "\<exists>tk. tracker_init True rnd net s = Inr tk \<and> tracker_ok tk \<and> members (tk_peerTable tk) = {}"
proof -
  let ?fs = "\<lparr>fs_root_path = None, fs_root = Folder [] [] []\<rparr>"
  have none: "listed ?fs = {}" by (auto simp: listed_iff)
  obtain ft s' m where 1: "filetable_add_filesystem True rnd (filetable_new, s) ?fs 0 False = Inr (ft, s')" "holds ft m" "m = (\<lambda>_. None)"
  proof -
    obtain ft s' m where "filetable_add_filesystem True rnd (filetable_new, s) ?fs 0 False = Inr (ft, s')" "holds ft m" "\<forall>path. m path = None"
      using table_add [OF holds_new, of rnd s ?fs 0 False] none by auto
    moreover from this(3) have "m = (\<lambda>_. None)" by auto
    ultimately show thesis using that by blast
  qed
  let ?tk = "\<lparr>tk_fs = ?fs, tk_filetable = ft, tk_peerTable = createPeerTable, tk_network = StartTrackerNetwork net, tk_rand = s'\<rparr>"
  have run: "tracker_init True rnd net s = Inr ?tk"
    using 1(1) by (simp add: tracker_init_def filesystem_new_def)
  have free: "first_peer P (replicate n Free) = Inr None" for P n by (induction n) simp_all
  have "good_net (StartTrackerNetwork net)"
    by (simp add: free good_net_def StartTrackerNetwork_def init_peer_table_def get_peer_by_id_def get_peer_def INIT_CLIENT_NUM_def)
  moreover have "in_step ?fs ft m" using 1(2,3) none by (simp add: in_step_def named_def)
  ultimately have "tracker_ok ?tk" unfolding tracker_ok_def using ids_ok_new(1) 1(3) by auto
  with run ids_ok_new(2) show ?thesis by simp
qed

lemma event_ok:
  assumes "tracker_ok tk" "legal tk ev"
  shows "\<exists>tk'. tracker_event rnd ev tk = Inr tk' \<and> tracker_ok tk'
    \<and> (\<forall>a old new. ev = Changed a old new \<longrightarrow> entries (fs_root (tk_fs tk')) = entries (fs_root new))"
proof (cases ev)
  case (Joins p)
  with joins_ok [OF assms(1), of p] assms(2) show ?thesis by auto
next
  case (Leaves p)
  with leaves_ok [OF assms(1), of p] assms(2) show ?thesis by auto
next
  case (WantsMaster p)
  with wants_ok [OF assms(1), of p] show ?thesis by auto
next
  case (Has path chunk p)
  with assms(2) have a: "known_chunk (tk_filetable tk) path chunk" "1 \<le> p" "is_cstring path" by simp_all
  have "read_string (string_bytes path @ drop (length path + 1) cleared) = Inr (path, drop (length path + 1) cleared)"
    by (rule string_codec.dec_enc [OF a(3)])
  from has_ok [OF assms(1) a(1,2) this, of cleared] Has show ?thesis by auto
next
  case (Changed a old new)
  obtain additions deletions where d: "filesystem_diff old new = (additions, deletions)" by force
  with changes_ok [OF assms(1) _ _ _ _ _ d, of a rnd] assms(2) Changed show ?thesis by auto
qed

lemma reaches_ok: "reaches rnd tk \<Longrightarrow> tracker_ok tk"
proof (induction rule: reaches.induct)
  case (start net s tk)
  with init_ok [of rnd net s] show ?case by auto
next
  case (network tk network)
  then show ?case by (simp add: tracker_ok_def)
next
  case (event tk ev tk')
  with event_ok [OF event.IH event.hyps(2), of rnd] show ?case by auto
qed

lemma members_card: "ids_ok t \<Longrightarrow> numberOfEntries t = int (card (members t))"
  by (simp add: ids_ok_def members_def distinct_card)



section \<open>Reports that are lost, and one that stops the tracker\<close>

definition hole :: "int \<Rightarrow> id_table" where
  "hole q = \<lparr>numberOfEntries = 1, peerIDs = -1 # q # replicate 14 (-1)\<rparr>"

lemma hole_after:
  assumes "0 < p" "0 < q" "p \<noteq> q"
  shows "removePeerFromTable p (snd (addPeerToTable q (snd (addPeerToTable p createPeerTable)))) = Inr (1, hole q)"
proof -
  have r: "replicate 16 (-1 :: int) = -1 # -1 # replicate 14 (-1)" by (simp add: numeral_eq_Suc)
  show ?thesis using assms unfolding createPeerTable_def r hole_def by (simp add: addPeerToTable_def removePeerFromTable_def)
qed

lemma hole_hides: "0 < q \<Longrightarrow> members (hole q) = {q} \<and> containsPeer (hole q) q = Inr (-1)"
  by (simp add: hole_def members_def containsPeer_def)

text \<open>C38. Reports of chunks do not always get through. When of two clients the first to join leaves, the
  second is still in the table but \<open>containsPeer\<close>, which looks at as many cells as there are entries, does
  not find it, and all it reports is dropped. And a report of a chunk of a file that is no longer in the
  file table, because another client removed it or it was pruned meanwhile, fails the assertion of
  \<open>filetable_set_that_peer_has_file_chunk\<close> and ends the tracker.\<close>

theorem chunk_reports_lost:
  assumes "0 < p" "0 < q" "p \<noteq> q" "good_net (tk_network tk)" "read_string buf = Inr (path, rest)"
  shows "\<exists>t. removePeerFromTable p (snd (addPeerToTable q (snd (addPeerToTable p createPeerTable)))) = Inr (1, t)
      \<and> q \<in> members t
      \<and> client_got_in (buf, chunk, q) (old, tk\<lparr>tk_peerTable := t\<rparr>) = Inr (buf, tk\<lparr>tk_peerTable := t\<rparr>)
      \<and> (containsPeer (tk_peerTable tk) q = Inr 1 \<and> find_entry (tk_filetable tk) path = Inr None \<longrightarrow>
           client_got_in (buf, chunk, q) (old, tk) = Inl AssertFail)"
proof (intro exI [of _ "hole q"] conjI impI)
  show "removePeerFromTable p (snd (addPeerToTable q (snd (addPeerToTable p createPeerTable)))) = Inr (1, hole q)"
    by (rule hole_after [OF assms(1-3)])
  show "q \<in> members (hole q)" using hole_hides [OF assms(2)] by simp
  show "client_got_in (buf, chunk, q) (old, tk\<lparr>tk_peerTable := hole q\<rparr>) = Inr (buf, tk\<lparr>tk_peerTable := hole q\<rparr>)"
    using hole_hides [OF assms(2)] by (simp add: client_got_in_def)
  assume a: "containsPeer (tk_peerTable tk) q = Inr 1 \<and> find_entry (tk_filetable tk) path = Inr None"
  obtain network where "clientGotBroadcast path chunk q (tk_peerTable tk) (tk_network tk) = Inr network"
    using broadcasts_ok(4) [OF assms(4)] by blast
  with a assms(5) show "client_got_in (buf, chunk, q) (old, tk) = Inl AssertFail"
    by (simp add: client_got_in_def filetable_set_that_peer_has_file_chunk_def filetable_get_peers_who_have_file_chunk_def)
qed

theorem chunk_reports_lost_witness:
  "\<exists>tk :: nat tracker. tracker_init True (\<lambda>s. (s, s + 1)) \<lparr>n_in = (\<lambda>_. []), n_sent = [], n_closed = []\<rparr> 0 = Inr tk
    \<and> client_got_in ([97, 0], 0, 2) ([], tk\<lparr>tk_peerTable := snd (addPeerToTable 2 createPeerTable)\<rparr>) = Inl AssertFail"
proof -
  obtain tk :: "nat tracker" where tk: "tracker_init True (\<lambda>s. (s, s + 1)) \<lparr>n_in = (\<lambda>_. []), n_sent = [], n_closed = []\<rparr> 0 = Inr tk" "tracker_ok tk"
    "members (tk_peerTable tk) = {}"
    using init_ok [of "\<lambda>s :: nat. (s, s + 1)" "\<lparr>n_in = (\<lambda>_. []), n_sent = [], n_closed = []\<rparr>" 0] by blast
  let ?t = "snd (addPeerToTable 2 createPeerTable)"
  let ?tk = "tk\<lparr>tk_peerTable := ?t\<rparr>"
  obtain m where m: "in_step (tk_fs tk) (tk_filetable tk) m"
      "\<forall>e \<in> ran m. \<forall>owners \<in> set (fte_chunks e). owners \<noteq> [] \<and> set owners \<subseteq> {}"
    using tk(2,3) by (auto simp: tracker_ok_def)
  have "listed (tk_fs tk) = {}"
    using tk(1) by (auto simp: tracker_init_def filesystem_new_def outcome_simps listed_iff)
  then have "m [97] = None" using m(1) by (auto simp: in_step_def dom_def)
  then have none: "find_entry (tk_filetable ?tk) [97] = Inr None"
    using m(1) holds_find [of "tk_filetable tk" m] by (simp add: in_step_def)
  have two: "containsPeer ?t 2 = Inr 1"
    by (simp add: createPeerTable_def addPeerToTable_def containsPeer_def numeral_eq_Suc)
  have "good_net (tk_network ?tk)" using tk(2) by (simp add: tracker_ok_def)
  from chunk_reports_lost [OF _ _ _ this, of 1 2 "[97, 0]" "[97]" "[]" 0 "[]"]
  have "client_got_in ([97, 0], 0, 2) ([], ?tk) = Inl AssertFail" using none two by auto
  with tk(1) show ?thesis by blast
qed

end
