(* ===== verification/Client.thy ===== *)
theory Client
  imports ClientNet
begin

text \<open>
  \<open>client.c\<close>: a client keeps the file system it last knew, the file table and the files under way, asks
  peers for the chunks it lacks, answers theirs, and reports local changes. The machine it runs on, its
  disk above all, is a parameter: what calls of the operating system show and do.
\<close>

section \<open>The machine and the state\<close>

text \<open>\<open>'d\<close> is the state of the disk, \<open>'s\<close> that of \<open>rand\<close>; \<open>h_stale\<close> as in the file table. \<open>h_stat\<close> tells
  whether a path is a directory, if it is anything.\<close>

record ('d, 's) host =
  h_wordexp :: "cstring \<Rightarrow> cstring"
  h_access :: "'d \<Rightarrow> cstring \<Rightarrow> bool"
  h_stat :: "'d \<Rightarrow> cstring \<Rightarrow> bool option"
  h_realpath :: "'d \<Rightarrow> cstring \<Rightarrow> cstring option"
  h_listing :: "'d \<Rightarrow> cstring \<Rightarrow> disk"
  h_read :: "'d \<Rightarrow> cstring \<Rightarrow> bool \<times> byte list"
  h_mkdir :: "cstring \<Rightarrow> 'd \<Rightarrow> int \<times> 'd"
  h_remove :: "cstring \<Rightarrow> 'd \<Rightarrow> int \<times> 'd"
  h_write :: "cstring \<times> byte list \<times> int \<Rightarrow> 'd \<Rightarrow> 'd"
  h_rand :: "'s \<Rightarrow> nat \<times> 's"
  h_stale :: bool

text \<open>\<open>cl_job\<close> is the static \<open>JOB_ID\<close> of \<open>filetableentry_get_job\<close>; times are seconds and microseconds.\<close>

record ('d, 's) client =
  cl_cnt :: cnt
  cl_cur_fs :: filesystem
  cl_prev_fs :: "filesystem ptr"
  cl_prev_time :: "int \<times> int"
  cl_ft :: filetable
  cl_dartsync_dir :: cstring
  cl_job :: int
  cl_disk :: 'd
  cl_rand :: 's

definition myID :: int where "myID = 0"

definition MAX_PENDING_REQUESTS :: int where "MAX_PENDING_REQUESTS = 15"

section \<open>Paths\<close>

definition tilde_expand :: "('d, 's) host \<Rightarrow> cstring ptr \<Rightarrow> cstring ptr" where
  "tilde_expand h original_path = map_option (h_wordexp h) original_path"

text \<open>A slash at the end is not taken off: the \<open>'\0'\<close> is written behind it.\<close>

definition get_absolute_root :: "('d, 's) host \<Rightarrow> cstring ptr \<Rightarrow> 'd \<Rightarrow> cstring ptr \<times> 'd" where
  "get_absolute_root h root_arg d = (case root_arg of
     None \<Rightarrow> (None, d)
   | Some arg \<Rightarrow>
       if arg = [] \<or> arg = [47] then (None, d)
       else
         let new_dir = h_wordexp h arg;
             (made, d) = (if h_access h d new_dir then (0, d) else h_mkdir h new_dir d)
         in if made = -1 then (None, d)
            else (case h_stat h d new_dir of
                None \<Rightarrow> (None, d)
              | Some is_dir \<Rightarrow> if is_dir then (h_realpath h d new_dir, d) else (None, d)))"

text \<open>\<open>root[strlen(root)-1]\<close> of an empty string is in front of it.\<close>

definition append_DSRoot :: "cstring ptr \<Rightarrow> cstring ptr \<Rightarrow> cstring ptr outcome" where
  "append_DSRoot relative_path root = (case (relative_path, root) of
     (Some path, Some dir) \<Rightarrow>
       if dir = [] then Inl OutOfBounds
       else if last dir = 47 then Inr None
       else Inr (Some (dir @ path))
   | _ \<Rightarrow> Inr None)"

definition DART_SYNC :: cstring where
  "DART_SYNC = map (of_nat \<circ> of_char) ''dart_sync''"

text \<open>
  From the end: the last position that ends an occurrence of the directory's name and has a byte before
  it. The buffer has \<open>strlen - i + 10\<close> bytes, and the zero is written behind them.
\<close>

fun compress_from :: "nat \<Rightarrow> cstring \<Rightarrow> cstring ptr outcome" where
  "compress_from 0 path = Inr None"
| "compress_from (Suc i) path =
     (if i < 9 then Inr None
      else if take 9 (drop (i - 8) path) = DART_SYNC then
        let buffer = drop (i - 9) path @ replicate (length path - i + 10 - (length path - (i - 9))) 0
        in bindE (set_cell buffer (int (length path) - int i + 9 + 1) 0) (\<lambda>buffer.
           bindE (read_string buffer) (\<lambda>(s, _). Inr (Some (126 # s))))
      else compress_from i path)"

definition tilde_compress :: "cstring ptr \<Rightarrow> cstring ptr outcome" where
  "tilde_compress original_path = (case original_path of
     None \<Rightarrow> Inr None
   | Some path \<Rightarrow> compress_from (length path) path)"

section \<open>Local files\<close>

definition read_disk :: "('d, 's) host \<Rightarrow> ('d, 's) client \<Rightarrow> filesystem outcome" where
  "read_disk h c = filesystem_new (h_wordexp h) (h_listing h (cl_disk c)) (Some (cl_dartsync_dir c))"

definition reread :: "('d, 's) host \<Rightarrow> ('d, 's) client \<Rightarrow> ('d, 's) client outcome" where
  "reread h c = bindE (read_disk h c) (\<lambda>fs. Inr (c\<lparr>cl_cur_fs := fs\<rparr>))"

definition CheckFileSystem :: "filesystem \<Rightarrow> int outcome" where
  "CheckFileSystem fs = bindE (filesystemiterator_new fs False) (\<lambda>iterator.
     Inr (if fst (filesystemiterator_next iterator) = None then -1 else 1))"

definition RemoveFileDeletions :: "('d, 's) host \<Rightarrow> filesystem \<Rightarrow> ('d, 's) client \<Rightarrow> ('d, 's) client outcome" where
  "RemoveFileDeletions h deletions c =
     bindE (filesystemiterator_new deletions True) (\<lambda>del_iterator.
     bindE (fs_while (Suc (length (fi_file_list del_iterator))) (\<lambda>(path, len, mod_time) c.
         Inr (c\<lparr>cl_disk := snd (h_remove h path (cl_disk c))\<rparr>)) del_iterator c) (reread h))"

text \<open>A folder is made, for a file the place is kept until its chunks are there.\<close>

definition expect_file ::
    "('d, 's) host \<Rightarrow> (chunkyfile \<Rightarrow> ('d, 's) client \<Rightarrow> ('d, 's) client outcome) \<Rightarrow> cstring \<times> int \<times> int \<Rightarrow>
      ('d, 's) client \<Rightarrow> ('d, 's) client outcome" where
  "expect_file h opened r c = (case r of (path, len, mod_time) \<Rightarrow>
     bindE (append_DSRoot (Some path) (Some (cl_dartsync_dir c))) (\<lambda>p.
     bindE (derefE p) (\<lambda>expanded_path.
       if len = -1 then Inr (c\<lparr>cl_disk := snd (h_mkdir h expanded_path (cl_disk c))\<rparr>)
       else let chunky = chunkyfile_new_for_writing_to_path expanded_path len mod_time in
         bindE (filetable_set_chunkyfile (cl_ft c) path (Some chunky)) (\<lambda>ft. opened chunky (c\<lparr>cl_ft := ft\<rparr>)))))"

text \<open>Here a file without chunks is written at once.\<close>

definition GetFileAdditions :: "('d, 's) host \<Rightarrow> filesystem \<Rightarrow> int \<Rightarrow> ('d, 's) client \<Rightarrow> ('d, 's) client outcome" where
  "GetFileAdditions h additions author_id c =
     fs_each additions False (expect_file h (\<lambda>chunky c.
       if chunkyfile_num_chunks chunky < 1
       then bindE (chunkyfile_write chunky) (\<lambda>w. Inr (c\<lparr>cl_disk := h_write h w (cl_disk c)\<rparr>))
       else Inr c)) c"

text \<open>Tell the tracker of every chunk of every file.\<close>

definition report_file :: "cstring \<times> int \<times> int \<Rightarrow> ('d, 's) client \<Rightarrow> ('d, 's) client outcome" where
  "report_file r c = (case r of (path, len, mod_time) \<Rightarrow>
     Inr (if num_chunks_for_size len < 1 \<or> len = -1 then c
       else c\<lparr>cl_cnt := fold (\<lambda>i cnt. snd (send_chunk_got cnt (Some path) (int i))) [0..<nat (num_chunks_for_size len)] (cl_cnt c)\<rparr>))"

definition UpdateLocalFilesystem :: "('d, 's) host \<Rightarrow> filesystem \<Rightarrow> ('d, 's) client \<Rightarrow> ('d, 's) client outcome" where
  "UpdateLocalFilesystem h new_fs c =
     (let (additions, deletions) = filesystem_diff (cl_cur_fs c) new_fs
      in bindE (CheckFileSystem deletions) (\<lambda>any.
         bindE (if any = -1 then Inr c
           else bindE (filetable_remove_filesystem (h_stale h) (cl_ft c) deletions) (\<lambda>ft.
             RemoveFileDeletions h deletions (c\<lparr>cl_ft := ft\<rparr>))) (\<lambda>c.
         bindE (CheckFileSystem (cl_cur_fs c)) (\<lambda>any.
         bindE (if any = -1 then Inr c else fs_each (cl_cur_fs c) False report_file c) (\<lambda>c.
         bindE (CheckFileSystem additions) (\<lambda>any.
         bindE (if any = -1 then Inr c
           else bindE (fs_each additions False (expect_file h (\<lambda>chunky. Inr)) c) (\<lambda>c.
             bindE (filetable_enqueue_work_for_filesystem (h_rand h) (cl_ft c, cl_rand c) additions) (\<lambda>(ft, s).
               Inr (c\<lparr>cl_ft := ft, cl_rand := s\<rparr>)))) (\<lambda>c.
           Inr (c\<lparr>cl_cur_fs := new_fs\<rparr>))))))))"

text \<open>\<open>unsigned long\<close>: a clock that goes back gives a huge difference.\<close>

definition microseconds_between :: "int \<times> int \<Rightarrow> int \<times> int \<Rightarrow> 64 word" where
  "microseconds_between t0 t1 = word_of_int ((fst t1 - fst t0) * 1000000 + (snd t1 - snd t0))"

text \<open>Local changes are reported when two looks at the disk, 5 seconds apart, agree.\<close>

definition CheckLocalFilesystem :: "('d, 's) host \<Rightarrow> int \<times> int \<Rightarrow> ('d, 's) client \<Rightarrow> ('d, 's) client outcome" where
  "CheckLocalFilesystem h now c =
     (if microseconds_between (cl_prev_time c) now < 5000000 then Inr c
      else let c = c\<lparr>cl_prev_time := now\<rparr> in
        bindE (read_disk h c) (\<lambda>new_fs.
        if (case cl_prev_fs c of None \<Rightarrow> True | Some prev_fs \<Rightarrow> \<not> filesystem_equals prev_fs new_fs)
        then Inr (c\<lparr>cl_prev_fs := Some new_fs\<rparr>)
        else let (adds, dels) = filesystem_diff (cl_cur_fs c) new_fs in
          bindE (CheckFileSystem adds) (\<lambda>any_adds.
          bindE (CheckFileSystem dels) (\<lambda>any_dels.
          if any_adds = 1 \<or> any_dels = 1 then
            let cnt = snd (send_updated_files (cl_cnt c) (Some adds) (Some dels)) in
            bindE (filetable_remove_filesystem (h_stale h) (cl_ft c) dels) (\<lambda>ft.
            bindE (filetable_add_filesystem (h_stale h) (h_rand h) (ft, cl_rand c) adds myID False) (\<lambda>(ft, s).
              Inr (c\<lparr>cl_cnt := cnt, cl_ft := ft, cl_rand := s, cl_cur_fs := new_fs\<rparr>)))
          else Inr c))))"

section \<open>Work\<close>

text \<open>The jobs of one entry; \<open>rand\<close> is called for a job only.\<close>

fun entry_jobs :: "nat \<Rightarrow> ('s \<Rightarrow> nat \<times> 's) \<Rightarrow> fileentry \<Rightarrow> cnt \<times> int \<times> 's \<Rightarrow> (fileentry \<times> cnt \<times> int \<times> 's) outcome" where
  "entry_jobs 0 rnd fte s = Inl NoReturn"
| "entry_jobs (Suc fuel) rnd fte (cnt, job_counter, s) =
     bindE (filetableentry_get_job (fst (rnd s)) job_counter fte MAX_PENDING_REQUESTS) (\<lambda>(job, job_counter, fte). case job of
       None \<Rightarrow> Inr (fte, cnt, job_counter, s)
     | Some (chunk, dest_id, job_id) \<Rightarrow>
         bindE (send_chunk_request cnt dest_id (Some (fte_path fte)) chunk job_id) (\<lambda>(r, cnt).
           entry_jobs fuel rnd fte (cnt, job_counter, snd (rnd s))))"

definition check_work_queue :: "('d, 's) host \<Rightarrow> ('d, 's) client \<Rightarrow> ('d, 's) client outcome" where
  "check_work_queue h c = (case hashtableiterator_new (cl_ft c) of
     None \<Rightarrow> Inr c
   | Some fti \<Rightarrow> hashtable_while (Suc (length (hashtable_items (cl_ft c)))) (\<lambda>fte c. case fte of
         None \<Rightarrow> Inl NullDeref
       | Some e \<Rightarrow>
           bindE (entry_jobs (Suc (length (fte_work_queue e))) (h_rand h) e (cl_cnt c, cl_job c, cl_rand c)) (\<lambda>(e', cnt, job, s).
           bindE (change_entry (cl_ft c) (fte_path e) (\<lambda>e. e\<lparr>fte_work_queue := fte_work_queue e',
               fte_outstanding_requests := fte_outstanding_requests e'\<rparr>)) (\<lambda>ft.
             Inr (c\<lparr>cl_ft := ft, cl_cnt := cnt, cl_job := job, cl_rand := s\<rparr>))))
       (cl_ft c) fti c)"

section \<open>The main loop\<close>

text \<open>What is received from the network, and the bodies of the loops.\<close>

definition on_cnt :: "(cnt \<Rightarrow> ('r option \<times> cnt) outcome) \<Rightarrow> ('d, 's) client \<Rightarrow> ('r option \<times> ('d, 's) client) outcome" where
  "on_cnt f c = bindE (f (cl_cnt c)) (\<lambda>(r, cnt). Inr (r, c\<lparr>cl_cnt := cnt\<rparr>))"

definition if_peer :: "int \<times> cnt \<Rightarrow> (int option \<times> cnt) outcome" where
  "if_peer r = Inr (if fst r = -1 then None else Some (fst r), snd r)"

definition peer_deleted_in :: "int \<Rightarrow> ('d, 's) client \<Rightarrow> ('d, 's) client outcome" where
  "peer_deleted_in peer_id c = Inr (c\<lparr>cl_ft := filetable_remove_peer (cl_ft c) peer_id\<rparr>)"

text \<open>A file asked for comes from the table or from the disk.\<close>

definition chunk_request_in ::
    "('d, 's) host \<Rightarrow> int \<times> byte list ptr \<times> int \<times> int \<Rightarrow> ('d, 's) client \<Rightarrow> ('d, 's) client outcome" where
  "chunk_request_in h r c = (case r of (peer_id, file_name, chunk_id, request_id) \<Rightarrow>
     bindE (derefE file_name) (\<lambda>buf.
     bindE (read_string buf) (\<lambda>(filepath, _).
     bindE (append_DSRoot (Some filepath) (Some (cl_dartsync_dir c))) (\<lambda>expanded_path.
     bindE (filetable_get_chunkyfile (cl_ft c) filepath) (\<lambda>known.
     bindE (case known of
         Some file \<Rightarrow> Inr (Some file, c)
       | None \<Rightarrow>
           bindE (derefE expanded_path) (\<lambda>path.
           case chunkyfile_new_for_reading_from_path (h_read h (cl_disk c)) path of
             None \<Rightarrow> Inr (None, c)
           | Some file \<Rightarrow> bindE (filetable_set_chunkyfile (cl_ft c) filepath (Some file)) (\<lambda>ft. Inr (Some file, c\<lparr>cl_ft := ft\<rparr>)))) (\<lambda>(file, c).
     case file of
       None \<Rightarrow> bindE (send_chunk_rejection (cl_cnt c) peer_id (Some filepath) chunk_id request_id) (\<lambda>(r, cnt). Inr (c\<lparr>cl_cnt := cnt\<rparr>))
     | Some file \<Rightarrow>
         bindE (chunkyfile_get_chunk file chunk_id) (\<lambda>chunk_text.
         bindE (send_chunk (cl_cnt c) peer_id (Some filepath) chunk_id (Some chunk_text) (int (length chunk_text)) request_id) (\<lambda>(r, cnt).
           Inr (c\<lparr>cl_cnt := cnt\<rparr>)))))))))"

text \<open>\<open>memcpy\<close> of no byte may be from NULL.\<close>

definition chunk_bytes :: "int \<Rightarrow> byte list ptr \<Rightarrow> byte list outcome" where
  "chunk_bytes len chunk_data = (case chunk_data of
     None \<Rightarrow> if len = 0 then Inr [] else Inl NullDeref
   | Some data \<Rightarrow> if 0 \<le> len \<and> len \<le> int (length data) then Inr (take (nat len) data) else Inl OutOfBounds)"

definition chunk_in ::
    "('d, 's) host \<Rightarrow> int \<times> byte list ptr \<times> int \<times> int \<times> byte list ptr \<times> int \<Rightarrow> ('d, 's) client \<Rightarrow> ('d, 's) client outcome" where
  "chunk_in h r c = (case r of (peer_id, file_name, chunk_id, len, chunk_data, request_id) \<Rightarrow>
     bindE (derefE file_name) (\<lambda>buf.
     bindE (read_string buf) (\<lambda>(filepath, _).
     bindE (append_DSRoot (Some filepath) (Some (cl_dartsync_dir c))) (\<lambda>expanded_path.
     bindE (filetable_find_and_remove_job_id (cl_ft c) filepath request_id) (\<lambda>(job, ft).
     let c = c\<lparr>cl_ft := ft\<rparr> in
     if job \<noteq> request_id then Inr c
     else bindE (filetable_get_chunkyfile (cl_ft c) filepath) (\<lambda>file. case file of
       None \<Rightarrow> Inr c
     | Some file \<Rightarrow>
         if len = -1 then bindE (filetable_enqueue_work_request (cl_ft c) filepath chunk_id) (\<lambda>ft. Inr (c\<lparr>cl_ft := ft\<rparr>))
         else bindE (chunk_bytes len chunk_data) (\<lambda>data.
           bindE (chunkyfile_set_chunk file chunk_id data) (\<lambda>(complained, file).
           let c = c\<lparr>cl_cnt := snd (send_chunk_got (cl_cnt c) (Some filepath) chunk_id)\<rparr> in
           bindE (if chunkyfile_all_chunks_written file
             then bindE (chunkyfile_write file) (\<lambda>w.
               bindE (filetable_set_chunkyfile (cl_ft c) filepath None) (\<lambda>ft.
                 Inr (c\<lparr>cl_ft := ft, cl_disk := h_write h w (cl_disk c)\<rparr>)))
             else bindE (filetable_set_chunkyfile (cl_ft c) filepath (Some file)) (\<lambda>ft. Inr (c\<lparr>cl_ft := ft\<rparr>))) (reread h)))))))))"

definition chunk_got_in :: "int \<times> cstring \<times> int \<Rightarrow> ('d, 's) client \<Rightarrow> ('d, 's) client outcome" where
  "chunk_got_in r c = (case r of (peer_id, filepath, chunk_id) \<Rightarrow>
     bindE (append_DSRoot (Some filepath) (Some (cl_dartsync_dir c))) (\<lambda>expanded_path.
     bindE (filetable_set_that_peer_has_file_chunk (cl_ft c) filepath peer_id chunk_id) (\<lambda>ft. Inr (c\<lparr>cl_ft := ft\<rparr>))))"

definition diff_in :: "('d, 's) host \<Rightarrow> filesystem \<times> filesystem \<times> int \<Rightarrow> ('d, 's) client \<Rightarrow> ('d, 's) client outcome" where
  "diff_in h r c = (case r of (additions, deletions, author) \<Rightarrow>
     let additions = filesystem_set_root_path additions (Some (cl_dartsync_dir c));
         deletions = filesystem_set_root_path deletions (Some (cl_dartsync_dir c))
     in bindE (RemoveFileDeletions h deletions c) (\<lambda>c.
        let cur_fs = filesystem_minus_equals (cl_cur_fs c) deletions in
        bindE (filetable_remove_filesystem (h_stale h) (cl_ft c) deletions) (\<lambda>ft.
        bindE (filesystem_plus_equals cur_fs additions) (\<lambda>cur_fs.
        bindE (filetable_add_filesystem (h_stale h) (h_rand h) (ft, cl_rand c) additions author True) (\<lambda>(ft, s).
        bindE (GetFileAdditions h additions author (c\<lparr>cl_ft := ft, cl_rand := s, cl_cur_fs := cur_fs\<rparr>)) (reread h))))))"

definition master_in :: "('d, 's) host \<Rightarrow> filesystem \<Rightarrow> ('d, 's) client \<Rightarrow> ('d, 's) client outcome" where
  "master_in h master c = UpdateLocalFilesystem h (filesystem_set_root_path master (Some (cl_dartsync_dir c))) c"

text \<open>One round of the loop; no inner loop runs more often than its queue is long.\<close>

definition client_round :: "('d, 's) host \<Rightarrow> int \<times> int \<Rightarrow> ('d, 's) client \<Rightarrow> ('d, 's) client outcome" where
  "client_round h now c =
     bindE (recv_while (Suc (length (TKR_2_ME_PEER_ADDED (cl_cnt c)))) (on_cnt (\<lambda>cnt. if_peer (recv_peer_added cnt))) (\<lambda>peer_id. Inr) c) (\<lambda>c.
     bindE (recv_while (Suc (length (TKR_2_ME_PEER_DELETED (cl_cnt c)))) (on_cnt (\<lambda>cnt. if_peer (recv_peer_deleted cnt))) peer_deleted_in c) (\<lambda>c.
     bindE (recv_while (Suc (length (CLT_2_ME_REQUEST_CHUNK (cl_cnt c)))) (on_cnt (\<lambda>cnt. Inr (receive_chunk_request cnt))) (chunk_request_in h) c) (\<lambda>c.
     bindE (recv_while (Suc (length (CLT_2_ME_RECEIVE_CHUNK (cl_cnt c)))) (on_cnt (\<lambda>cnt. Inr (receive_chunk cnt))) (chunk_in h) c) (\<lambda>c.
     bindE (recv_while (Suc (length (TKR_2_ME_FILE_ACQ (cl_cnt c)))) (on_cnt receive_chunk_got) chunk_got_in c) (\<lambda>c.
     bindE (recv_while (Suc (length (TKR_2_ME_FS_UPDATE (cl_cnt c)))) (on_cnt recv_diff) (diff_in h) c) (\<lambda>c.
     bindE (recv_while (Suc (length (TKR_2_ME_RECEIVE_MASTER_JFS (cl_cnt c)))) (on_cnt (\<lambda>cnt. Inr (recv_master cnt))) (master_in h) c) (\<lambda>c.
     bindE (check_work_queue h c) (CheckLocalFilesystem h now))))))))"

text \<open>\<open>while (NULL == f()) sleep(1)\<close>: \<open>networks\<close> is what the network thread does in each pause.\<close>

fun wait_for :: "(cnt \<Rightarrow> 'r option \<times> cnt) \<Rightarrow> (cnt \<Rightarrow> cnt outcome) list \<Rightarrow> cnt \<Rightarrow> ('r \<times> cnt \<times> (cnt \<Rightarrow> cnt outcome) list) outcome" where
  "wait_for f [] cnt = (case f cnt of (None, cnt) \<Rightarrow> Inl NoReturn | (Some r, cnt) \<Rightarrow> Inr (r, cnt, []))"
| "wait_for f (network # networks) cnt = (case f cnt of
     (None, cnt) \<Rightarrow> bindE (network cnt) (wait_for f networks)
   | (Some r, cnt) \<Rightarrow> Inr (r, cnt, network # networks))"

definition SendMasterFSRequest ::
    "('d, 's) host \<Rightarrow> (cnt \<Rightarrow> cnt outcome) list \<Rightarrow> ('d, 's) client \<Rightarrow> ('d, 's) client outcome" where
  "SendMasterFSRequest h networks c =
     (let (r, cnt) = send_request_for_master (cl_cnt c)
      in bindE (wait_for recv_master networks cnt) (\<lambda>(master, cnt, networks).
         bindE (wait_for recv_master_ft networks cnt) (\<lambda>((ft, len), cnt, networks).
           UpdateLocalFilesystem h (filesystem_set_root_path master (Some (cl_dartsync_dir c))) (c\<lparr>cl_cnt := cnt, cl_ft := ft\<rparr>))))"

text \<open>
  The start of \<open>main\<close> with the address of the tracker parsed; \<open>None\<close> is \<open>exit\<close>. The file table is NULL
  until the master's table comes, and nothing looks at it before.
\<close>

definition client_init ::
    "('d, 's) host \<Rightarrow> net \<Rightarrow> int \<times> int \<Rightarrow> byte list ptr \<Rightarrow> cstring ptr \<Rightarrow> 'd \<Rightarrow> 's \<Rightarrow> ('d, 's) client ptr outcome" where
  "client_init h net now ip sync_dir d s =
     (case StartClientNetwork ip 4 net of
        None \<Rightarrow> Inr None
      | Some cnt \<Rightarrow>
          let (dir, d) = get_absolute_root h (Some (case sync_dir of Some dir \<Rightarrow> dir | None \<Rightarrow> [126, 47] @ DART_SYNC)) d in
          (case dir of
             None \<Rightarrow> Inr None
           | Some dir \<Rightarrow> bindE (filesystem_new (h_wordexp h) (h_listing h d) (Some dir)) (\<lambda>cur_fs.
               Inr (Some \<lparr>cl_cnt = cnt, cl_cur_fs = cur_fs, cl_prev_fs = None, cl_prev_time = now, cl_ft = filetable_new,
                 cl_dartsync_dir = dir, cl_job = 0, cl_disk = d, cl_rand = s\<rparr>))))"

text \<open>Between two rounds the network thread and the user of the disk act, and time passes.\<close>

fun client_loop ::
    "('d, 's) host \<Rightarrow> ((cnt \<Rightarrow> cnt outcome) \<times> ('d \<Rightarrow> 'd) \<times> int \<times> int) list \<Rightarrow> ('d, 's) client \<Rightarrow> ('d, 's) client outcome" where
  "client_loop h [] c = Inr c"
| "client_loop h ((network, user, now) # later) c =
     bindE (network (cl_cnt c)) (\<lambda>cnt.
     bindE (client_round h now (c\<lparr>cl_cnt := cnt, cl_disk := user (cl_disk c)\<rparr>)) (client_loop h later))"

text \<open>On the interrupt.\<close>

definition DropFromNetwork :: "('d, 's) host \<Rightarrow> ('d, 's) client \<Rightarrow> net outcome" where
  "DropFromNetwork h c =
     bindE (EndClientNetwork (cl_cnt c)) (\<lambda>net.
     bindE (filetable_destroy (h_stale h) (cl_ft c)) (\<lambda>_. Inr net))"

definition client_main ::
    "('d, 's) host \<Rightarrow> net \<Rightarrow> int \<times> int \<Rightarrow> byte list ptr \<Rightarrow> cstring ptr \<Rightarrow> 'd \<Rightarrow> 's \<Rightarrow> (cnt \<Rightarrow> cnt outcome) list \<Rightarrow>
      ((cnt \<Rightarrow> cnt outcome) \<times> ('d \<Rightarrow> 'd) \<times> int \<times> int) list \<Rightarrow> net ptr outcome" where
  "client_main h net now ip sync_dir d s networks later =
     bindE (client_init h net now ip sync_dir d s) (\<lambda>c. case c of
       None \<Rightarrow> Inr None
     | Some c \<Rightarrow>
         bindE (SendMasterFSRequest h networks c) (\<lambda>c.
         bindE (client_loop h later c) (\<lambda>c.
         bindE (DropFromNetwork h c) (\<lambda>net. Inr (Some net)))))"

end
