(* ===== verification/ClientLogic.thy ===== *)
theory ClientLogic
  imports Client PeerTalk
begin

text \<open>
  What a client's logic does with chunks: a file whose chunks all come is written as its author has it,
  a peer's request is answered with the bytes or a rejection.
\<close>

section \<open>A client that can look at its disk\<close>

definition can_read :: "('d, 's) host \<Rightarrow> ('d, 's) client \<Rightarrow> bool" where
  "can_read h c \<longleftrightarrow> (\<forall>d. \<exists>contents. h_listing h d (h_wordexp h (cl_dartsync_dir c)) = DiskDir contents \<and> wf_disk (DiskDir contents))
     \<and> cl_dartsync_dir c \<noteq> [] \<and> last (cl_dartsync_dir c) \<noteq> 47"

lemma reread_ok: "can_read h c \<Longrightarrow> \<exists>fs. reread h c = Inr (c\<lparr>cl_cur_fs := fs\<rparr>)"
proof -
  assume "can_read h c"
  then obtain contents where "h_listing h (cl_disk c) (h_wordexp h (cl_dartsync_dir c)) = DiskDir contents" "wf_disk (DiskDir contents)"
    unfolding can_read_def by blast
  with folder_new_wf [of contents "[]"] show ?thesis by (auto simp: reread_def read_disk_def filesystem_new_def)
qed

lemma expanded: "can_read h c \<Longrightarrow> append_DSRoot (Some path) (Some (cl_dartsync_dir c)) = Inr (Some (cl_dartsync_dir c @ path))"
  by (simp add: can_read_def append_DSRoot_def)

section \<open>Chunks that come\<close>

lemma get_file: "holds ft m \<Longrightarrow> filetable_get_chunkyfile ft path = Inr (case m path of None \<Rightarrow> None | Some e \<Rightarrow> fte_file e)"
  by (simp add: filetable_get_chunkyfile_def holds_find split: option.splits)

lemma set_file:
  assumes "holds ft m" "m path = Some e"
  shows "\<exists>ft'. filetable_set_chunkyfile ft path file = Inr ft' \<and> holds ft' (m(path \<mapsto> e\<lparr>fte_file := file\<rparr>))"
  using holds_change [OF assms(1), of "\<lambda>e. e\<lparr>fte_file := file\<rparr>" path] assms
  by (auto simp: filetable_set_chunkyfile_def holds_find [OF assms(1)])

lemma remove_first_others: "set xs - {x} \<subseteq> set (remove_first ((=) x) xs)"
  by (induction xs) auto

lemma find_same: "x \<in> set xs \<Longrightarrow> find ((=) x) xs = Some x"
  by (induction xs) auto

lemma job_done:
  assumes "holds ft m" "m path = Some e" "j \<in> set (fte_outstanding_requests e)"
  shows "\<exists>ft'. filetable_find_and_remove_job_id ft path j = Inr (j, ft')
    \<and> holds ft' (m(path \<mapsto> e\<lparr>fte_outstanding_requests := remove_first ((=) j) (fte_outstanding_requests e)\<rparr>))"
proof -
  have "find ((=) j) (fte_outstanding_requests e) = Some j"
    using assms(3) by (rule find_same)
  then show ?thesis
    using holds_change [OF assms(1), of "\<lambda>e. e\<lparr>fte_outstanding_requests := remove_first ((=) j) (fte_outstanding_requests e)\<rparr>" path] assms
    by (auto simp: filetable_find_and_remove_job_id_def holds_find [OF assms(1)])
qed

text \<open>The bytes of chunk \<open>i\<close>, and the message that brings them as the answer to request \<open>j\<close>.\<close>

definition piece_of :: "byte list \<Rightarrow> nat \<Rightarrow> byte list" where
  "piece_of bytes i = take (sent (length bytes) i) (drop (i * 500000) bytes)"

definition answer :: "int \<Rightarrow> cstring \<Rightarrow> byte list \<Rightarrow> nat \<times> int \<Rightarrow> int \<times> byte list ptr \<times> int \<times> int \<times> byte list ptr \<times> int" where
  "answer peer path bytes a = (peer, Some (string_bytes path), int (fst a), int (length (piece_of bytes (fst a))),
     if piece_of bytes (fst a) = [] then None else Some (piece_of bytes (fst a)), snd a)"

definition acq_item :: "cstring \<Rightarrow> nat \<times> int \<Rightarrow> byte list ptr client_data" where
  "acq_item path a = client_item (int_bytes (int (fst a)) @ string_bytes path)"

text \<open>A file under way: chunks \<open>S\<close> are there, the requests \<open>js\<close> among those without an answer.\<close>

definition fetching :: "cstring \<Rightarrow> byte list \<Rightarrow> int \<Rightarrow> nat set \<Rightarrow> int set \<Rightarrow> ('d, 's) client \<Rightarrow> bool" where
  "fetching path bytes time S js c \<longleftrightarrow> (\<exists>m e w. holds (cl_ft c) m \<and> m path = Some e \<and> fte_file e = Some w
     \<and> written_ok (cl_dartsync_dir c @ path) time bytes S w \<and> js \<subseteq> set (fte_outstanding_requests e))"

definition fetched :: "cstring \<Rightarrow> ('d, 's) client \<Rightarrow> bool" where
  "fetched path c \<longleftrightarrow> (\<exists>m e. holds (cl_ft c) m \<and> m path = Some e \<and> fte_file e = None)"

lemma chunk_bytes_answer: "chunk_bytes (int (length d)) (if d = [] then None else Some d) = Inr d"
  by (simp add: chunk_bytes_def)

lemma chunk_in_step:
  assumes "can_read h c" "fetching path bytes time S js c" "is_cstring path" "fst a < chunk_count (length bytes)" "snd a \<in> js"
    and "length bytes mod 500000 \<noteq> 0" "S \<subseteq> {..<chunk_count (length bytes)}"
  shows "\<exists>c'. chunk_in h (answer peer path bytes a) c = Inr c' \<and> can_read h c'
    \<and> ME_2_TKR_ACQ_UPDATE (cl_cnt c') = ME_2_TKR_ACQ_UPDATE (cl_cnt c) @ [acq_item path a]
    \<and> cl_dartsync_dir c' = cl_dartsync_dir c
    \<and> (if insert (fst a) S = {..<chunk_count (length bytes)}
       then cl_disk c' = h_write h (cl_dartsync_dir c @ path, bytes, time) (cl_disk c) \<and> fetched path c'
       else cl_disk c' = cl_disk c \<and> fetching path bytes time (insert (fst a) S) (js - {snd a}) c')"
proof -
  obtain i j where a: "a = (i, j)" by (cases a)
  let ?n = "chunk_count (length bytes)"
  obtain m e w where m: "holds (cl_ft c) m" "m path = Some e" "fte_file e = Some w" "written_ok (cl_dartsync_dir c @ path) time bytes S w"
    "js \<subseteq> set (fte_outstanding_requests e)" using assms(2) by (auto simp: fetching_def)
  have j: "j \<in> set (fte_outstanding_requests e)" using m(5) assms(5) a by auto
  obtain ft1 where 1: "filetable_find_and_remove_job_id (cl_ft c) path j = Inr (j, ft1)"
    "holds ft1 (m(path \<mapsto> e\<lparr>fte_outstanding_requests := remove_first ((=) j) (fte_outstanding_requests e)\<rparr>))"
    using job_done [OF m(1,2) j] by blast
  let ?e1 = "e\<lparr>fte_outstanding_requests := remove_first ((=) j) (fte_outstanding_requests e)\<rparr>" and ?m1 = "m(path \<mapsto> e\<lparr>fte_outstanding_requests := remove_first ((=) j) (fte_outstanding_requests e)\<rparr>)"
  have held: "filetable_get_chunkyfile ft1 path = Inr (Some w)" using get_file [OF 1(2), of path] m(3) by simp
  have i: "i < ?n" using assms(4) a by simp
  obtain w' where w': "chunkyfile_set_chunk w (int i) (piece_of bytes i) = Inr (False, w')"
    "written_ok (cl_dartsync_dir c @ path) time bytes (insert i S) w'"
    using written_ok_set [OF m(4) i] unfolding piece_of_def by blast
  have str: "read_string (string_bytes path) = Inr (path, [])"
    using string_codec.dec_enc [OF assms(3), of "[]"] by simp
  let ?cnt = "snd (send_chunk_got (cl_cnt c) (Some path) (int i))"
  have acq: "ME_2_TKR_ACQ_UPDATE ?cnt = ME_2_TKR_ACQ_UPDATE (cl_cnt c) @ [acq_item path a]"
    by (simp add: send_chunk_got_def acq_item_def a)
  have below: "insert i S \<subseteq> {..<?n}" using i assms(7) by simp
  have run: "chunk_in h (answer peer path bytes a) c = bindE (if chunkyfile_all_chunks_written w'
             then bindE (chunkyfile_write w') (\<lambda>w.
               bindE (filetable_set_chunkyfile ft1 path None) (\<lambda>ft.
                 Inr (c\<lparr>cl_ft := ft1, cl_cnt := ?cnt, cl_ft := ft, cl_disk := h_write h w (cl_disk c)\<rparr>)))
             else bindE (filetable_set_chunkyfile ft1 path (Some w')) (\<lambda>ft. Inr (c\<lparr>cl_ft := ft1, cl_cnt := ?cnt, cl_ft := ft\<rparr>))) (reread h)"
    unfolding chunk_in_def answer_def a fst_conv snd_conv prod.case derefE_def option.case bindE.simps str
      expanded [OF assms(1)] 1(1) Let_def
    by (simp add: held w'(1) chunk_bytes_answer a Let_def cong: if_cong)
  note all_there = written_ok_all [OF w'(2) below]
  show ?thesis
  proof (cases "insert i S = {..<?n}")
    case True
    have w: "chunkyfile_write w' = Inr (cl_dartsync_dir c @ path, bytes, time)"
      using written_ok_write [OF w'(2)] written_ok_complete [OF _ assms(6)] w'(2) unfolding True by metis
    obtain ft2 where 2: "filetable_set_chunkyfile ft1 path None = Inr ft2" "holds ft2 (?m1(path \<mapsto> ?e1\<lparr>fte_file := None\<rparr>))"
      using set_file [OF 1(2), of path ?e1 None] by auto
    let ?c = "c\<lparr>cl_ft := ft1, cl_cnt := ?cnt, cl_ft := ft2, cl_disk := h_write h (cl_dartsync_dir c @ path, bytes, time) (cl_disk c)\<rparr>"
    have "can_read h ?c" using assms(1) by (simp add: can_read_def)
    from reread_ok [OF this] obtain fs where fs: "reread h ?c = Inr (?c\<lparr>cl_cur_fs := fs\<rparr>)" by blast
    have "chunk_in h (answer peer path bytes a) c = Inr (?c\<lparr>cl_cur_fs := fs\<rparr>)"
      unfolding run using all_there True w 2(1) fs by simp
    moreover have "fetched path (?c\<lparr>cl_cur_fs := fs\<rparr>)" using 2(2) by (auto simp: fetched_def)
    moreover have "can_read h (?c\<lparr>cl_cur_fs := fs\<rparr>)" using assms(1) by (simp add: can_read_def)
    ultimately show ?thesis using True acq by (intro exI [of _ "?c\<lparr>cl_cur_fs := fs\<rparr>"]) (simp add: a)
  next
    case False
    obtain ft2 where 2: "filetable_set_chunkyfile ft1 path (Some w') = Inr ft2" "holds ft2 (?m1(path \<mapsto> ?e1\<lparr>fte_file := Some w'\<rparr>))"
      using set_file [OF 1(2), of path ?e1 "Some w'"] by auto
    let ?c = "c\<lparr>cl_ft := ft1, cl_cnt := ?cnt, cl_ft := ft2\<rparr>"
    have "can_read h ?c" using assms(1) by (simp add: can_read_def)
    from reread_ok [OF this] obtain fs where fs: "reread h ?c = Inr (?c\<lparr>cl_cur_fs := fs\<rparr>)" by blast
    have "chunk_in h (answer peer path bytes a) c = Inr (?c\<lparr>cl_cur_fs := fs\<rparr>)"
      unfolding run using all_there False 2(1) fs by simp
    moreover have "js - {j} \<subseteq> set (remove_first ((=) j) (fte_outstanding_requests e))"
      using m(5) remove_first_others [of "fte_outstanding_requests e" j] by auto
    then have "fetching path bytes time (insert i S) (js - {j}) (?c\<lparr>cl_cur_fs := fs\<rparr>)"
      unfolding fetching_def
      by (intro exI [of _ "?m1(path \<mapsto> ?e1\<lparr>fte_file := Some w'\<rparr>)"] exI [of _ "?e1\<lparr>fte_file := Some w'\<rparr>"] exI [of _ w'])
        (use 2(2) w'(2) in simp)
    moreover have "can_read h (?c\<lparr>cl_cur_fs := fs\<rparr>)" using assms(1) by (simp add: can_read_def)
    ultimately show ?thesis using False acq by (intro exI [of _ "?c\<lparr>cl_cur_fs := fs\<rparr>"]) (simp add: a)
  qed
qed

lemma chunks_in:
  assumes "is_cstring path" "length bytes mod 500000 \<noteq> 0"
  shows "can_read h c \<Longrightarrow> fetching path bytes time S js c \<Longrightarrow> as \<noteq> [] \<Longrightarrow> distinct (map fst as) \<Longrightarrow>
    distinct (map snd as) \<Longrightarrow> snd ` set as \<subseteq> js \<Longrightarrow> S \<inter> fst ` set as = {} \<Longrightarrow>
    S \<union> fst ` set as = {..<chunk_count (length bytes)} \<Longrightarrow>
    \<exists>c'. foldE (\<lambda>a. chunk_in h (answer peer path bytes a)) as c = Inr c'
      \<and> cl_disk c' = h_write h (cl_dartsync_dir c @ path, bytes, time) (cl_disk c) \<and> fetched path c'
      \<and> ME_2_TKR_ACQ_UPDATE (cl_cnt c') = ME_2_TKR_ACQ_UPDATE (cl_cnt c) @ map (acq_item path) as"
proof (induction as arbitrary: c S js)
  case Nil
  then show ?case by simp
next
  case (Cons a as)
  have a: "fst a < chunk_count (length bytes)" "snd a \<in> js" "S \<subseteq> {..<chunk_count (length bytes)}"
    using Cons.prems(6,8) by auto
  obtain c1 where c1: "chunk_in h (answer peer path bytes a) c = Inr c1" "can_read h c1"
    "ME_2_TKR_ACQ_UPDATE (cl_cnt c1) = ME_2_TKR_ACQ_UPDATE (cl_cnt c) @ [acq_item path a]" "cl_dartsync_dir c1 = cl_dartsync_dir c"
    "if insert (fst a) S = {..<chunk_count (length bytes)}
       then cl_disk c1 = h_write h (cl_dartsync_dir c @ path, bytes, time) (cl_disk c) \<and> fetched path c1
       else cl_disk c1 = cl_disk c \<and> fetching path bytes time (insert (fst a) S) (js - {snd a}) c1"
    using chunk_in_step [OF Cons.prems(1,2) assms(1) a(1,2) assms(2) a(3), of peer] by blast
  show ?case
  proof (cases "as = []")
    case True
    then have "insert (fst a) S = {..<chunk_count (length bytes)}" using Cons.prems(8) by auto
    with c1 True show ?thesis by simp
  next
    case False
    then obtain b where b: "b \<in> set as" by (cases as) auto
    have "fst b \<notin> insert (fst a) S" using Cons.prems(4,7) b by (auto simp: image_iff)
    moreover have "fst b \<in> {..<chunk_count (length bytes)}" using Cons.prems(8) b by auto
    ultimately have "insert (fst a) S \<noteq> {..<chunk_count (length bytes)}" by metis
    then have more: "cl_disk c1 = cl_disk c" "fetching path bytes time (insert (fst a) S) (js - {snd a}) c1"
      using c1(5) by simp_all
    have "snd ` set as \<subseteq> js - {snd a}" using Cons.prems(5,6) by (auto simp: image_iff)
    moreover have "insert (fst a) S \<inter> fst ` set as = {}" using Cons.prems(4,7) by (auto simp: image_iff)
    moreover have "insert (fst a) S \<union> fst ` set as = {..<chunk_count (length bytes)}" using Cons.prems(8) by simp
    ultimately obtain c' where "foldE (\<lambda>a. chunk_in h (answer peer path bytes a)) as c1 = Inr c'"
      "cl_disk c' = h_write h (cl_dartsync_dir c1 @ path, bytes, time) (cl_disk c1)" "fetched path c'"
      "ME_2_TKR_ACQ_UPDATE (cl_cnt c') = ME_2_TKR_ACQ_UPDATE (cl_cnt c1) @ map (acq_item path) as"
      using Cons.IH [OF c1(2) more(2) False] Cons.prems(4,5) by auto
    with c1(1,3,4) more(1) show ?thesis by simp
  qed
qed

lemma answer_is: "answer peer path bytes a = chunk_of peer (Answer path (int (fst a)) (piece_of bytes (fst a)) (snd a))"
  by (simp add: answer_def chunk_of_def)

section \<open>Chunks asked for\<close>

text \<open>The file is on the disk with these bytes, and if it is under way in the table it is complete there.\<close>

definition serves :: "('d, 's) host \<Rightarrow> int \<Rightarrow> cstring \<Rightarrow> byte list \<Rightarrow> ('d, 's) client \<Rightarrow> bool" where
  "serves h i path bytes c \<longleftrightarrow> cl_dartsync_dir c \<noteq> [] \<and> last (cl_dartsync_dir c) \<noteq> 47
     \<and> h_read h (cl_disk c) (cl_dartsync_dir c @ path) = (True, bytes)
     \<and> (\<exists>q. get_peer_by_id (c_peer_table (cl_cnt c)) i = Inr (Some q))
     \<and> (\<exists>m. holds (cl_ft c) m
         \<and> (\<forall>e f. m path = Some e \<longrightarrow> fte_file e = Some f \<longrightarrow> cf_size f = int (length bytes) \<and> cf_data f = bytes))"

lemma set_file_any:
  assumes "holds ft m"
  shows "\<exists>ft'. filetable_set_chunkyfile ft path file = Inr ft' \<and> holds ft' (m(path := map_option (\<lambda>e. e\<lparr>fte_file := file\<rparr>) (m path)))"
proof (cases "m path")
  case None
  then have "m(path := map_option (\<lambda>e. e\<lparr>fte_file := file\<rparr>) (m path)) = m" by (simp add: fun_upd_idem)
  with None assms show ?thesis by (simp add: filetable_set_chunkyfile_def holds_find [OF assms])
next
  case (Some e)
  then show ?thesis using set_file [OF assms Some, of "file"] by simp
qed

lemma serve_file:
  assumes "serves h i path bytes c" "length bytes < 2 ^ 31"
  shows "\<exists>f ft. cf_size f = int (length bytes) \<and> cf_data f = bytes \<and> serves h i path bytes (c\<lparr>cl_ft := ft\<rparr>)
    \<and> bindE (filetable_get_chunkyfile (cl_ft c) path) (\<lambda>known. case known of
         Some file \<Rightarrow> Inr (Some file, c)
       | None \<Rightarrow>
           bindE (derefE (Some (cl_dartsync_dir c @ path))) (\<lambda>path'.
           case chunkyfile_new_for_reading_from_path (h_read h (cl_disk c)) path' of
             None \<Rightarrow> Inr (None, c)
           | Some file \<Rightarrow> bindE (filetable_set_chunkyfile (cl_ft c) path (Some file)) (\<lambda>ft. Inr (Some file, c\<lparr>cl_ft := ft\<rparr>))))
      = Inr (Some f, c\<lparr>cl_ft := ft\<rparr>)"
proof -
  obtain m where m: "holds (cl_ft c) m"
    "\<And>e f. m path = Some e \<Longrightarrow> fte_file e = Some f \<Longrightarrow> cf_size f = int (length bytes) \<and> cf_data f = bytes"
    using assms(1) by (auto simp: serves_def)
  have got: "filetable_get_chunkyfile (cl_ft c) path = Inr (case m path of None \<Rightarrow> None | Some e \<Rightarrow> fte_file e)"
    by (rule get_file [OF m(1)])
  show ?thesis
  proof (cases "case m path of None \<Rightarrow> None | Some e \<Rightarrow> fte_file e")
    case (Some f)
    then have "cf_size f = int (length bytes)" "cf_data f = bytes" using m(2) by (auto split: option.splits)
    with Some got assms(1) show ?thesis by (intro exI [of _ f] exI [of _ "cl_ft c"]) simp
  next
    case None
    have "h_read h (cl_disk c) (cl_dartsync_dir c @ path) = (True, bytes)" using assms(1) by (simp add: serves_def)
    from new_for_reading [of "h_read h (cl_disk c)", OF this assms(2)] obtain f where
      f: "chunkyfile_new_for_reading_from_path (h_read h (cl_disk c)) (cl_dartsync_dir c @ path) = Some f"
        "cf_size f = int (length bytes)" "cf_data f = bytes" by blast
    obtain ft where ft: "filetable_set_chunkyfile (cl_ft c) path (Some f) = Inr ft"
      "holds ft (m(path := map_option (\<lambda>e. e\<lparr>fte_file := Some f\<rparr>) (m path)))"
      using set_file_any [OF m(1)] by blast
    have "serves h i path bytes (c\<lparr>cl_ft := ft\<rparr>)"
      using assms(1) ft(2) f(2,3) by (auto simp: serves_def intro!: exI [of _ "m(path := map_option (\<lambda>e. e\<lparr>fte_file := Some f\<rparr>) (m path))"])
    with f ft(1) got None show ?thesis by (intro exI [of _ f] exI [of _ ft]) (simp add: derefE_def)
  qed
qed

lemma serves_frame: "get_peer_by_id (c_peer_table cnt) i = get_peer_by_id (c_peer_table (cl_cnt c)) i \<Longrightarrow>
    serves h i path bytes c \<Longrightarrow> serves h i path bytes (c\<lparr>cl_cnt := cnt\<rparr>)"
  by (simp add: serves_def)

definition served :: "cstring \<Rightarrow> byte list \<Rightarrow> nat \<times> int \<Rightarrow> peer_message" where
  "served path bytes a = Answer path (int (fst a)) (piece_of bytes (fst a)) (snd a)"

lemma chunk_request_step:
  assumes "serves h i path bytes c" "length bytes < 2 ^ 31" "is_cstring path" "fst a < chunk_count (length bytes)"
  shows "\<exists>c'. chunk_request_in h (request_of i (Request path (int (fst a)) (snd a))) c = Inr c' \<and> serves h i path bytes c'
    \<and> cl_disk c' = cl_disk c \<and> ME_2_CLT_SEND_CHUNK (cl_cnt c') = ME_2_CLT_SEND_CHUNK (cl_cnt c) @ [out_item i (served path bytes a)]"
proof -
  obtain q where q: "get_peer_by_id (c_peer_table (cl_cnt c)) i = Inr (Some q)" using assms(1) by (auto simp: serves_def)
  have str: "read_string (string_bytes path) = Inr (path, [])"
    using string_codec.dec_enc [OF assms(3), of "[]"] by simp
  have dir: "append_DSRoot (Some path) (Some (cl_dartsync_dir c)) = Inr (Some (cl_dartsync_dir c @ path))"
    using assms(1) by (simp add: serves_def append_DSRoot_def)
  obtain f ft where f: "cf_size f = int (length bytes)" "cf_data f = bytes" "serves h i path bytes (c\<lparr>cl_ft := ft\<rparr>)"
    and known: "bindE (filetable_get_chunkyfile (cl_ft c) path) (\<lambda>known. case known of
         Some file \<Rightarrow> Inr (Some file, c)
       | None \<Rightarrow>
           bindE (derefE (Some (cl_dartsync_dir c @ path))) (\<lambda>path'.
           case chunkyfile_new_for_reading_from_path (h_read h (cl_disk c)) path' of
             None \<Rightarrow> Inr (None, c)
           | Some file \<Rightarrow> bindE (filetable_set_chunkyfile (cl_ft c) path (Some file)) (\<lambda>ft. Inr (Some file, c\<lparr>cl_ft := ft\<rparr>))))
      = Inr (Some f, c\<lparr>cl_ft := ft\<rparr>)"
    using serve_file [OF assms(1,2)] by blast
  obtain known' where k: "filetable_get_chunkyfile (cl_ft c) path = Inr known'"
    using get_file assms(1) unfolding serves_def by blast
  have chunk: "chunkyfile_get_chunk f (int (fst a)) = Inr (piece_of bytes (fst a))"
    using get_chunk_sent [OF f(1,2) assms(4)] by (simp add: piece_of_def)
  have p: "p_send i (served path bytes a) (cl_cnt c) = Inr (cl_cnt c
    \<lparr>ME_2_CLT_SEND_CHUNK := ME_2_CLT_SEND_CHUNK (cl_cnt c) @ [out_item i (served path bytes a)]\<rparr>)"
    using p_send_one [OF q, of "served path bytes a"] by (simp add: served_def)
  then obtain r where send: "send_chunk (cl_cnt c) i (Some path) (int (fst a)) (Some (piece_of bytes (fst a)))
      (int (length (piece_of bytes (fst a)))) (snd a) = Inr (r, cl_cnt c
    \<lparr>ME_2_CLT_SEND_CHUNK := ME_2_CLT_SEND_CHUNK (cl_cnt c) @ [out_item i (served path bytes a)]\<rparr>)"
    unfolding served_def p_send.simps
    by (cases "send_chunk (cl_cnt c) i (Some path) (int (fst a)) (Some (piece_of bytes (fst a))) (int (length (piece_of bytes (fst a)))) (snd a)") auto
  let ?c = "c\<lparr>cl_ft := ft, cl_cnt := cl_cnt c\<lparr>ME_2_CLT_SEND_CHUNK := ME_2_CLT_SEND_CHUNK (cl_cnt c) @ [out_item i (served path bytes a)]\<rparr>\<rparr>"
  have "chunk_request_in h (request_of i (Request path (int (fst a)) (snd a))) c = Inr ?c"
    using known unfolding k bindE.simps
    unfolding chunk_request_in_def request_of_def prod.case derefE_def option.case bindE.simps peer_message.sel str dir k
    by (simp add: chunk send)
  moreover have "serves h i path bytes ?c" using f(3) q by (intro serves_frame) simp_all
  ultimately show ?thesis by (intro exI [of _ ?c]) simp
qed

lemma chunk_requests_in:
  assumes "length bytes < 2 ^ 31" "is_cstring path"
  shows "serves h i path bytes c \<Longrightarrow> fst ` set as \<subseteq> {..<chunk_count (length bytes)} \<Longrightarrow>
    \<exists>c'. foldE (\<lambda>a. chunk_request_in h (request_of i (Request path (int (fst a)) (snd a)))) as c = Inr c' \<and> cl_disk c' = cl_disk c
      \<and> ME_2_CLT_SEND_CHUNK (cl_cnt c') = ME_2_CLT_SEND_CHUNK (cl_cnt c) @ map (\<lambda>a. out_item i (served path bytes a)) as"
proof (induction as arbitrary: c)
  case Nil
  then show ?case by simp
next
  case (Cons a as)
  then have a: "fst a < chunk_count (length bytes)" by simp
  from chunk_request_step [OF Cons.prems(1) assms a] obtain c1 where
    1: "chunk_request_in h (request_of i (Request path (int (fst a)) (snd a))) c = Inr c1" "serves h i path bytes c1"
      "cl_disk c1 = cl_disk c" "ME_2_CLT_SEND_CHUNK (cl_cnt c1) = ME_2_CLT_SEND_CHUNK (cl_cnt c) @ [out_item i (served path bytes a)]"
    by blast
  have "fst ` set as \<subseteq> {..<chunk_count (length bytes)}" using Cons.prems(2) by simp
  from Cons.IH [OF 1(2) this] 1(1,3,4) show ?case by auto
qed

section \<open>A machine\<close>

text \<open>A disk that is the list of the files written, the last one first, in a directory that holds nothing else.\<close>

definition log_host :: "((cstring \<times> byte list \<times> int) list, nat) host" where
  "log_host = \<lparr>h_wordexp = (\<lambda>p. p), h_access = (\<lambda>d p. True), h_stat = (\<lambda>d p. Some True), h_realpath = (\<lambda>d p. Some p),
     h_listing = (\<lambda>d p. DiskDir []),
     h_read = (\<lambda>d p. case map_of d p of None \<Rightarrow> (False, []) | Some (bytes, t) \<Rightarrow> (True, bytes)),
     h_mkdir = (\<lambda>p d. (0, d)), h_remove = (\<lambda>p d. (0, filter (\<lambda>w. fst w \<noteq> p) d)), h_write = (#), h_rand = (\<lambda>s. (s, s + 1)),
     h_stale = True\<rparr>"

definition idle_cnt :: cnt where
  "idle_cnt = (case StartClientNetwork (Some [10, 0, 0, 1]) 4 no_net of None \<Rightarrow> undefined | Some c \<Rightarrow>
     c\<lparr>c_peer_table := Some \<lparr>pt_list = [Used peer_5, Free], pt_count = 1, pt_id_counter = 6\<rparr>\<rparr>)"

definition client_with :: "(cstring \<times> byte list \<times> int) list \<Rightarrow> filetable \<Rightarrow> ((cstring \<times> byte list \<times> int) list, nat) client" where
  "client_with d ft = \<lparr>cl_cnt = idle_cnt, cl_cur_fs = \<lparr>fs_root_path = Some [47, 100], fs_root = Folder [] [] []\<rparr>, cl_prev_fs = None,
     cl_prev_time = (0, 0), cl_ft = ft, cl_dartsync_dir = [47, 100], cl_job = 1, cl_disk = d, cl_rand = 0\<rparr>"

lemma client_with_peer: "get_peer_by_id (c_peer_table (cl_cnt (client_with d ft))) 5 = Inr (Some peer_5)"
  by (simp add: client_with_def idle_cnt_def StartClientNetwork_def get_peer_by_id_def get_peer_def peer_5_def)

lemma client_with_reads: "can_read log_host (client_with d ft)"
  by (simp add: can_read_def client_with_def log_host_def)

section \<open>Properties\<close>





end
