(* ===== verification/ClientWork.thy ===== *)
theory ClientWork
  imports ClientLogic
begin

text \<open>
  A client's work: chunks in the work queues of its file table become requests to the peers that hold
  them, with a bound on those under way for each file, and a file all of whose chunks are in work is fetched.
\<close>

section \<open>The jobs of an entry\<close>

definition jobs_now :: "fileentry \<Rightarrow> nat" where
  "jobs_now e = min (length (fte_work_queue e)) (nat (15 - int (length (fte_outstanding_requests e))))"

text \<open>Every chunk in work has a holder, and all its holders are peers the client knows.\<close>

definition askable :: "cnt \<Rightarrow> fileentry \<Rightarrow> bool" where
  "askable cnt e \<longleftrightarrow> (\<forall>chunk \<in> set (fte_work_queue e). has_holders e chunk
     \<and> (\<forall>p \<in> set (fte_chunks e ! nat chunk). \<exists>q. get_peer_by_id (c_peer_table cnt) p = Inr (Some q)))"

text \<open>The requests for the first chunks in work: peers, chunks and consecutive numbers from \<open>job\<close> on.\<close>

definition requests_for :: "fileentry \<Rightarrow> nat \<Rightarrow> int \<Rightarrow> (int \<times> peer_message) list \<Rightarrow> bool" where
  "requests_for e n job rs \<longleftrightarrow> map snd rs = map2 (Request (fte_path e)) (take n (fte_work_queue e)) [job..job + int n - 1]
     \<and> (\<forall>(p, r) \<in> set rs. p \<in> set (fte_chunks e ! nat (pm_chunk r)))"

definition with_requests :: "(int \<times> peer_message) list \<Rightarrow> cnt \<Rightarrow> cnt" where
  "with_requests rs cnt = cnt\<lparr>ME_2_CLT_REQ_CHUNK := ME_2_CLT_REQ_CHUNK cnt @ map (\<lambda>(p, r). out_item p r) rs\<rparr>"

lemma with_requests_simps [simp]: "with_requests [] cnt = cnt"
  "with_requests rs' (with_requests rs cnt) = with_requests (rs @ rs') cnt"
  "c_peer_table (with_requests rs cnt) = c_peer_table cnt"
  by (simp_all add: with_requests_def)

definition worked :: "int list \<Rightarrow> fileentry \<Rightarrow> fileentry" where
  "worked jobs e = e\<lparr>fte_work_queue := drop (length jobs) (fte_work_queue e),
     fte_outstanding_requests := fte_outstanding_requests e @ jobs\<rparr>"

lemma worked_path [simp]: "fte_path (worked jobs e) = fte_path e"
  by (simp add: worked_def)

lemma get_job_none: "jobs_now e = 0 \<Longrightarrow> 1 \<le> job \<Longrightarrow> filetableentry_get_job r job e MAX_PENDING_REQUESTS = Inr (None, job, e)"
  by (auto simp: filetableentry_get_job_def jobs_now_def MAX_PENDING_REQUESTS_def Let_def split: list.splits)

lemma get_job_some:
  assumes "jobs_now e = Suc n" "1 \<le> job" "askable cnt e"
  shows "\<exists>chunk work p. fte_work_queue e = chunk # work \<and> p \<in> set (fte_chunks e ! nat chunk)
    \<and> (\<exists>q. get_peer_by_id (c_peer_table cnt) p = Inr (Some q))
    \<and> filetableentry_get_job r job e MAX_PENDING_REQUESTS = Inr (Some (chunk, p, job), job + 1, worked [job] e)
    \<and> jobs_now (worked [job] e) = n"
proof -
  obtain chunk work where w: "fte_work_queue e = chunk # work" using assms(1) by (cases "fte_work_queue e") (auto simp: jobs_now_def)
  have room: "int (length (fte_outstanding_requests e)) < 15" using assms(1) by (simp add: jobs_now_def)
  have c: "0 \<le> chunk" "chunk < int (length (fte_chunks e))" "fte_chunks e ! nat chunk \<noteq> []"
    and peers: "\<forall>p \<in> set (fte_chunks e ! nat chunk). \<exists>q. get_peer_by_id (c_peer_table cnt) p = Inr (Some q)"
    using assms(3) w by (simp_all add: askable_def has_holders_def)
  let ?p = "fte_chunks e ! nat chunk ! (r mod length (fte_chunks e ! nat chunk))"
  have p: "?p \<in> set (fte_chunks e ! nat chunk)" using c(3) by simp
  moreover have "filetableentry_get_job r job e MAX_PENDING_REQUESTS = Inr (Some (chunk, ?p, job), job + 1, worked [job] e)"
    using room w c assms(2) by (simp add: filetableentry_get_job_def MAX_PENDING_REQUESTS_def queue_at_def worked_def Let_def)
  moreover have "jobs_now (worked [job] e) = n" using assms(1) w by (auto simp: jobs_now_def worked_def)
  ultimately show ?thesis using w peers by blast
qed

lemma askable_worked: "askable cnt e \<Longrightarrow> askable cnt' (worked jobs e)" if "c_peer_table cnt' = c_peer_table cnt"
  using that by (auto simp: askable_def worked_def has_holders_def dest: in_set_dropD)

lemma entry_jobs_ok:
  "jobs_now e < fuel \<Longrightarrow> 1 \<le> job \<Longrightarrow> askable cnt e \<Longrightarrow>
    \<exists>rs s'. entry_jobs fuel rnd e (cnt, job, s) = Inr (worked [job..job + int (jobs_now e) - 1] e, with_requests rs cnt, job + int (jobs_now e), s')
      \<and> requests_for e (jobs_now e) job rs"
proof (induction fuel arbitrary: e cnt job s)
  case 0
  then show ?case by simp
next
  case (Suc fuel)
  show ?case
  proof (cases "jobs_now e")
    case 0
    then show ?thesis
      using get_job_none [OF 0 Suc.prems(2)] by (intro exI [of _ "[]"] exI [of _ s]) (simp add: requests_for_def worked_def)
  next
    case (Suc n)
    obtain chunk work p q where 1: "fte_work_queue e = chunk # work" "p \<in> set (fte_chunks e ! nat chunk)"
      "get_peer_by_id (c_peer_table cnt) p = Inr (Some q)"
      "filetableentry_get_job (fst (rnd s)) job e MAX_PENDING_REQUESTS = Inr (Some (chunk, p, job), job + 1, worked [job] e)"
      "jobs_now (worked [job] e) = n"
      using get_job_some [OF Suc Suc.prems(2,3), of "fst (rnd s)"] by blast
    let ?r = "Request (fte_path e) chunk job"
    have "\<exists>k. send_chunk_request cnt p (Some (fte_path e)) chunk job = Inr (k, with_requests [(p, ?r)] cnt)"
      using 1(3) by (simp add: send_chunk_request_def with_requests_def chunk_item_def)
    then obtain k where 2: "send_chunk_request cnt p (Some (fte_path e)) chunk job = Inr (k, with_requests [(p, ?r)] cnt)" by blast
    have "askable (with_requests [(p, ?r)] cnt) (worked [job] e)" by (rule askable_worked [OF _ Suc.prems(3)]) simp
    moreover have "jobs_now (worked [job] e) < fuel" using Suc.prems(1) 1(5) Suc by simp
    ultimately obtain rs s' where 3: "entry_jobs fuel rnd (worked [job] e) (with_requests [(p, ?r)] cnt, job + 1, snd (rnd s))
        = Inr (worked [job + 1..job + 1 + int n - 1] (worked [job] e), with_requests rs (with_requests [(p, ?r)] cnt), job + 1 + int n, s')"
      "requests_for (worked [job] e) n (job + 1) rs"
      using Suc.IH [of "worked [job] e" "job + 1" "with_requests [(p, ?r)] cnt" "snd (rnd s)"] Suc.prems(2) unfolding 1(5) by auto
    have u: "[job..job + int (Suc n) - 1] = job # [job + 1..job + 1 + int n - 1]" by (simp add: upto_rec1)
    have "worked [job + 1..job + 1 + int n - 1] (worked [job] e) = worked [job..job + int (Suc n) - 1] e"
      unfolding u by (simp add: worked_def drop_Suc)
    moreover have "requests_for e (Suc n) job ((p, ?r) # rs)"
      using 3(2) 1(1,2) unfolding requests_for_def u by (auto simp: worked_def)
    moreover have "job + 1 + int n = job + int (Suc n)" by simp
    moreover have "with_requests rs (with_requests [(p, ?r)] cnt) = with_requests ((p, ?r) # rs) cnt" by simp
    ultimately have "entry_jobs (Suc fuel) rnd e (cnt, job, s)
        = Inr (worked [job..job + int (Suc n) - 1] e, with_requests ((p, ?r) # rs) cnt, job + int (Suc n), s')"
      unfolding entry_jobs.simps 1(4) bindE.simps prod.case option.case worked_path 2 3(1) by simp
    with \<open>requests_for e (Suc n) job ((p, ?r) # rs)\<close> show ?thesis unfolding Suc by blast
  qed
qed

lemma entry_jobs_first: "entry_jobs fuel rnd e (cnt, 0, s) = entry_jobs fuel rnd e (cnt, 1, s)"
  by (cases fuel) (simp_all add: filetableentry_get_job_def Let_def)

section \<open>The whole table\<close>

definition of_path :: "cstring \<Rightarrow> (int \<times> peer_message) list \<Rightarrow> (int \<times> peer_message) list" where
  "of_path path rs = filter (\<lambda>r. pm_path (snd r) = path) rs"

definition job_numbers :: "(int \<times> peer_message) list \<Rightarrow> int list" where
  "job_numbers rs = map (\<lambda>r. pm_job (snd r)) rs"

lemma of_path_append [simp]: "of_path path (rs @ rs') = of_path path rs @ of_path path rs'" "of_path path [] = []"
  by (simp_all add: of_path_def)

lemma job_numbers_append [simp]: "job_numbers (rs @ rs') = job_numbers rs @ job_numbers rs'" "job_numbers [] = []"
  by (simp_all add: job_numbers_def)

lemma requests_for_parts:
  assumes "requests_for e n job rs" "n \<le> length (fte_work_queue e)"
  shows "map (\<lambda>r. pm_chunk (snd r)) rs = take n (fte_work_queue e)" "job_numbers rs = [job..job + int n - 1]" "length rs = n"
    "\<forall>r \<in> set rs. pm_path (snd r) = fte_path e \<and> kind (snd r) = CHUNK_REQUEST \<and> fst r \<in> set (fte_chunks e ! nat (pm_chunk (snd r)))"
proof -
  have l: "length [job..job + int n - 1] = n" "length (take n (fte_work_queue e)) = n" using assms(2) by simp_all
  have s: "map snd rs = map2 (Request (fte_path e)) (take n (fte_work_queue e)) [job..job + int n - 1]"
    using assms(1) by (simp add: requests_for_def)
  have "map pm_chunk (map snd rs) = take n (fte_work_queue e)" "map pm_job (map snd rs) = [job..job + int n - 1]"
    unfolding s using map_fst_zip [of "take n (fte_work_queue e)" "[job..job + int n - 1]"]
      map_snd_zip [of "take n (fte_work_queue e)" "[job..job + int n - 1]"] l by (simp_all add: comp_def case_prod_unfold)
  then show "map (\<lambda>r. pm_chunk (snd r)) rs = take n (fte_work_queue e)" "job_numbers rs = [job..job + int n - 1]"
    by (simp_all add: comp_def job_numbers_def)
  show "length rs = n" using arg_cong [OF s, of length] l by simp
  have "\<forall>m \<in> set (map snd rs). pm_path m = fte_path e \<and> kind m = CHUNK_REQUEST" unfolding s by auto
  then show "\<forall>r \<in> set rs. pm_path (snd r) = fte_path e \<and> kind (snd r) = CHUNK_REQUEST \<and> fst r \<in> set (fte_chunks e ! nat (pm_chunk (snd r)))"
    using assms(1) by (auto simp: requests_for_def)
qed

definition work_on :: "('d, 's) host \<Rightarrow> fileentry ptr \<Rightarrow> ('d, 's) client \<Rightarrow> ('d, 's) client outcome" where
  "work_on h fte c = (case fte of
         None \<Rightarrow> Inl NullDeref
       | Some e \<Rightarrow>
           bindE (entry_jobs (Suc (length (fte_work_queue e))) (h_rand h) e (cl_cnt c, cl_job c, cl_rand c)) (\<lambda>(e', cnt, job, s).
           bindE (change_entry (cl_ft c) (fte_path e) (\<lambda>e. e\<lparr>fte_work_queue := fte_work_queue e',
               fte_outstanding_requests := fte_outstanding_requests e'\<rparr>)) (\<lambda>ft.
             Inr (c\<lparr>cl_ft := ft, cl_cnt := cnt, cl_job := job, cl_rand := s\<rparr>))))"

lemma work_on_one:
  assumes "holds (cl_ft c) m" "m (fte_path e) = Some e" "askable (cl_cnt c) e" "1 \<le> cl_job c"
  shows "\<exists>ft rs s. work_on h (Some e) c = Inr (c\<lparr>cl_ft := ft, cl_cnt := with_requests rs (cl_cnt c), cl_job := cl_job c + int (jobs_now e), cl_rand := s\<rparr>)
    \<and> holds ft (m(fte_path e \<mapsto> worked (job_numbers rs) e)) \<and> requests_for e (jobs_now e) (cl_job c) rs"
proof -
  have "jobs_now e < Suc (length (fte_work_queue e))" by (simp add: jobs_now_def)
  from entry_jobs_ok [OF this assms(4,3), of "h_rand h" "cl_rand c"] obtain rs s where
    1: "entry_jobs (Suc (length (fte_work_queue e))) (h_rand h) e (cl_cnt c, cl_job c, cl_rand c)
        = Inr (worked [cl_job c..cl_job c + int (jobs_now e) - 1] e, with_requests rs (cl_cnt c), cl_job c + int (jobs_now e), s)"
      "requests_for e (jobs_now e) (cl_job c) rs"
    by blast
  have n: "job_numbers rs = [cl_job c..cl_job c + int (jobs_now e) - 1]"
    by (rule requests_for_parts(2) [OF 1(2)]) (simp add: jobs_now_def)
  let ?e = "worked (job_numbers rs) e"
  have "e\<lparr>fte_work_queue := fte_work_queue ?e, fte_outstanding_requests := fte_outstanding_requests ?e\<rparr> = ?e" by (simp add: worked_def)
  then obtain ft where 2: "change_entry (cl_ft c) (fte_path e) (\<lambda>e. e\<lparr>fte_work_queue := fte_work_queue ?e, fte_outstanding_requests := fte_outstanding_requests ?e\<rparr>) = Inr ft"
    "holds ft (m(fte_path e \<mapsto> ?e))"
    using holds_change [OF assms(1), of "\<lambda>e. e\<lparr>fte_work_queue := fte_work_queue ?e, fte_outstanding_requests := fte_outstanding_requests ?e\<rparr>" "fte_path e"]
      assms(2) by auto
  have "work_on h (Some e) c = Inr (c\<lparr>cl_ft := ft, cl_cnt := with_requests rs (cl_cnt c), cl_job := cl_job c + int (jobs_now e), cl_rand := s\<rparr>)"
    unfolding work_on_def option.case 1(1) bindE.simps prod.case n [symmetric] 2(1) by simp
  with 1(2) 2(2) show ?thesis by blast
qed

lemma of_path_all: "\<forall>r \<in> set rs. pm_path (snd r) = path \<Longrightarrow> of_path path rs = rs"
  by (simp add: of_path_def filter_id_conv)

lemma of_path_none: "\<forall>r \<in> set rs. pm_path (snd r) \<noteq> path \<Longrightarrow> of_path path rs = []"
  by (simp add: of_path_def filter_empty_conv)

lemma consecutive: "[a..a + int n - 1] @ [a + int n..a + int n + int k - 1] = [a..a + int (n + k) - 1]"
proof (cases n)
  case (Suc i)
  then show ?thesis using upto_split2 [of a "a + int n - 1" "a + int (n + k) - 1"] by (simp add: algebra_simps)
qed simp

lemma work_on_all:
  "1 \<le> cl_job c \<Longrightarrow> holds (cl_ft c) m \<Longrightarrow> distinct (map fte_path es) \<Longrightarrow>
    \<forall>e \<in> set es. m (fte_path e) = Some e \<and> askable (cl_cnt c) e \<Longrightarrow>
    \<exists>ft rs s. foldE (work_on h) (map Some es) c
        = Inr (c\<lparr>cl_ft := ft, cl_cnt := with_requests rs (cl_cnt c), cl_job := cl_job c + int (length rs), cl_rand := s\<rparr>)
      \<and> holds ft (\<lambda>k. map_option (\<lambda>e. if e \<in> set es then worked (job_numbers (of_path k rs)) e else e) (m k))
      \<and> job_numbers rs = [cl_job c..cl_job c + int (length rs) - 1]
      \<and> (\<forall>r \<in> set rs. kind (snd r) = CHUNK_REQUEST
          \<and> (\<exists>e \<in> set es. pm_path (snd r) = fte_path e \<and> fst r \<in> set (fte_chunks e ! nat (pm_chunk (snd r)))))
      \<and> (\<forall>e \<in> set es. map (\<lambda>r. pm_chunk (snd r)) (of_path (fte_path e) rs) = take (jobs_now e) (fte_work_queue e))"
proof (induction es arbitrary: c m)
  case Nil
  have "(\<lambda>k. map_option (\<lambda>e. if e \<in> set [] then worked (job_numbers (of_path k [])) e else e) (m k)) = m"
    by (simp add: fun_eq_iff option.map_ident)
  with Nil.prems(2) show ?case by (intro exI [of _ "cl_ft c"] exI [of _ "[]"] exI [of _ "cl_rand c"]) simp
next
  case (Cons e es)
  have e: "m (fte_path e) = Some e" "askable (cl_cnt c) e" using Cons.prems(4) by simp_all
  obtain ft1 rs1 s1 where 1: "work_on h (Some e) c = Inr (c\<lparr>cl_ft := ft1, cl_cnt := with_requests rs1 (cl_cnt c), cl_job := cl_job c + int (jobs_now e), cl_rand := s1\<rparr>)"
    "holds ft1 (m(fte_path e \<mapsto> worked (job_numbers rs1) e))" "requests_for e (jobs_now e) (cl_job c) rs1"
    using work_on_one [OF Cons.prems(2) e Cons.prems(1), of h] by blast
  have n: "jobs_now e \<le> length (fte_work_queue e)" by (simp add: jobs_now_def)
  note r1 = requests_for_parts [OF 1(3) n]
  let ?c = "c\<lparr>cl_ft := ft1, cl_cnt := with_requests rs1 (cl_cnt c), cl_job := cl_job c + int (jobs_now e), cl_rand := s1\<rparr>"
  let ?m = "m(fte_path e \<mapsto> worked (job_numbers rs1) e)"
  have es: "x \<in> set es \<Longrightarrow> fte_path x \<noteq> fte_path e" for x using Cons.prems(3) by (auto simp: image_iff)
  have "\<forall>x \<in> set es. ?m (fte_path x) = Some x \<and> askable (cl_cnt ?c) x"
    using Cons.prems(4) es by (auto simp: askable_def)
  moreover have "1 \<le> cl_job ?c" "holds (cl_ft ?c) ?m" "distinct (map fte_path es)" using Cons.prems(1,3) 1(2) by simp_all
  ultimately obtain ft2 rs2 s2 where 2: "foldE (work_on h) (map Some es) ?c
        = Inr (?c\<lparr>cl_ft := ft2, cl_cnt := with_requests rs2 (cl_cnt ?c), cl_job := cl_job ?c + int (length rs2), cl_rand := s2\<rparr>)"
      "holds ft2 (\<lambda>k. map_option (\<lambda>e. if e \<in> set es then worked (job_numbers (of_path k rs2)) e else e) (?m k))"
      "job_numbers rs2 = [cl_job ?c..cl_job ?c + int (length rs2) - 1]"
      "\<forall>r \<in> set rs2. kind (snd r) = CHUNK_REQUEST
          \<and> (\<exists>e \<in> set es. pm_path (snd r) = fte_path e \<and> fst r \<in> set (fte_chunks e ! nat (pm_chunk (snd r))))"
      "\<forall>e \<in> set es. map (\<lambda>r. pm_chunk (snd r)) (of_path (fte_path e) rs2) = take (jobs_now e) (fte_work_queue e)"
    using Cons.IH [of ?c ?m] by blast
  have p1: "of_path (fte_path e) rs1 = rs1" "path \<noteq> fte_path e \<Longrightarrow> of_path path rs1 = []" for path
    using r1(4) by (auto intro: of_path_all of_path_none)
  have p2: "of_path (fte_path e) rs2 = []" using 2(4) es by (intro of_path_none) fastforce
  have m': "(\<lambda>k. map_option (\<lambda>e. if e \<in> set es then worked (job_numbers (of_path k rs2)) e else e) (?m k))
      = (\<lambda>k. map_option (\<lambda>x. if x \<in> set (e # es) then worked (job_numbers (of_path k (rs1 @ rs2))) x else x) (m k))"
  proof
    fix k
    show "map_option (\<lambda>e. if e \<in> set es then worked (job_numbers (of_path k rs2)) e else e) (?m k)
      = map_option (\<lambda>x. if x \<in> set (e # es) then worked (job_numbers (of_path k (rs1 @ rs2))) x else x) (m k)"
    proof (cases "k = fte_path e")
      case True
      have "worked (job_numbers rs1) e \<notin> set es" using es [of "worked (job_numbers rs1) e"] by auto
      with True e(1) p1(1) p2 show ?thesis by simp
    next
      case False
      then have "x \<noteq> e" if "m k = Some x" for x using holds_path [OF Cons.prems(2) that] by auto
      with False p1(2) [of k] show ?thesis by (cases "m k") auto
    qed
  qed
  have "foldE (work_on h) (map Some (e # es)) c
      = Inr (c\<lparr>cl_ft := ft2, cl_cnt := with_requests (rs1 @ rs2) (cl_cnt c), cl_job := cl_job c + int (length (rs1 @ rs2)), cl_rand := s2\<rparr>)"
    using 1(1) 2(1) r1(3) by (simp add: algebra_simps)
  moreover have "job_numbers (rs1 @ rs2) = [cl_job c..cl_job c + int (length (rs1 @ rs2)) - 1]"
    using r1(2,3) 2(3) consecutive [of "cl_job c" "jobs_now e" "length rs2"] by simp
  moreover have "\<forall>r \<in> set (rs1 @ rs2). kind (snd r) = CHUNK_REQUEST
      \<and> (\<exists>x \<in> set (e # es). pm_path (snd r) = fte_path x \<and> fst r \<in> set (fte_chunks x ! nat (pm_chunk (snd r))))"
    using r1(4) 2(4) by (auto simp: ball_Un)
  moreover have "\<forall>x \<in> set (e # es). map (\<lambda>r. pm_chunk (snd r)) (of_path (fte_path x) (rs1 @ rs2)) = take (jobs_now x) (fte_work_queue x)"
    using r1(1) 2(5) p1 p2 es by auto
  ultimately show ?case using 2(2) unfolding m' by blast
qed

lemma work_on_first: "work_on h fte c = work_on h fte (c\<lparr>cl_job := 1\<rparr>)" if "cl_job c = 0"
  using that by (cases fte) (simp_all add: work_on_def entry_jobs_first)

lemma work_on_from:
  assumes "0 \<le> cl_job c" "holds (cl_ft c) m" "distinct (map fte_path es)" "\<forall>e \<in> set es. m (fte_path e) = Some e \<and> askable (cl_cnt c) e"
  shows "\<exists>ft rs j s. foldE (work_on h) (map Some es) c = Inr (c\<lparr>cl_ft := ft, cl_cnt := with_requests rs (cl_cnt c), cl_job := j, cl_rand := s\<rparr>)
      \<and> holds ft (\<lambda>k. map_option (\<lambda>e. if e \<in> set es then worked (job_numbers (of_path k rs)) e else e) (m k))
      \<and> distinct (job_numbers rs)
      \<and> (\<forall>r \<in> set rs. kind (snd r) = CHUNK_REQUEST
          \<and> (\<exists>e \<in> set es. pm_path (snd r) = fte_path e \<and> fst r \<in> set (fte_chunks e ! nat (pm_chunk (snd r)))))
      \<and> (\<forall>e \<in> set es. map (\<lambda>r. pm_chunk (snd r)) (of_path (fte_path e) rs) = take (jobs_now e) (fte_work_queue e))"
proof -
  define c1 where "c1 = (if cl_job c = 0 then c\<lparr>cl_job := 1\<rparr> else c)"
  have c1: "1 \<le> cl_job c1" "cl_ft c1 = cl_ft c" "cl_cnt c1 = cl_cnt c" "c1\<lparr>cl_ft := ft, cl_cnt := cnt, cl_job := j, cl_rand := s\<rparr>
      = c\<lparr>cl_ft := ft, cl_cnt := cnt, cl_job := j, cl_rand := s\<rparr>" for ft cnt j s
    using assms(1) by (simp_all add: c1_def)
  obtain ft rs s where r: "foldE (work_on h) (map Some es) c1
        = Inr (c1\<lparr>cl_ft := ft, cl_cnt := with_requests rs (cl_cnt c1), cl_job := cl_job c1 + int (length rs), cl_rand := s\<rparr>)"
      "holds ft (\<lambda>k. map_option (\<lambda>e. if e \<in> set es then worked (job_numbers (of_path k rs)) e else e) (m k))"
      "job_numbers rs = [cl_job c1..cl_job c1 + int (length rs) - 1]"
      "\<forall>r \<in> set rs. kind (snd r) = CHUNK_REQUEST
          \<and> (\<exists>e \<in> set es. pm_path (snd r) = fte_path e \<and> fst r \<in> set (fte_chunks e ! nat (pm_chunk (snd r))))"
      "\<forall>e \<in> set es. map (\<lambda>r. pm_chunk (snd r)) (of_path (fte_path e) rs) = take (jobs_now e) (fte_work_queue e)"
    using work_on_all [OF c1(1), of m es h] assms(2-4) unfolding c1(2,3) by blast
  have d: "distinct (job_numbers rs)" unfolding r(3) by simp
  show ?thesis
  proof (cases es)
    case Nil
    then have "rs = []" using r(4) by (cases rs) auto
    with r(2) Nil have "holds ft (\<lambda>k. map_option (\<lambda>e. e) (m k))" by simp
    then have "holds (cl_ft c) (\<lambda>k. map_option (\<lambda>e. if e \<in> set es then worked (job_numbers (of_path k [])) e else e) (m k))"
      using assms(2) Nil by (simp add: option.map_ident)
    with Nil show ?thesis by (intro exI [of _ "cl_ft c"] exI [of _ "[]"] exI [of _ "cl_job c"] exI [of _ "cl_rand c"]) simp
  next
    case (Cons e es')
    then have "foldE (work_on h) (map Some es) c = foldE (work_on h) (map Some es) c1"
      using work_on_first [of c h "Some e"] by (simp add: c1_def)
    also note r(1) [unfolded c1]
    finally show ?thesis using r(2,4,5) d by blast
  qed
qed

lemma check_work_ok:
  assumes "holds (cl_ft c) m" "0 \<le> cl_job c" "\<forall>e \<in> ran m. askable (cl_cnt c) e"
  shows "\<exists>ft rs j s. check_work_queue h c = Inr (c\<lparr>cl_ft := ft, cl_cnt := with_requests rs (cl_cnt c), cl_job := j, cl_rand := s\<rparr>)
    \<and> holds ft (\<lambda>path. map_option (worked (job_numbers (of_path path rs))) (m path))
    \<and> distinct (job_numbers rs)
    \<and> (\<forall>r \<in> set rs. kind (snd r) = CHUNK_REQUEST
        \<and> (\<exists>e. m (pm_path (snd r)) = Some e \<and> fst r \<in> set (fte_chunks e ! nat (pm_chunk (snd r)))))
    \<and> (\<forall>path e. m path = Some e \<longrightarrow> map (\<lambda>r. pm_chunk (snd r)) (of_path path rs) = take (jobs_now e) (fte_work_queue e))"
proof -
  let ?es = "map the (hashtable_items (cl_ft c))"
  have ok: "hashtable_ok (cl_ft c)" using assms(1) by (simp add: holds_def keyed_ok_def)
  have "x \<noteq> None" if "x \<in> set (hashtable_items (cl_ft c))" for x using that hashtable_items_some [OF ok] by blast
  then have items: "map Some ?es = hashtable_items (cl_ft c)" by (auto simp: comp_def intro!: map_idI)
  have es: "e \<in> set ?es \<longleftrightarrow> m (fte_path e) = Some e" for e
  proof
    assume "e \<in> set ?es"
    from holds_items [OF assms(1) this] obtain k where k: "m k = Some e" by (auto simp: ran_def)
    with holds_path [OF assms(1) k] show "m (fte_path e) = Some e" by simp
  next
    assume "m (fte_path e) = Some e"
    from holds_item [OF assms(1) this] show "e \<in> set ?es" by force
  qed
  have all: "\<forall>e \<in> set ?es. m (fte_path e) = Some e \<and> askable (cl_cnt c) e" using es assms(3) by (auto simp: ran_def)
  have run: "check_work_queue h c = foldE (work_on h) (map Some ?es) c"
    unfolding check_work_queue_def items work_on_def [abs_def] by (rule hashtable_loop [OF ok])
  obtain ft rs j s where r: "foldE (work_on h) (map Some ?es) c = Inr (c\<lparr>cl_ft := ft, cl_cnt := with_requests rs (cl_cnt c), cl_job := j, cl_rand := s\<rparr>)"
    "holds ft (\<lambda>k. map_option (\<lambda>e. if e \<in> set ?es then worked (job_numbers (of_path k rs)) e else e) (m k))"
    "distinct (job_numbers rs)"
    "\<forall>r \<in> set rs. kind (snd r) = CHUNK_REQUEST
        \<and> (\<exists>e \<in> set ?es. pm_path (snd r) = fte_path e \<and> fst r \<in> set (fte_chunks e ! nat (pm_chunk (snd r))))"
    "\<forall>e \<in> set ?es. map (\<lambda>r. pm_chunk (snd r)) (of_path (fte_path e) rs) = take (jobs_now e) (fte_work_queue e)"
    using work_on_from [OF assms(2,1) holds_distinct [OF assms(1)] all, of h] by blast
  have in_es: "e \<in> set ?es \<and> fte_path e = path" if "m path = Some e" for path e
    using that holds_path [OF assms(1) that] es by blast
  have "(\<lambda>k. map_option (\<lambda>e. if e \<in> set ?es then worked (job_numbers (of_path k rs)) e else e) (m k))
      = (\<lambda>path. map_option (worked (job_numbers (of_path path rs))) (m path))"
    using in_es by (auto simp: fun_eq_iff intro!: map_option_cong)
  with r(2) have "holds ft (\<lambda>path. map_option (worked (job_numbers (of_path path rs))) (m path))" by simp
  moreover have "\<forall>r \<in> set rs. kind (snd r) = CHUNK_REQUEST
        \<and> (\<exists>e. m (pm_path (snd r)) = Some e \<and> fst r \<in> set (fte_chunks e ! nat (pm_chunk (snd r))))"
    using r(4) all by metis
  moreover have "\<forall>path e. m path = Some e \<longrightarrow> map (\<lambda>r. pm_chunk (snd r)) (of_path path rs) = take (jobs_now e) (fte_work_queue e)"
    using r(5) in_es by metis
  ultimately show ?thesis using r(1,3) unfolding run by blast
qed

section \<open>A file fetched\<close>

text \<open>The answer to a request: the chunk's bytes under the request's number.\<close>

definition answer_to :: "byte list \<Rightarrow> peer_message \<Rightarrow> peer_message" where
  "answer_to bytes r = Answer (pm_path r) (pm_chunk r) (piece_of bytes (nat (pm_chunk r))) (pm_job r)"

lemma chunk_in_peer: "chunk_in h (chunk_of p r) c = chunk_in h (chunk_of i r) c"
  by (simp add: chunk_in_def chunk_of_def)

lemma foldE_map: "foldE f (map g xs) s = foldE (\<lambda>x. f (g x)) xs s"
  by (induction xs arbitrary: s) simp_all

lemma answers_served:
  assumes "\<forall>r \<in> set rs. pm_path (snd r) = path \<and> 0 \<le> pm_chunk (snd r)"
  shows "foldE (\<lambda>(p, r). chunk_in h (chunk_of p (answer_to bytes r))) rs c
    = foldE (\<lambda>a. chunk_in h (chunk_of i (served path bytes a))) (map (\<lambda>r. (nat (pm_chunk (snd r)), pm_job (snd r))) rs) c"
  using assms
proof (induction rs arbitrary: c)
  case Nil
  show ?case by simp
next
  case (Cons r rs)
  obtain p m where r: "r = (p, m)" by (cases r)
  have "answer_to bytes m = served path bytes (nat (pm_chunk m), pm_job m)"
    using Cons.prems r by (simp add: answer_to_def served_def)
  then have "chunk_in h (chunk_of p (answer_to bytes m)) c = chunk_in h (chunk_of i (served path bytes (nat (pm_chunk m), pm_job m))) c"
    using chunk_in_peer by metis
  moreover have "foldE (\<lambda>(p, r). chunk_in h (chunk_of p (answer_to bytes r))) rs
      = foldE (\<lambda>a. chunk_in h (chunk_of i (served path bytes a))) (map (\<lambda>r. (nat (pm_chunk (snd r)), pm_job (snd r))) rs)"
    using Cons by (simp add: fun_eq_iff)
  ultimately show ?case by (simp add: r)
qed

lemma answers_match:
  assumes "mset as = mset rs" "\<forall>r \<in> set rs. pm_path (snd r) = path"
    and "mset (map (\<lambda>r. pm_chunk (snd r)) rs) = mset (map int [0..<n])" "distinct (job_numbers rs)"
  shows "\<forall>r \<in> set as. pm_path (snd r) = path \<and> 0 \<le> pm_chunk (snd r)"
    "distinct (map (\<lambda>r. nat (pm_chunk (snd r))) as)" "(\<lambda>r. nat (pm_chunk (snd r))) ` set as = {..<n}"
    "distinct (map (\<lambda>r. pm_job (snd r)) as)" "(\<lambda>r. pm_job (snd r)) ` set as \<subseteq> set (job_numbers rs)"
proof -
  have m: "mset (map g as) = mset (map g rs)" for g using assms(1) by simp
  have c: "mset (map (\<lambda>r. pm_chunk (snd r)) as) = mset (map int [0..<n])" using m [of "\<lambda>r. pm_chunk (snd r)"] assms(3) by simp
  then have "mset (map nat (map (\<lambda>r. pm_chunk (snd r)) as)) = mset (map nat (map int [0..<n]))" unfolding mset_map by (rule arg_cong)
  then have n: "mset (map (\<lambda>r. nat (pm_chunk (snd r))) as) = mset [0..<n]" by (simp add: comp_def)
  show "distinct (map (\<lambda>r. nat (pm_chunk (snd r))) as)" using mset_eq_imp_distinct_iff [OF n] by simp
  show "(\<lambda>r. nat (pm_chunk (snd r))) ` set as = {..<n}" using mset_eq_setD [OF n] by (simp add: lessThan_atLeast0)
  show "distinct (map (\<lambda>r. pm_job (snd r)) as)"
    using mset_eq_imp_distinct_iff [OF m [of "\<lambda>r. pm_job (snd r)"]] assms(4) by (simp add: job_numbers_def)
  show "(\<lambda>r. pm_job (snd r)) ` set as \<subseteq> set (job_numbers rs)"
    using mset_eq_setD [OF assms(1)] by (simp add: job_numbers_def)
  have "set (map (\<lambda>r. pm_chunk (snd r)) as) = int ` {..<n}" using mset_eq_setD [OF c] by (simp add: lessThan_atLeast0)
  then have "0 \<le> pm_chunk (snd r)" if "r \<in> set as" for r using that by (force simp: image_iff)
  then show "\<forall>r \<in> set as. pm_path (snd r) = path \<and> 0 \<le> pm_chunk (snd r)"
    using assms(2) mset_eq_setD [OF assms(1)] by simp
qed

lemma answers_in:
  assumes "can_read h c" "is_cstring path" "length bytes mod 500000 \<noteq> 0" "fetching path bytes time {} (set (job_numbers rs)) c"
    and "\<forall>r \<in> set rs. pm_path (snd r) = path" "distinct (job_numbers rs)"
    and "mset (map (\<lambda>r. pm_chunk (snd r)) rs) = mset (map int [0..<chunk_count (length bytes)])" "mset as = mset rs"
  shows "\<exists>c'. foldE (\<lambda>(p, r). chunk_in h (chunk_of p (answer_to bytes r))) as c = Inr c'
    \<and> cl_disk c' = h_write h (cl_dartsync_dir c @ path, bytes, time) (cl_disk c) \<and> fetched path c'"
proof -
  let ?f = "\<lambda>r. (nat (pm_chunk (snd r)), pm_job (snd r))"
  note a = answers_match [OF assms(8,5,7,6)]
  have "chunk_count (length bytes) \<noteq> 0" using assms(3) by (simp add: chunk_count_def)
  then have "map ?f as \<noteq> []" using a(3) by auto
  moreover have "distinct (map fst (map ?f as))" "distinct (map snd (map ?f as))" using a(2,4) by (simp_all add: comp_def)
  moreover have "fst ` set (map ?f as) = {..<chunk_count (length bytes)}" "snd ` set (map ?f as) \<subseteq> set (job_numbers rs)"
    using a(3,5) by (simp_all add: image_image)
  ultimately obtain c' where "foldE (\<lambda>a. chunk_in h (answer 0 path bytes a)) (map ?f as) c = Inr c'"
    "cl_disk c' = h_write h (cl_dartsync_dir c @ path, bytes, time) (cl_disk c)" "fetched path c'"
    using chunks_in [OF assms(2,3,1,4), of "map ?f as" 0] by auto
  then show ?thesis using answers_served [OF a(1), of h bytes c 0] by (simp add: answer_is served_def)
qed

lemma answers_fetch:
  assumes "can_read h c" "is_cstring path" "length bytes mod 500000 \<noteq> 0" "chunk_count (length bytes) \<le> 15"
    and "holds (cl_ft c) (\<lambda>path. map_option (worked (job_numbers (of_path path rs))) (m path))" "distinct (job_numbers rs)"
    and "\<forall>path e. m path = Some e \<longrightarrow> map (\<lambda>r. pm_chunk (snd r)) (of_path path rs) = take (jobs_now e) (fte_work_queue e)"
    and "m path = Some e" "fte_file e = Some (chunkyfile_new_for_writing_to_path (cl_dartsync_dir c @ path) (int (length bytes)) time)"
    and "mset (fte_work_queue e) = mset (map int [0..<chunk_count (length bytes)])" "fte_outstanding_requests e = []"
  shows "mset (map (\<lambda>r. pm_chunk (snd r)) (of_path path rs)) = mset (map int [0..<chunk_count (length bytes)])
    \<and> (\<forall>as. mset as = mset (of_path path rs) \<longrightarrow>
        (\<exists>c'. foldE (\<lambda>(p, r). chunk_in h (chunk_of p (answer_to bytes r))) as c = Inr c'
          \<and> cl_disk c' = h_write h (cl_dartsync_dir c @ path, bytes, time) (cl_disk c)
          \<and> filetable_get_chunkyfile (cl_ft c') path = Inr None))"
proof -
  let ?rs = "of_path path rs"
  have "length (fte_work_queue e) = chunk_count (length bytes)" using mset_eq_length [OF assms(10)] by simp
  then have "jobs_now e = length (fte_work_queue e)" using assms(4,11) by (simp add: jobs_now_def)
  then have chunks: "mset (map (\<lambda>r. pm_chunk (snd r)) ?rs) = mset (map int [0..<chunk_count (length bytes)])" using assms(7,8,10) by simp
  have jobs: "distinct (job_numbers ?rs)" using assms(6) by (simp add: job_numbers_def of_path_def distinct_map_filter)
  have paths: "\<forall>r \<in> set ?rs. pm_path (snd r) = path" by (simp add: of_path_def)
  have f: "fetching path bytes time {} (set (job_numbers ?rs)) c"
    unfolding fetching_def
    by (intro exI [of _ "\<lambda>path. map_option (worked (job_numbers (of_path path rs))) (m path)"] exI [of _ "worked (job_numbers ?rs) e"]
        exI [of _ "chunkyfile_new_for_writing_to_path (cl_dartsync_dir c @ path) (int (length bytes)) time"])
      (use assms(5,8,9) written_ok_new [of "cl_dartsync_dir c @ path" time bytes] in \<open>simp add: worked_def\<close>)
  have "\<exists>c'. foldE (\<lambda>(p, r). chunk_in h (chunk_of p (answer_to bytes r))) as c = Inr c'
      \<and> cl_disk c' = h_write h (cl_dartsync_dir c @ path, bytes, time) (cl_disk c)
      \<and> filetable_get_chunkyfile (cl_ft c') path = Inr None"
    if "mset as = mset ?rs" for as
    using answers_in [OF assms(1-3) f paths jobs chunks that] by (auto simp: fetched_def get_file)
  with chunks show ?thesis by blast
qed

section \<open>Properties\<close>


definition two_chunks :: fileentry where
  "two_chunks = \<lparr>fte_path = [47, 97], fte_file = Some (chunkyfile_new_for_writing_to_path [47, 100, 47, 97] 500001 42),
     fte_chunks = [[5], [5]], fte_work_queue = [1, 0], fte_outstanding_requests = []\<rparr>"

definition two_chunks_table :: filetable where
  "two_chunks_table = (case hashtable_add filetable_new (Some two_chunks) of Inl e \<Rightarrow> filetable_new | Inr ft \<Rightarrow> ft)"

lemma two_chunks_table: "holds two_chunks_table [[47, 97] \<mapsto> two_chunks]"
proof -
  have p: "fte_path two_chunks = [47, 97]" by (simp add: two_chunks_def)
  obtain ft where "hashtable_add filetable_new (Some two_chunks) = Inr ft" "holds ft [[47, 97] \<mapsto> two_chunks]"
    using holds_add [OF holds_new, of two_chunks] unfolding p by auto
  then show ?thesis by (simp add: two_chunks_table_def)
qed

lemma two_chunks_askable: "\<forall>e \<in> ran [[47, 97] \<mapsto> two_chunks]. askable (cl_cnt (client_with d ft)) e"
  using client_with_peer by (auto simp: askable_def two_chunks_def has_holders_def numeral_2_eq_2)


text \<open>A file of at most 15 chunks, of a size that is no multiple of 500000, that is opened for download with all its
  chunks in work is fetched: one pass over the work asks holders for every chunk, and in whatever order the answers
  of these peers come, after the last one the disk has the file with the bytes and the time of the original,
  written once, and the file is no longer under way.\<close>

theorem file_fetched:
  assumes "can_read h c" "is_cstring path" "length bytes mod 500000 \<noteq> 0" "chunk_count (length bytes) \<le> 15"
    and "holds (cl_ft c) m" "0 \<le> cl_job c" "\<forall>e \<in> ran m. askable (cl_cnt c) e" "m path = Some e"
    and "fte_file e = Some (chunkyfile_new_for_writing_to_path (cl_dartsync_dir c @ path) (int (length bytes)) time)"
    and "mset (fte_work_queue e) = mset (map int [0..<chunk_count (length bytes)])" "fte_outstanding_requests e = []"
  shows "\<exists>c' rs. check_work_queue h c = Inr c' \<and> cl_cnt c' = with_requests rs (cl_cnt c)
    \<and> (\<forall>as. mset as = mset (of_path path rs) \<longrightarrow>
        (\<exists>c''. foldE (\<lambda>(p, r). chunk_in h (chunk_of p (answer_to bytes r))) as c' = Inr c''
          \<and> cl_disk c'' = h_write h (cl_dartsync_dir c @ path, bytes, time) (cl_disk c)
          \<and> filetable_get_chunkyfile (cl_ft c'') path = Inr None))"
proof -
  obtain ft rs j s where r: "check_work_queue h c = Inr (c\<lparr>cl_ft := ft, cl_cnt := with_requests rs (cl_cnt c), cl_job := j, cl_rand := s\<rparr>)"
    "holds ft (\<lambda>path. map_option (worked (job_numbers (of_path path rs))) (m path))" "distinct (job_numbers rs)"
    "\<forall>path e. m path = Some e \<longrightarrow> map (\<lambda>r. pm_chunk (snd r)) (of_path path rs) = take (jobs_now e) (fte_work_queue e)"
    using check_work_ok [OF assms(5-7), of h] by blast
  let ?c = "c\<lparr>cl_ft := ft, cl_cnt := with_requests rs (cl_cnt c), cl_job := j, cl_rand := s\<rparr>"
  have "can_read h ?c" "holds (cl_ft ?c) (\<lambda>path. map_option (worked (job_numbers (of_path path rs))) (m path))"
    "fte_file e = Some (chunkyfile_new_for_writing_to_path (cl_dartsync_dir ?c @ path) (int (length bytes)) time)"
    using assms(1,9) r(2) by (simp_all add: can_read_def)
  from answers_fetch [OF this(1) assms(2-4) this(2) r(3,4) assms(8) this(3) assms(10,11)] r(1)
  show ?thesis by (intro exI [of _ ?c] exI [of _ rs]) simp
qed

theorem file_fetched_witness:
  "\<exists>c' c'' rs. check_work_queue log_host (client_with [] two_chunks_table) = Inr c' \<and> cl_cnt c' = with_requests rs idle_cnt
    \<and> foldE (\<lambda>(p, r). chunk_in log_host (chunk_of p (answer_to (replicate 500001 1) r))) (rev (of_path [47, 97] rs)) c' = Inr c''
    \<and> cl_disk c'' = [([47, 100, 47, 97], replicate 500001 1, 42)]"
proof -
  let ?c = "client_with [] two_chunks_table" and ?b = "replicate 500001 (1 :: byte)"
  have a: "holds (cl_ft ?c) [[47, 97] \<mapsto> two_chunks]" "0 \<le> cl_job ?c" using two_chunks_table by (simp_all add: client_with_def)
  have n: "length ?b = 500001" by (rule length_replicate)
  have k: "chunk_count (length ?b) = 2" unfolding n by (simp add: chunk_count_def numeral_2_eq_2)
  have dir: "cl_dartsync_dir ?c @ [47, 97] = [47, 100, 47, 97]" "cl_disk ?c = []" "cl_cnt ?c = idle_cnt" by (simp_all add: client_with_def)
  have b: "is_cstring [47, 97]" "length ?b mod 500000 \<noteq> 0" "chunk_count (length ?b) \<le> 15" unfolding k by (simp_all add: n is_cstring_def)
  have e: "[[47, 97] \<mapsto> two_chunks] [47, 97] = Some two_chunks"
    "fte_file two_chunks = Some (chunkyfile_new_for_writing_to_path (cl_dartsync_dir ?c @ [47, 97]) (int (length ?b)) 42)"
    "mset (fte_work_queue two_chunks) = mset (map int [0..<chunk_count (length ?b)])" "fte_outstanding_requests two_chunks = []"
    unfolding dir n by (simp_all add: two_chunks_def chunk_count_def)
  from file_fetched [OF client_with_reads b a two_chunks_askable e] obtain c' rs where
    r: "check_work_queue log_host ?c = Inr c'" "cl_cnt c' = with_requests rs idle_cnt"
      "\<forall>as. mset as = mset (of_path [47, 97] rs) \<longrightarrow>
        (\<exists>c''. foldE (\<lambda>(p, r). chunk_in log_host (chunk_of p (answer_to ?b r))) as c' = Inr c''
          \<and> cl_disk c'' = h_write log_host ([47, 100, 47, 97], ?b, 42) []
          \<and> filetable_get_chunkyfile (cl_ft c'') [47, 97] = Inr None)"
    unfolding dir by blast
  have "h_write log_host ([47, 100, 47, 97], ?b, 42) [] = [([47, 100, 47, 97], ?b, 42)]" by (simp add: log_host_def del: replicate.simps)
  with r(1,2) r(3) [THEN spec, of "rev (of_path [47, 97] rs)"] show ?thesis by (metis mset_rev)
qed

end
