(* ===== verification/ClientSync.thy ===== *)
theory ClientSync
  imports ClientWork
begin

text \<open>
  A client's local changes: two looks at a disk that has settled report every difference to the tracker,
  once, and the client's own tree and table follow.
\<close>

section \<open>Looks at the disk\<close>

lemma check_empty:
  assumes "fs_root_path fs \<noteq> None"
  shows "CheckFileSystem fs = Inr (if entries (fs_root fs) = {} then -1 else 1)"
proof -
  obtain r where r: "fs_root_path fs = Some r" using assms by blast
  have "listing False (fs_root fs) = [] \<longleftrightarrow> entries (fs_root fs) = {}" using set_listing [of False "fs_root fs"] by auto
  then show ?thesis
    by (auto simp: CheckFileSystem_def filesystemiterator_new_def r folder_first_listing filesystemiterator_next_def split: list.splits)
qed

lemma diff_roots: "filesystem_diff old new = (adds, dels) \<Longrightarrow> fs_root_path adds = fs_root_path new \<and> fs_root_path dels = fs_root_path old"
  by (auto simp: filesystem_diff_def filesystem_diff_helper_def filesystem_minus_equals_diff_def Let_def)

lemma tracked_none: "entries (fs_root fs) = {} \<Longrightarrow> tracked fs = {}"
  by (simp add: tracked_def)

text \<open>What the second of two equal looks does.\<close>

definition local_report :: "('d, 's) host \<Rightarrow> filesystem \<Rightarrow> ('d, 's) client \<Rightarrow> ('d, 's) client outcome" where
  "local_report h new_fs c = (let (adds, dels) = filesystem_diff (cl_cur_fs c) new_fs in
          bindE (CheckFileSystem adds) (\<lambda>any_adds.
          bindE (CheckFileSystem dels) (\<lambda>any_dels.
          if any_adds = 1 \<or> any_dels = 1 then
            let cnt = snd (send_updated_files (cl_cnt c) (Some adds) (Some dels)) in
            bindE (filetable_remove_filesystem (h_stale h) (cl_ft c) dels) (\<lambda>ft.
            bindE (filetable_add_filesystem (h_stale h) (h_rand h) (ft, cl_rand c) adds myID False) (\<lambda>(ft, s).
              Inr (c\<lparr>cl_cnt := cnt, cl_ft := ft, cl_rand := s, cl_cur_fs := new_fs\<rparr>)))
          else Inr c)))"

definition settled :: "filesystem \<Rightarrow> ('d, 's) client \<Rightarrow> bool" where
  "settled new_fs c \<longleftrightarrow> (\<exists>prev_fs. cl_prev_fs c = Some prev_fs \<and> filesystem_equals prev_fs new_fs)"

lemma look:
  assumes "read_disk h c = Inr new_fs" "microseconds_between (cl_prev_time c) now \<ge> 5000000"
  shows "CheckLocalFilesystem h now c = (if settled new_fs c then local_report h new_fs (c\<lparr>cl_prev_time := now\<rparr>)
    else Inr (c\<lparr>cl_prev_time := now, cl_prev_fs := Some new_fs\<rparr>))"
proof -
  have "read_disk h (c\<lparr>cl_prev_time := now\<rparr>) = Inr new_fs" using assms(1) by (simp add: read_disk_def)
  with assms(2) show ?thesis
    by (cases "cl_prev_fs c") (simp_all add: CheckLocalFilesystem_def local_report_def settled_def not_less [symmetric] Let_def)
qed

text \<open>The table after a difference: entries of files removed are gone, those of files added are fresh.\<close>

definition follows :: "int \<Rightarrow> bool \<Rightarrow> filesystem \<Rightarrow> filesystem \<Rightarrow> (cstring \<rightharpoonup> fileentry) \<Rightarrow> (cstring \<rightharpoonup> fileentry) \<Rightarrow> bool" where
  "follows peer needs_data adds dels m m' \<longleftrightarrow> (\<forall>path.
     if path \<in> fst ` tracked adds then \<exists>len e. (path, len) \<in> tracked adds \<and> m' path = Some e \<and> fresh peer needs_data path len e
     else m' path = (if path \<in> fst ` tracked dels then None else m path))"

lemma table_follows:
  assumes "holds ft m"
  shows "\<exists>ft1 ft2 s' m'. filetable_remove_filesystem True ft dels = Inr ft1
    \<and> filetable_add_filesystem True rnd (ft1, s) adds peer needs_data = Inr (ft2, s') \<and> holds ft2 m' \<and> follows peer needs_data adds dels m m'"
proof -
  obtain ft1 where 1: "filetable_remove_filesystem True ft dels = Inr ft1"
    "holds ft1 (\<lambda>path. if path \<in> fst ` tracked dels then None else m path)"
    using filetable_both [OF assms, THEN conjunct2] by blast
  obtain ft2 s' m' where "filetable_add_filesystem True rnd (ft1, s) adds peer needs_data = Inr (ft2, s')" "holds ft2 m'"
      "\<forall>path. if path \<in> fst ` tracked adds
         then \<exists>len e. (path, len) \<in> tracked adds \<and> m' path = Some e \<and> fresh peer needs_data path len e
         else m' path = (if path \<in> fst ` tracked dels then None else m path)"
    using filetable_both [OF 1(2), of rnd s adds peer needs_data, THEN conjunct1] by blast
  with 1(1) show ?thesis unfolding follows_def by blast
qed

definition reported :: "filesystem \<Rightarrow> filesystem \<Rightarrow> cnt \<Rightarrow> cnt" where
  "reported old new cnt = (if entries (fs_root old) = entries (fs_root new) then cnt
     else cnt\<lparr>ME_2_TKR_UPDATED_FILE_DIFF := ME_2_TKR_UPDATED_FILE_DIFF cnt @ [client_item (update_data (filesystem_diff old new))]\<rparr>)"

lemma local_report_ok:
  assumes "holds (cl_ft c) m" "h_stale h" "uniq (fs_root (cl_cur_fs c))" "uniq (fs_root new)"
    and "fs_root_path (cl_cur_fs c) \<noteq> None" "fs_root_path new \<noteq> None" "filesystem_diff (cl_cur_fs c) new = (adds, dels)"
  shows "\<exists>ft s m' cur. local_report h new c = Inr (c\<lparr>cl_cnt := reported (cl_cur_fs c) new (cl_cnt c), cl_ft := ft, cl_rand := s, cl_cur_fs := cur\<rparr>)
    \<and> holds ft m' \<and> follows myID False adds dels m m' \<and> entries (fs_root cur) = entries (fs_root new)
    \<and> uniq (fs_root cur) \<and> fs_root_path cur \<noteq> None"
proof -
  note d = diff_entries [OF assms(3,4,7)]
  have r: "fs_root_path adds \<noteq> None" "fs_root_path dels \<noteq> None" using diff_roots [OF assms(7)] assms(5,6) by simp_all
  show ?thesis
  proof (cases "entries (fs_root (cl_cur_fs c)) = entries (fs_root new)")
    case True
    then have e: "entries (fs_root adds) = {}" "entries (fs_root dels) = {}" using d by simp_all
    then have "follows myID False adds dels m m" by (simp add: follows_def tracked_none)
    moreover have "local_report h new c = Inr (c\<lparr>cl_cnt := reported (cl_cur_fs c) new (cl_cnt c), cl_ft := cl_ft c, cl_rand := cl_rand c, cl_cur_fs := cl_cur_fs c\<rparr>)"
      using check_empty [OF r(1)] check_empty [OF r(2)] e True by (simp add: local_report_def assms(7) reported_def)
    ultimately show ?thesis using assms(1,3,5) True by blast
  next
    case False
    then have e: "entries (fs_root adds) \<noteq> {} \<or> entries (fs_root dels) \<noteq> {}" using d by auto
    obtain ft1 ft2 s' m' where t: "filetable_remove_filesystem True (cl_ft c) dels = Inr ft1"
      "filetable_add_filesystem True (h_rand h) (ft1, cl_rand c) adds myID False = Inr (ft2, s')" "holds ft2 m'" "follows myID False adds dels m m'"
      using table_follows [OF assms(1), of dels "h_rand h" "cl_rand c" adds myID False] by blast
    have "snd (send_updated_files (cl_cnt c) (Some adds) (Some dels)) = reported (cl_cur_fs c) new (cl_cnt c)"
      using False by (simp add: reported_def send_updated_files_def serialize_fs update_data_def assms(7))
    then have "local_report h new c = Inr (c\<lparr>cl_cnt := reported (cl_cur_fs c) new (cl_cnt c), cl_ft := ft2, cl_rand := s', cl_cur_fs := new\<rparr>)"
      using check_empty [OF r(1)] check_empty [OF r(2)] e t(1,2) assms(2) by (auto simp: local_report_def assms(7) Let_def)
    with t(3,4) assms(4,6) show ?thesis by blast
  qed
qed

lemma follows_none: "follows peer needs_data adds dels m m' \<Longrightarrow> entries (fs_root adds) = {} \<Longrightarrow> entries (fs_root dels) = {} \<Longrightarrow> m' = m"
  by (simp add: follows_def tracked_none fun_eq_iff)

lemma read_disk_frame: "cl_disk c' = cl_disk c \<Longrightarrow> cl_dartsync_dir c' = cl_dartsync_dir c \<Longrightarrow> read_disk h c' = read_disk h c"
  by (simp add: read_disk_def)

lemma two_looks:
  assumes "holds (cl_ft c) m" "h_stale h" "uniq (fs_root (cl_cur_fs c))" "fs_root_path (cl_cur_fs c) \<noteq> None"
    and "read_disk h c = Inr new" "wf_folder (fs_root new)" "fs_root_path new \<noteq> None"
    and "5000000 \<le> microseconds_between (cl_prev_time c) t1" "5000000 \<le> microseconds_between t1 t2"
    and "filesystem_diff (cl_cur_fs c) new = (adds, dels)"
  shows "\<exists>c' m'. bindE (CheckLocalFilesystem h t1 c) (CheckLocalFilesystem h t2) = Inr c'
    \<and> cl_cnt c' = reported (cl_cur_fs c) new (cl_cnt c) \<and> entries (fs_root (cl_cur_fs c')) = entries (fs_root new)
    \<and> holds (cl_ft c') m' \<and> follows myID False adds dels m m'"
proof -
  have u: "uniq (fs_root new)" by (rule wf_uniq [OF assms(6)])
  note first = look [OF assms(5,8)]
  show ?thesis
  proof (cases "settled new c")
    case True
    let ?c = "c\<lparr>cl_prev_time := t1\<rparr>"
    have "holds (cl_ft ?c) m" "uniq (fs_root (cl_cur_fs ?c))" "fs_root_path (cl_cur_fs ?c) \<noteq> None" "filesystem_diff (cl_cur_fs ?c) new = (adds, dels)"
      using assms(1,3,4,10) by simp_all
    from local_report_ok [OF this(1) assms(2) this(2) u this(3) assms(7) this(4)] obtain ft s m1 cur where
      1: "local_report h new ?c = Inr (?c\<lparr>cl_cnt := reported (cl_cur_fs c) new (cl_cnt c), cl_ft := ft, cl_rand := s, cl_cur_fs := cur\<rparr>)"
        "holds ft m1" "follows myID False adds dels m m1" "entries (fs_root cur) = entries (fs_root new)" "uniq (fs_root cur)" "fs_root_path cur \<noteq> None"
      by auto
    let ?d = "?c\<lparr>cl_cnt := reported (cl_cur_fs c) new (cl_cnt c), cl_ft := ft, cl_rand := s, cl_cur_fs := cur\<rparr>"
    obtain a d where ad: "filesystem_diff cur new = (a, d)" by fastforce
    have none: "entries (fs_root a) = {}" "entries (fs_root d) = {}" using diff_entries [OF 1(5) u ad] 1(4) by simp_all
    have "read_disk h ?d = Inr new" using assms(5) by (simp add: read_disk_def)
    moreover have "5000000 \<le> microseconds_between (cl_prev_time ?d) t2" using assms(9) by simp
    moreover have "settled new ?d" using True by (simp add: settled_def)
    ultimately have second: "CheckLocalFilesystem h t2 ?d = local_report h new (?d\<lparr>cl_prev_time := t2\<rparr>)" using look by metis
    obtain ft2 s2 m2 cur2 where 2: "local_report h new (?d\<lparr>cl_prev_time := t2\<rparr>)
        = Inr (?d\<lparr>cl_prev_time := t2, cl_cnt := reported cur new (reported (cl_cur_fs c) new (cl_cnt c)), cl_ft := ft2, cl_rand := s2, cl_cur_fs := cur2\<rparr>)"
      "holds ft2 m2" "follows myID False a d m1 m2" "entries (fs_root cur2) = entries (fs_root new)"
      using local_report_ok [of "?d\<lparr>cl_prev_time := t2\<rparr>" m1 h new a d] 1(2,5,6) assms(2,7) u ad by auto
    have "m2 = m1" by (rule follows_none [OF 2(3) none])
    moreover have "reported cur new (reported (cl_cur_fs c) new (cl_cnt c)) = reported (cl_cur_fs c) new (cl_cnt c)"
      using 1(4) by (simp add: reported_def)
    ultimately show ?thesis using first True 1(1,3) second 2(1,2,4) by (simp, intro exI [of _ m1]) simp
  next
    case False
    let ?d = "c\<lparr>cl_prev_time := t1, cl_prev_fs := Some new\<rparr>"
    have "read_disk h ?d = Inr new" using assms(5) by (simp add: read_disk_def)
    moreover have "5000000 \<le> microseconds_between (cl_prev_time ?d) t2" using assms(9) by simp
    moreover have "settled new ?d" using equals_entries [OF assms(6,6)] by (simp add: settled_def)
    ultimately have second: "CheckLocalFilesystem h t2 ?d = local_report h new (?d\<lparr>cl_prev_time := t2\<rparr>)" using look by metis
    obtain ft s m1 cur where 1: "local_report h new (?d\<lparr>cl_prev_time := t2\<rparr>)
        = Inr (?d\<lparr>cl_prev_time := t2, cl_cnt := reported (cl_cur_fs c) new (cl_cnt c), cl_ft := ft, cl_rand := s, cl_cur_fs := cur\<rparr>)"
      "holds ft m1" "follows myID False adds dels m m1" "entries (fs_root cur) = entries (fs_root new)"
      using local_report_ok [of "?d\<lparr>cl_prev_time := t2\<rparr>" m h new adds dels] assms(1-4,7,10) u by auto
    then show ?thesis using first False second by auto
  qed
qed

section \<open>Properties\<close>



end
