(* ===== verification/ClientUpdate.thy ===== *)
theory ClientUpdate
  imports ClientSync
begin

text \<open>
  From an update to the disk: a client that receives a difference removes what it deletes, opens the new files, asks
  their author for all chunks, and writes each file when its chunks have come.
\<close>

section \<open>The deletions\<close>

definition removed_disk :: "('d, 's) host \<Rightarrow> filesystem \<Rightarrow> ('d, 's) client \<Rightarrow> 'd" where
  "removed_disk h dels c = fold (\<lambda>r d. snd (h_remove h (fst r) d)) (map (shown (cl_dartsync_dir c)) (listing True (fs_root dels))) (cl_disk c)"

lemma remove_each: "foldE (\<lambda>(path, len, mod_time) c. Inr (c\<lparr>cl_disk := snd (h_remove h path (cl_disk c))\<rparr>)) l c
    = Inr (c\<lparr>cl_disk := fold (\<lambda>r d. snd (h_remove h (fst r) d)) l (cl_disk c)\<rparr>)"
  by (induction l arbitrary: c) auto

lemma remove_deletions:
  assumes "can_read h c" "fs_root_path dels = Some (cl_dartsync_dir c)"
  shows "\<exists>fs. read_disk h (c\<lparr>cl_disk := removed_disk h dels c\<rparr>) = Inr fs
    \<and> RemoveFileDeletions h dels c = Inr (c\<lparr>cl_disk := removed_disk h dels c, cl_cur_fs := fs\<rparr>)"
proof -
  let ?c = "c\<lparr>cl_disk := removed_disk h dels c\<rparr>"
  let ?l = "map (render (cl_dartsync_dir c)) (listing True (fs_root dels))"
  have it: "filesystemiterator_new dels True = Inr \<lparr>fi_file_list = ?l, fi_prev_file = None\<rparr>"
    using assms(2) by (simp add: filesystemiterator_new_def file_first_listing)
  have "can_read h ?c" using assms(1) by (simp add: can_read_def)
  then obtain fs where fs: "reread h ?c = Inr (?c\<lparr>cl_cur_fs := fs\<rparr>)" using reread_ok by blast
  then have read: "\<exists>fs'. read_disk h ?c = Inr fs' \<and> ?c\<lparr>cl_cur_fs := fs'\<rparr> = ?c\<lparr>cl_cur_fs := fs\<rparr>"
    by (cases "read_disk h ?c") (simp_all add: reread_def)
  have "RemoveFileDeletions h dels c = reread h ?c"
    unfolding RemoveFileDeletions_def it bindE.simps fs_iterator.simps fs_while_all [OF lessI] map_map comp_def shown_render remove_each
    by (simp add: removed_disk_def)
  with fs read show ?thesis by auto
qed

section \<open>The additions\<close>

text \<open>The file for which an entry is opened.\<close>

definition opened_as :: "cstring \<Rightarrow> cstring \<times> int \<times> int \<Rightarrow> chunkyfile" where
  "opened_as dir r = (case r of (path, len, t) \<Rightarrow> chunkyfile_new_for_writing_to_path (dir @ path) len t)"

definition opens :: "cstring \<Rightarrow> (cstring \<times> int \<times> int) set \<Rightarrow> (cstring \<rightharpoonup> fileentry) \<Rightarrow> (cstring \<rightharpoonup> fileentry) \<Rightarrow> bool" where
  "opens dir rs m m' \<longleftrightarrow> (\<forall>path. (\<forall>len t. (path, len, t) \<in> rs \<longrightarrow> len = -1) \<longrightarrow> m' path = m path)
     \<and> (\<forall>path len t. (path, len, t) \<in> rs \<longrightarrow> len \<noteq> -1 \<longrightarrow>
          m' path = map_option (\<lambda>e. e\<lparr>fte_file := Some (opened_as dir (path, len, t))\<rparr>) (m path))"

definition open_one :: "('d, 's) host \<Rightarrow> cstring \<times> int \<times> int \<Rightarrow> ('d, 's) client \<Rightarrow> ('d, 's) client outcome" where
  "open_one h = expect_file h (\<lambda>chunky c.
       if chunkyfile_num_chunks chunky < 1
       then bindE (chunkyfile_write chunky) (\<lambda>w. Inr (c\<lparr>cl_disk := h_write h w (cl_disk c)\<rparr>))
       else Inr c)"

lemma writes_new: "\<exists>w. chunkyfile_write (chunkyfile_new_for_writing_to_path path len t) = Inr w"
  by (simp add: chunkyfile_write_def chunkyfile_new_for_writing_to_path_def)

lemma open_one_ok:
  assumes "can_read h c" "holds (cl_ft c) m"
  shows "\<exists>ft d m'. open_one h r c = Inr (c\<lparr>cl_ft := ft, cl_disk := d\<rparr>) \<and> holds ft m' \<and> opens (cl_dartsync_dir c) {r} m m'"
proof -
  obtain path len t where r: "r = (path, len, t)" by (cases r) auto
  note dir = expanded [OF assms(1), of path]
  show ?thesis
  proof (cases "len = -1")
    case True
    have "open_one h r c = Inr (c\<lparr>cl_ft := cl_ft c, cl_disk := snd (h_mkdir h (cl_dartsync_dir c @ path) (cl_disk c))\<rparr>)"
      by (simp add: open_one_def expect_file_def r True dir derefE_def)
    moreover have "opens (cl_dartsync_dir c) {r} m m" by (simp add: opens_def r True)
    ultimately show ?thesis using assms(2) by blast
  next
    case False
    let ?f = "chunkyfile_new_for_writing_to_path (cl_dartsync_dir c @ path) len t"
    obtain w where w: "chunkyfile_write ?f = Inr w" using writes_new by blast
    obtain ft where ft: "filetable_set_chunkyfile (cl_ft c) path (Some ?f) = Inr ft"
      "holds ft (m(path := map_option (\<lambda>e. e\<lparr>fte_file := Some ?f\<rparr>) (m path)))" using set_file_any [OF assms(2)] by blast
    have "open_one h r c = Inr (c\<lparr>cl_ft := ft, cl_disk := if chunkyfile_num_chunks ?f < 1 then h_write h w (cl_disk c) else cl_disk c\<rparr>)"
      using False by (simp add: open_one_def expect_file_def r dir derefE_def ft(1) w Let_def)
    moreover have "opens (cl_dartsync_dir c) {r} m (m(path := map_option (\<lambda>e. e\<lparr>fte_file := Some ?f\<rparr>) (m path)))"
      using False by (simp add: opens_def r opened_as_def)
    ultimately show ?thesis using ft(2) by blast
  qed
qed

lemma opens_trans:
  assumes "opens dir {r} m m1" "opens dir rs m1 m2" "inj_on fst (insert r rs)"
  shows "opens dir (insert r rs) m m2"
proof -
  obtain k l u where r: "r = (k, l, u)" by (cases r) auto
  have same: "(k, len, t) \<in> rs \<Longrightarrow> len = l \<and> t = u" for len t
    using inj_onD [OF assms(3), of "(k, len, t)" r] r by auto
  have "m2 path = m path" if "\<forall>len t. (path, len, t) \<in> insert r rs \<longrightarrow> len = -1" for path
    using that assms(1,2) unfolding opens_def r by (metis insertCI singletonD)
  moreover have "m2 path = map_option (\<lambda>e. e\<lparr>fte_file := Some (opened_as dir (path, len, t))\<rparr>) (m path)"
    if "(path, len, t) \<in> insert r rs" "len \<noteq> -1" for path len t
  proof (cases "path = k")
    case True
    then have e: "len = l" "t = u" using that(1) same r by auto
    have 1: "m1 k = map_option (\<lambda>e. e\<lparr>fte_file := Some (opened_as dir (k, l, u))\<rparr>) (m k)"
      using assms(1) that(2) e(1) by (simp add: opens_def r)
    show ?thesis
    proof (cases "(k, l, u) \<in> rs")
      case True
      then have "m2 k = map_option (\<lambda>e. e\<lparr>fte_file := Some (opened_as dir (k, l, u))\<rparr>) (m1 k)"
        using assms(2) that(2) e(1) by (simp add: opens_def)
      then show ?thesis using \<open>path = k\<close> e by (cases "m k") (simp_all add: 1)
    next
      case False
      then have "(k, len, t) \<notin> rs" for len t using same [of len t] by blast
      then have "m2 k = m1 k" using assms(2) by (simp add: opens_def)
      with 1 \<open>path = k\<close> e show ?thesis by simp
    qed
  next
    case False
    then have "m1 path = m path" using assms(1) by (simp add: opens_def r)
    moreover have "(path, len, t) \<in> rs" using that(1) False r by simp
    ultimately show ?thesis using assms(2) that(2) by (simp add: opens_def)
  qed
  ultimately show ?thesis unfolding opens_def by blast
qed

lemma open_all:
  "can_read h c \<Longrightarrow> holds (cl_ft c) m \<Longrightarrow> inj_on fst (set l) \<Longrightarrow>
    \<exists>ft d m'. foldE (open_one h) l c = Inr (c\<lparr>cl_ft := ft, cl_disk := d\<rparr>) \<and> holds ft m' \<and> opens (cl_dartsync_dir c) (set l) m m'"
proof (induction l arbitrary: c m)
  case Nil
  have "opens (cl_dartsync_dir c) {} m m" by (simp add: opens_def)
  with Nil show ?case by (intro exI [of _ "cl_ft c"] exI [of _ "cl_disk c"] exI [of _ m]) simp
next
  case (Cons r l)
  obtain ft1 d1 m1 where 1: "open_one h r c = Inr (c\<lparr>cl_ft := ft1, cl_disk := d1\<rparr>)" "holds ft1 m1" "opens (cl_dartsync_dir c) {r} m m1"
    using open_one_ok [OF Cons.prems(1,2)] by blast
  let ?c = "c\<lparr>cl_ft := ft1, cl_disk := d1\<rparr>"
  have "can_read h ?c" "holds (cl_ft ?c) m1" "inj_on fst (set l)"
    using Cons.prems 1(2) by (simp_all add: can_read_def inj_on_def)
  from Cons.IH [OF this] obtain ft d m' where 2: "foldE (open_one h) l ?c = Inr (?c\<lparr>cl_ft := ft, cl_disk := d\<rparr>)" "holds ft m'"
    "opens (cl_dartsync_dir c) (set l) m1 m'" by auto
  have "opens (cl_dartsync_dir c) (set (r # l)) m m'" using opens_trans [OF 1(3) 2(3)] Cons.prems(3) by simp
  with 1(1) 2(1,2) show ?case by (intro exI [of _ ft] exI [of _ d] exI [of _ m']) simp
qed

section \<open>The whole update\<close>

lemma additions_opened:
  assumes "can_read h c" "holds (cl_ft c) m" "inj_on fst (shown [] ` entries (fs_root adds))"
  shows "\<exists>ft d m'. GetFileAdditions h adds author c = Inr (c\<lparr>cl_ft := ft, cl_disk := d\<rparr>) \<and> holds ft m'
    \<and> opens (cl_dartsync_dir c) (shown [] ` entries (fs_root adds)) m m'"
proof -
  have l: "set (map (shown []) (listing False (fs_root adds))) = shown [] ` entries (fs_root adds)" by (simp add: set_listing)
  have "GetFileAdditions h adds author c = foldE (open_one h) (map (shown []) (listing False (fs_root adds))) c"
    unfolding GetFileAdditions_def open_one_def fs_each_listing ..
  with open_all [OF assms(1,2), of "map (shown []) (listing False (fs_root adds))"] assms(3) show ?thesis unfolding l by simp
qed

lemma diff_in_ok:
  assumes "can_read h c" "h_stale h" "holds (cl_ft c) m" "inj_on fst (shown [] ` entries (fs_root adds))"
    and "\<And>fs. read_disk h (c\<lparr>cl_disk := removed_disk h dels c\<rparr>) = Inr fs \<Longrightarrow>
      \<exists>r. filesystem_plus_equals (filesystem_minus_equals fs dels) adds = Inr r"
  shows "\<exists>ft s d fs m1 m2. diff_in h (adds, dels, author) c = Inr (c\<lparr>cl_ft := ft, cl_rand := s, cl_cur_fs := fs, cl_disk := d\<rparr>)
    \<and> read_disk h (c\<lparr>cl_disk := d\<rparr>) = Inr fs
    \<and> holds ft m2 \<and> follows author True adds dels m m1 \<and> opens (cl_dartsync_dir c) (shown [] ` entries (fs_root adds)) m1 m2"
proof -
  let ?adds = "filesystem_set_root_path adds (Some (cl_dartsync_dir c))" and ?dels = "filesystem_set_root_path dels (Some (cl_dartsync_dir c))"
  let ?d = "removed_disk h dels c"
  have root: "fs_root ?adds = fs_root adds" "fs_root ?dels = fs_root dels" "fs_root_path ?dels = Some (cl_dartsync_dir c)"
    by (simp_all add: filesystem_set_root_path_def)
  have d: "removed_disk h ?dels c = ?d" by (simp add: removed_disk_def root)
  obtain fs where fs: "read_disk h (c\<lparr>cl_disk := ?d\<rparr>) = Inr fs" "RemoveFileDeletions h ?dels c = Inr (c\<lparr>cl_disk := ?d, cl_cur_fs := fs\<rparr>)"
    using remove_deletions [OF assms(1) root(3)] unfolding d by blast
  obtain r where r: "filesystem_plus_equals (filesystem_minus_equals fs dels) adds = Inr r" using assms(5) [OF fs(1)] by blast
  have plus: "filesystem_plus_equals (filesystem_minus_equals fs ?dels) ?adds = Inr r"
    using r by (simp add: filesystem_plus_equals_def filesystem_minus_equals_def root)
  obtain ft1 ft2 s m1 where t: "filetable_remove_filesystem True (cl_ft c) ?dels = Inr ft1"
    "filetable_add_filesystem True (h_rand h) (ft1, cl_rand c) ?adds author True = Inr (ft2, s)" "holds ft2 m1" "follows author True ?adds ?dels m m1"
    using table_follows [OF assms(3), of ?dels "h_rand h" "cl_rand c" ?adds author True] by blast
  let ?c = "c\<lparr>cl_disk := ?d, cl_ft := ft2, cl_rand := s, cl_cur_fs := r\<rparr>"
  have c: "can_read h ?c" "holds (cl_ft ?c) m1" using assms(1) t(3) by (simp_all add: can_read_def)
  obtain ft3 d3 m2 where g: "GetFileAdditions h ?adds author ?c = Inr (?c\<lparr>cl_ft := ft3, cl_disk := d3\<rparr>)" "holds ft3 m2"
    "opens (cl_dartsync_dir ?c) (shown [] ` entries (fs_root ?adds)) m1 m2"
    using additions_opened [OF c, of ?adds author] assms(4) unfolding root by blast
  have "can_read h (?c\<lparr>cl_ft := ft3, cl_disk := d3\<rparr>)" using assms(1) by (simp add: can_read_def)
  then obtain fs3 where fs3: "reread h (?c\<lparr>cl_ft := ft3, cl_disk := d3\<rparr>) = Inr (?c\<lparr>cl_ft := ft3, cl_disk := d3, cl_cur_fs := fs3\<rparr>)"
    using reread_ok by blast
  then have read: "read_disk h (c\<lparr>cl_disk := d3\<rparr>) = Inr fs3"
    using read_disk_frame [of "?c\<lparr>cl_ft := ft3, cl_disk := d3\<rparr>" "c\<lparr>cl_disk := d3\<rparr>" h]
    by (cases "read_disk h (c\<lparr>cl_disk := d3\<rparr>)") (auto simp: reread_def dest: arg_cong [where f = cl_cur_fs])
  have "diff_in h (adds, dels, author) c = Inr (c\<lparr>cl_ft := ft3, cl_rand := s, cl_cur_fs := fs3, cl_disk := d3\<rparr>)"
  proof -
    have "?c\<lparr>cl_ft := ft3, cl_disk := d3, cl_cur_fs := fs3\<rparr> = c\<lparr>cl_ft := ft3, cl_rand := s, cl_cur_fs := fs3, cl_disk := d3\<rparr>" by (cases c) simp
    then show ?thesis using fs(2) plus t(1,2) g(1) fs3 assms(2) by (simp add: diff_in_def Let_def)
  qed
  moreover have "tracked ?adds = tracked adds" "tracked ?dels = tracked dels" unfolding tracked_def root by (rule refl)+
  then have "follows author True adds dels m m1" using t(4) unfolding follows_def by metis
  moreover have "opens (cl_dartsync_dir c) (shown [] ` entries (fs_root adds)) m1 m2" using g(3) unfolding root by simp
  ultimately show ?thesis using g(2) read by blast
qed

lemma askable_file [simp]: "askable cnt (e\<lparr>fte_file := f\<rparr>) = askable cnt e"
  by (simp add: askable_def has_holders_def)

lemma askable_fresh:
  assumes "fresh author needs_data path len e" "get_peer_by_id (c_peer_table cnt) author = Inr (Some q)"
  shows "askable cnt e"
proof -
  let ?n = "nat (num_chunks_for_size len)"
  have f: "fte_chunks e = replicate ?n [author]" "mset (fte_work_queue e) = (if needs_data then mset (map int [0..<?n]) else {#})"
    using assms(1) by (simp_all add: fresh_def Let_def)
  have in_work: "0 \<le> chunk \<and> chunk < int ?n" if "chunk \<in> set (fte_work_queue e)" for chunk
  proof -
    have "chunk \<in># mset (fte_work_queue e)" using that by simp
    then have "chunk \<in> set (map int [0..<?n])" unfolding f(2) by (cases needs_data) simp_all
    then show ?thesis by auto
  qed
  have "0 \<le> chunk \<and> chunk < int ?n \<and> fte_chunks e ! nat chunk = [author]" if "chunk \<in> set (fte_work_queue e)" for chunk
  proof -
    have c: "0 \<le> chunk" "chunk < int ?n" using in_work [OF that] by simp_all
    then have "nat chunk < ?n" using nat_less_iff [of chunk ?n] by blast
    with c show ?thesis unfolding f(1) by simp
  qed
  then show ?thesis using assms(2) by (simp add: askable_def has_holders_def f(1))
qed

lemma askable_after:
  assumes "follows author True adds dels m m1" "opens dir (shown [] ` entries (fs_root adds)) m1 m2"
    and "\<forall>e \<in> ran m. askable cnt e" "get_peer_by_id (c_peer_table cnt) author = Inr (Some q)"
  shows "\<forall>e \<in> ran m2. askable cnt e"
proof
  fix e assume "e \<in> ran m2"
  then obtain k where k: "m2 k = Some e" by (auto simp: ran_def)
  have "m2 k = m1 k \<or> (\<exists>f. m2 k = map_option (\<lambda>e. e\<lparr>fte_file := f\<rparr>) (m1 k))"
    using assms(2) unfolding opens_def by blast
  then have "\<exists>e1. m1 k = Some e1 \<and> askable cnt e = askable cnt e1"
  proof
    assume "m2 k = m1 k"
    with k have "m1 k = Some e" by metis
    then show ?thesis by blast
  next
    assume "\<exists>f. m2 k = map_option (\<lambda>e. e\<lparr>fte_file := f\<rparr>) (m1 k)"
    then obtain f where f: "m2 k = map_option (\<lambda>e. e\<lparr>fte_file := f\<rparr>) (m1 k)" by blast
    have "map_option (\<lambda>e. e\<lparr>fte_file := f\<rparr>) (m1 k) = Some e" unfolding f [symmetric] by (rule k)
    then show ?thesis by (cases "m1 k") auto
  qed
  then obtain e1 where e1: "m1 k = Some e1" "askable cnt e = askable cnt e1" by blast
  have "(\<exists>len. fresh author True k len e1) \<or> m k = Some e1"
    using assms(1) e1(1) unfolding follows_def by (metis option.discI option.inject)
  then show "askable cnt e" using askable_fresh assms(3,4) e1(2) by (auto simp: ran_def)
qed

text \<open>The entry of a new file after the difference is taken in: all its chunks in work, held by the author.\<close>

lemma update_entry:
  assumes "follows author True adds dels m m1" "opens root (shown [] ` entries (fs_root adds)) m1 m2"
    and "inj_on fst (shown [] ` entries (fs_root adds))" "(path, int n, time) \<in> shown [] ` entries (fs_root adds)"
  shows "\<exists>e. m2 path = Some e \<and> fte_file e = Some (chunkyfile_new_for_writing_to_path (root @ path) (int n) time)
    \<and> mset (fte_work_queue e) = mset (map int [0..<chunk_count n]) \<and> fte_outstanding_requests e = []
    \<and> fte_chunks e = replicate (chunk_count n) [author]"
proof -
  have "(path, int n) \<in> tracked adds" using assms(4) by (auto simp: tracked_def)
  then have "path \<in> fst ` tracked adds" by force
  then obtain len e1 where e1: "(path, len) \<in> tracked adds" "m1 path = Some e1" "fresh author True path len e1"
    using assms(1) unfolding follows_def by metis
  obtain t where "(path, len, t) \<in> shown [] ` entries (fs_root adds)" using e1(1) by (auto simp: tracked_def)
  then have len: "len = int n" using inj_onD [OF assms(3), of "(path, len, t)" "(path, int n, time)"] assms(4) by simp
  define e where "e = e1\<lparr>fte_file := Some (opened_as root (path, int n, time))\<rparr>"
  have "m2 path = Some e" "fte_file e = Some (chunkyfile_new_for_writing_to_path (root @ path) (int n) time)"
    using assms(2,4) e1(2) by (simp_all add: opens_def e_def opened_as_def)
  moreover have "mset (fte_work_queue e) = mset (map int [0..<chunk_count n])" "fte_outstanding_requests e = []"
    "fte_chunks e = replicate (chunk_count n) [author]"
    using e1(3) unfolding len by (simp_all add: fresh_def Let_def e_def num_chunks_nat)
  ultimately show ?thesis by blast
qed

section \<open>Properties\<close>


text \<open>Peer 5 adds the file \<open>a\<close> of 500001 bytes to an empty directory.\<close>

definition add_a :: filesystem where
  "add_a = \<lparr>fs_root_path = None, fs_root = Folder [] [file_new 500001 42 [97]] []\<rparr>"

definition no_changes :: filesystem where
  "no_changes = \<lparr>fs_root_path = None, fs_root = Folder [] [] []\<rparr>"


end
