(* ===== verification/TreePrint.thy ===== *)
theory TreePrint
  imports FileSysCodec
begin

text \<open>
  Directory trees as text: \<open>file_print\<close>, \<open>folder_print\<close> and \<open>filesystem_generate_string\<close>, \<open>_html\<close> of
  \<open>utility/FileSystem/FileSystem.c\<close>. The queue of characters is a list, as in the serializer; every
  line is made in a buffer of 4096 bytes with \<open>sprintf\<close>. The text has a line for every folder and every
  file, in depth-first order, that shows its depth and its name.
\<close>

section \<open>Printing into a buffer\<close>

definition bytes_of :: "string \<Rightarrow> cstring" where
  "bytes_of s = map of_char s"

text \<open>\<open>sprintf\<close> into a buffer of \<open>room\<close> bytes, which has to hold the text and a 0.\<close>

definition sprintf :: "nat \<Rightarrow> cstring \<Rightarrow> cstring outcome" where
  "sprintf room str = (if length str < room then Inr str else Inl OutOfBounds)"

text \<open>\<open>%-*s\<close> and \<open>%*lu\<close>: the width counts bytes.\<close>

definition pad_right :: "nat \<Rightarrow> cstring \<Rightarrow> cstring" where
  "pad_right width str = str @ replicate (width - length str) 32"

definition pad_left :: "nat \<Rightarrow> cstring \<Rightarrow> cstring" where
  "pad_left width str = replicate (width - length str) 32 @ str"

text \<open>\<open>push_string\<close> with the 0 taken off again by \<open>queue_spop\<close>.\<close>

definition push_text :: "byte list \<Rightarrow> cstring \<Rightarrow> byte list" where
  "push_text queue str = butlast (push_string queue str)"

section \<open>Lines for files and folders\<close>

text \<open>The macro takes \<open>log10\<close>; of a negative number that is no number, which becomes the least \<open>int\<close>.\<close>

definition numDigits :: "int \<Rightarrow> int" where
  "numDigits a = (if a = 0 then 1 else if a < 0 then - 2147483648 else int (length (print_nat (nat a))))"

declare bindE_cong [fundef_cong]

text \<open>\<open>ctime\<close> is the environment's; its text ends in a newline, which the second \<open>queue_spop\<close> takes off.\<close>

definition file_print :: "(int \<Rightarrow> cstring) \<Rightarrow> fileinfo \<Rightarrow> int \<Rightarrow> int \<Rightarrow> nat \<Rightarrow> cstring \<Rightarrow> byte list \<Rightarrow> byte list outcome" where
  "file_print ctime f nameWidth digitsWidth depth newline queue =
     (if f_is_folder f \<noteq> 0 then Inr queue
      else let queue = fold (\<lambda>_ q. push_text q (bytes_of ''  |'')) [0..<depth] queue
        in bindE (sprintf 4096 (bytes_of ''-'' @ pad_right (nat nameWidth) (f_name f) @ bytes_of '' ''
             @ pad_left (nat digitsWidth) (print_nat (unat (f_size f))) @ bytes_of '' '' @ ctime (f_last_modified f)))
           (\<lambda>buffer. Inr (push_text (butlast (push_text queue buffer)) newline)))"

definition file_widths :: "fileinfo list \<Rightarrow> int \<times> int" where
  "file_widths files = fold (\<lambda>f (maxLength, maxDigits).
     (max maxLength (int (unicode_strlen (f_name f))), max maxDigits (numDigits (file_get_size f)))) files (0, 0)"

fun folder_print :: "(int \<Rightarrow> cstring) \<Rightarrow> nat \<Rightarrow> cstring \<Rightarrow> folder \<Rightarrow> byte list \<Rightarrow> byte list outcome" where
  "folder_print ctime depth linebreak (Folder name files folders) queue =
     (let queue = fold (\<lambda>_ q. push_text q (bytes_of ''  |'')) [0..<depth] queue
      in bindE (sprintf 4096 (bytes_of ''-'' @ name @ linebreak)) (\<lambda>buffer.
         let queue = push_text queue buffer;
             (maxLength, maxDigits) = file_widths files
         in bindE (foldE (\<lambda>f. file_print ctime f maxLength maxDigits (depth + 1) linebreak) files queue) (\<lambda>queue.
            foldE (folder_print ctime (depth + 1) linebreak) folders queue)))"

definition filesystem_generate_string :: "(int \<Rightarrow> cstring) \<Rightarrow> filesystem \<Rightarrow> byte list outcome" where
  "filesystem_generate_string ctime fs =
     bindE (folder_print ctime 0 [10] (fs_root fs) []) (\<lambda>queue. Inr (queue @ [0]))"

text \<open>
  The HTML version never writes the last cell of what it allocates, here \<open>heap\<close>, and pushes the end tag
  after it has copied the queue.
\<close>

definition filesystem_generate_html :: "byte \<Rightarrow> (int \<Rightarrow> cstring) \<Rightarrow> filesystem \<Rightarrow> byte list outcome" where
  "filesystem_generate_html heap ctime fs =
     bindE (folder_print ctime 0 (bytes_of ''<br>'') (fs_root fs) (push_text [] (bytes_of ''<pre>'')))
       (\<lambda>queue. Inr (queue @ [heap]))"

section \<open>What the text shows\<close>

text \<open>The folders and files of a tree in depth-first order, each with its depth.\<close>

fun tree_rows :: "nat \<Rightarrow> folder \<Rightarrow> (nat \<times> cstring) list" where
  "tree_rows depth (Folder name files folders) =
     (depth, name) # map (\<lambda>f. (depth + 1, f_name f)) (filter (\<lambda>f. f_is_folder f = 0) files)
       @ concat (map (tree_rows (depth + 1)) folders)"

definition line_shows :: "nat \<times> cstring \<Rightarrow> cstring \<Rightarrow> bool" where
  "line_shows e l \<longleftrightarrow> (\<exists>more. l = concat (replicate (fst e) (bytes_of ''  |'')) @ bytes_of ''-'' @ snd e @ more)"

text \<open>Names of at most 255 bytes, and a clock whose text is a line of at most 26.\<close>

definition good_clock :: "(int \<Rightarrow> cstring) \<Rightarrow> bool" where
  "good_clock ctime \<longleftrightarrow> (\<forall>t. \<exists>day. ctime t = day @ [10] \<and> length day < 26 \<and> 10 \<notin> set day \<and> 0 \<notin> set day)"

definition good_name :: "cstring \<Rightarrow> bool" where
  "good_name s \<longleftrightarrow> length s \<le> 255 \<and> 0 \<notin> set s \<and> 10 \<notin> set s"

fun printable :: "folder \<Rightarrow> bool" where
  "printable (Folder name files folders) \<longleftrightarrow>
     good_name name \<and> list_all (\<lambda>f. good_name (f_name f)) files \<and> list_all printable folders"

section \<open>The text is made of lines\<close>

lemma push_text_append [simp]: "push_text queue str = queue @ str"
  by (simp add: push_text_def push_string_def butlast_append)

lemma fold_pipes [simp]: "fold (\<lambda>_ q. q @ s) [0..<d] queue = queue @ concat (replicate d s)"
  by (induction d) (simp_all add: replicate_append_same [symmetric])

lemma in_bytes_of [simp]: "b \<in> set (bytes_of s) \<longleftrightarrow> (\<exists>c \<in> set s. b = of_char c)"
  by (auto simp: bytes_of_def)

lemma length_bytes_of [simp]: "length (bytes_of s) = length s"
  by (simp add: bytes_of_def)

lemma length_print_nat: "n < 10 ^ Suc k \<Longrightarrow> length (print_nat n) \<le> Suc k"
proof (induction k arbitrary: n)
  case 0
  then show ?case by (subst print_nat.simps) simp
next
  case (Suc k)
  then have "n div 10 < 10 ^ Suc k" by (simp add: less_mult_imp_div_less)
  from Suc.IH [OF this] show ?case by (subst print_nat.simps) simp
qed

lemma print_nat_clean: "10 \<notin> set (print_nat n)" "0 \<notin> set (print_nat n)"
  using print_nat_digits [of n] by (auto simp: list_all_iff is_digit_def)

lemma size_digits: "length (print_nat (unat (w :: 64 word))) \<le> 20"
  using length_print_nat [of "unat w" 19] unsigned_less [where ?'a = nat, of w] by simp

lemma unicode_strlen_le: "unicode_strlen s \<le> length s"
proof (cases s)
  case Nil
  then show ?thesis by (simp add: unicode_strlen_def)
next
  case (Cons b bs)
  have "length (filter (\<lambda>b. and b 0xC0 \<noteq> 0x80) (bs @ [0])) \<le> length (bs @ [0])" by (rule length_filter_le)
  with Cons show ?thesis by (simp add: unicode_strlen_def)
qed

lemma numDigits_le: "numDigits (file_get_size f) \<le> 10"
proof -
  have "file_get_size f < 2 ^ 31" unfolding file_get_size_def using sint_lt [of "ucast (f_size f) :: 32 word"] by simp
  then have "nat (file_get_size f) < 10 ^ Suc 9" by simp
  from length_print_nat [OF this] show ?thesis by (simp add: numDigits_def)
qed

lemma file_widths_le: "\<forall>f \<in> set files. good_name (f_name f) \<Longrightarrow> file_widths files = (a, b) \<Longrightarrow> a \<le> 255 \<and> b \<le> 10"
proof -
  assume names: "\<forall>f \<in> set files. good_name (f_name f)" and w: "file_widths files = (a, b)"
  have "fst (fold g files p) \<le> 255 \<and> snd (fold g files p) \<le> 10"
    if "g = (\<lambda>f (maxLength, maxDigits). (max maxLength (int (unicode_strlen (f_name f))), max maxDigits (numDigits (file_get_size f))))"
      and "fst p \<le> (255 :: int) \<and> snd p \<le> (10 :: int)" for g p
    using that(2) names
  proof (induction files arbitrary: p)
    case Nil
    then show ?case by simp
  next
    case (Cons f fs)
    have "int (unicode_strlen (f_name f)) \<le> 255"
      using Cons.prems(2) unicode_strlen_le [of "f_name f"] by (simp add: good_name_def)
    then have "fst (g f p) \<le> 255 \<and> snd (g f p) \<le> 10"
      using Cons.prems(1) numDigits_le [of f] that(1) by (auto split: prod.splits)
    then show ?case using Cons by simp
  qed
  from this [OF refl, of "(0, 0)"] w show ?thesis by (simp add: file_widths_def)
qed

definition text_line :: "nat \<times> cstring \<Rightarrow> cstring \<Rightarrow> bool" where
  "text_line e l \<longleftrightarrow> line_shows e l \<and> 10 \<notin> set l \<and> 0 \<notin> set l"

lemma pipes_clean: "10 \<notin> set (concat (replicate d (bytes_of ''  |'')))" "0 \<notin> set (concat (replicate d (bytes_of ''  |'')))"
  by (induction d) (auto simp: bytes_of_def)

lemma file_line:
  assumes "good_clock ctime" "good_name (f_name f)" "f_is_folder f = 0" "a \<le> 255" "b \<le> 10"
  shows "\<exists>l. text_line (depth, f_name f) l \<and> file_print ctime f a b depth newline queue = Inr (queue @ l @ newline)"
proof -
  obtain day where day: "ctime (f_last_modified f) = day @ [10]" "length day < 26" "10 \<notin> set day" "0 \<notin> set day"
    using assms(1) by (auto simp: good_clock_def)
  define name where "name = pad_right (nat a) (f_name f)"
  define num where "num = pad_left (nat b) (print_nat (unat (f_size f)))"
  define l where "l = concat (replicate depth (bytes_of ''  |'')) @ bytes_of ''-'' @ name @ bytes_of '' '' @ num @ bytes_of '' '' @ day"
  have "nat a \<le> 255" "nat b \<le> 10" using assms(4,5) by simp_all
  then have "length name \<le> 255" "length num \<le> 20"
    using assms(2) size_digits [of "f_size f"] by (auto simp: name_def num_def pad_right_def pad_left_def good_name_def)
  then have print: "file_print ctime f a b depth newline queue = Inr (queue @ l @ newline)"
    using assms(3) day(1,2) by (simp add: file_print_def sprintf_def l_def name_def num_def butlast_append)
  have "10 \<notin> set name \<and> 0 \<notin> set name" "10 \<notin> set num \<and> 0 \<notin> set num"
    using assms(2) print_nat_clean by (auto simp: name_def num_def pad_right_def pad_left_def good_name_def)
  then have "text_line (depth, f_name f) l"
    using day pipes_clean [of depth] by (auto simp: text_line_def line_shows_def l_def name_def pad_right_def bytes_of_def)
  with print show ?thesis by blast
qed

abbreviation end_lines :: "cstring \<Rightarrow> cstring list \<Rightarrow> cstring" where
  "end_lines newline ls \<equiv> concat (map (\<lambda>l. l @ newline) ls)"

lemma foldE_lines:
  assumes "\<And>x queue. x \<in> set xs \<Longrightarrow> \<exists>ls. list_all2 text_line (es x) ls \<and> f x queue = Inr (queue @ end_lines newline ls)"
  shows "\<exists>ls. list_all2 text_line (concat (map es xs)) ls \<and> foldE f xs queue = Inr (queue @ end_lines newline ls)"
  using assms
proof (induction xs arbitrary: queue)
  case Nil
  then show ?case by simp
next
  case (Cons x xs)
  obtain k where k: "list_all2 text_line (es x) k" "f x queue = Inr (queue @ end_lines newline k)"
    using Cons.prems [of x queue] by auto
  obtain ls where ls: "list_all2 text_line (concat (map es xs)) ls"
      "foldE f xs (queue @ end_lines newline k) = Inr ((queue @ end_lines newline k) @ end_lines newline ls)"
    using Cons.IH [of "queue @ end_lines newline k"] Cons.prems by auto
  have "list_all2 text_line (concat (map es (x # xs))) (k @ ls)" using k(1) ls(1) by (simp add: list_all2_appendI)
  moreover have "foldE f (x # xs) queue = Inr (queue @ end_lines newline (k @ ls))" using k(2) ls(2) by simp
  ultimately show ?case by blast
qed

lemma file_entries: "map (\<lambda>f. (d, f_name f)) (filter (\<lambda>f. f_is_folder f = 0) files)
    = concat (map (\<lambda>f. if f_is_folder f = 0 then [(d, f_name f)] else []) files)"
  by (induction files) auto

lemma folder_lines:
  assumes "good_clock ctime" "length newline \<le> 4"
  shows "printable folder \<Longrightarrow> \<exists>ls. list_all2 text_line (tree_rows depth folder) ls
    \<and> folder_print ctime depth newline folder queue = Inr (queue @ end_lines newline ls)"
proof (induction folder arbitrary: depth queue)
  case (Folder name files folders)
  define l where "l = concat (replicate depth (bytes_of ''  |'')) @ bytes_of ''-'' @ name"
  have l: "text_line (depth, name) l"
    using Folder.prems pipes_clean [of depth] by (auto simp: text_line_def line_shows_def l_def good_name_def bytes_of_def)
  obtain a b where w: "file_widths files = (a, b)" by (cases "file_widths files")
  have names: "\<forall>f \<in> set files. good_name (f_name f)" using Folder.prems by (simp add: list_all_iff)
  have file_l: "\<exists>ls. list_all2 text_line (if f_is_folder f = 0 then [(depth + 1, f_name f)] else []) ls
      \<and> file_print ctime f a b (depth + 1) newline q = Inr (q @ end_lines newline ls)" if f: "f \<in> set files" for f q
  proof (cases "f_is_folder f = 0")
    case True
    obtain k where "text_line (depth + 1, f_name f) k" "file_print ctime f a b (depth + 1) newline q = Inr (q @ k @ newline)"
      using file_line [OF assms(1) _ True, where a = a and b = b and depth = "depth + 1" and newline = newline and queue = q]
        bspec [OF names f] file_widths_le [OF names w] by auto
    with True show ?thesis by (intro exI [of _ "[k]"]) simp
  next
    case False
    then show ?thesis by (intro exI [of _ "[]"]) (simp add: file_print_def)
  qed
  obtain fl where fl: "list_all2 text_line (map (\<lambda>f. (depth + 1, f_name f)) (filter (\<lambda>f. f_is_folder f = 0) files)) fl"
      "foldE (\<lambda>f. file_print ctime f a b (depth + 1) newline) files (queue @ l @ newline) = Inr ((queue @ l @ newline) @ end_lines newline fl)"
    unfolding file_entries
    using foldE_lines [where es = "\<lambda>f. if f_is_folder f = 0 then [(depth + 1, f_name f)] else []"
        and f = "\<lambda>f. file_print ctime f a b (depth + 1) newline" and queue = "queue @ l @ newline", OF file_l] by blast
  have "\<exists>ls. list_all2 text_line (tree_rows (depth + 1) d) ls \<and> folder_print ctime (depth + 1) newline d q = Inr (q @ end_lines newline ls)"
    if "d \<in> set folders" for d q
    using Folder.IH [OF that] Folder.prems that by (simp add: list_all_iff)
  then obtain dl where dl: "list_all2 text_line (concat (map (tree_rows (depth + 1)) folders)) dl"
      "foldE (folder_print ctime (depth + 1) newline) folders (queue @ end_lines newline (l # fl)) = Inr ((queue @ end_lines newline (l # fl)) @ end_lines newline dl)"
    using foldE_lines [where es = "tree_rows (depth + 1)" and f = "folder_print ctime (depth + 1) newline"
        and queue = "queue @ end_lines newline (l # fl)"] by blast
  have "list_all2 text_line (tree_rows depth (Folder name files folders)) (l # fl @ dl)"
    using l fl(1) dl(1) by (simp add: list_all2_appendI)
  moreover have "folder_print ctime depth newline (Folder name files folders) queue = Inr (queue @ end_lines newline (l # fl @ dl))"
    using Folder.prems assms(2) fl(2) dl(2) w by (simp add: sprintf_def good_name_def l_def)
  ultimately show ?case by blast
qed

lemma text_lines:
  "list_all2 text_line es ls \<Longrightarrow> list_all2 line_shows es ls \<and> (\<forall>l \<in> set ls. 10 \<notin> set l \<and> 0 \<notin> set l)"
  by (induction rule: list_all2_induct) (simp_all add: text_line_def)

text \<open>As plain text the tree is a line for each folder and file, and nothing in a line ends it early.\<close>

lemma tree_text:
  assumes "good_clock ctime" "printable (fs_root fs)"
  shows "\<exists>ls. list_all2 line_shows (tree_rows 0 (fs_root fs)) ls \<and> (\<forall>l \<in> set ls. 10 \<notin> set l \<and> 0 \<notin> set l)
    \<and> filesystem_generate_string ctime fs = Inr (end_lines [10] ls @ [0])"
proof -
  obtain ls where ls: "list_all2 text_line (tree_rows 0 (fs_root fs)) ls"
      "folder_print ctime 0 [10] (fs_root fs) [] = Inr (end_lines [10] ls)"
    using folder_lines [OF assms(1) _ assms(2), of "[10]" 0 "[]"] by auto
  show ?thesis by (rule exI [of _ ls]) (use ls(2) text_lines [OF ls(1)] in \<open>simp add: filesystem_generate_string_def\<close>)
qed

lemma tree_html:
  assumes "good_clock ctime" "printable (fs_root fs)"
  shows "\<exists>ls. list_all2 line_shows (tree_rows 0 (fs_root fs)) ls \<and> 0 \<notin> set (end_lines (bytes_of ''<br>'') ls)
    \<and> filesystem_generate_html heap ctime fs = Inr (bytes_of ''<pre>'' @ end_lines (bytes_of ''<br>'') ls @ [heap])"
proof -
  obtain ls where ls: "list_all2 text_line (tree_rows 0 (fs_root fs)) ls"
      "folder_print ctime 0 (bytes_of ''<br>'') (fs_root fs) (bytes_of ''<pre>'') = Inr (bytes_of ''<pre>'' @ end_lines (bytes_of ''<br>'') ls)"
    using folder_lines [OF assms(1) _ assms(2), of "bytes_of ''<br>''" 0 "bytes_of ''<pre>''"] by auto
  have "0 \<notin> set (bytes_of ''<br>'')" by (simp add: bytes_of_def)
  then have "0 \<notin> set (end_lines (bytes_of ''<br>'') ls)" using text_lines [OF ls(1)] by auto
  then show ?thesis
    by (intro exI [of _ ls] conjI) (use ls(2) text_lines [OF ls(1)] in \<open>simp_all add: filesystem_generate_html_def\<close>)
qed

end
