(* ===== verification/ColorPrint.thy ===== *)
theory ColorPrint
  imports TreePrint FileSysIter
begin

text \<open>
  Printing with colours, \<open>utility/ColoredPrint\<close>, and what \<open>utility/FileSystem\<close> prints on the terminal
  with it. The registered formats are a list of arrays, the position of each its number; a function that
  prints returns the text.
\<close>

section \<open>Formats\<close>

datatype format_arg =
    COLOR_RESET | COLOR_BOLD | COLOR_DARK | COLOR_UNDERLINE | COLOR_FLASH | COLOR_INVERT | COLOR_D_BLACK | COLOR_D_RED
  | COLOR_D_GREEN | COLOR_D_YELLOW | COLOR_D_BLUE | COLOR_D_MAGENTA | COLOR_D_CYAN | COLOR_D_WHITE | COLOR_BG_D_BLACK | COLOR_BG_D_RED
  | COLOR_BG_D_GREEN | COLOR_BG_D_YELLOW | COLOR_BG_D_BLUE | COLOR_BG_D_MAGENTA | COLOR_BG_D_CYAN | COLOR_BG_D_WHITE | COLOR_L_BLACK | COLOR_L_RED
  | COLOR_L_GREEN | COLOR_L_YELLOW | COLOR_L_BLUE | COLOR_L_MAGENTA | COLOR_L_CYAN | COLOR_L_WHITE | COLOR_BG_L_BLACK | COLOR_BG_L_RED
  | COLOR_BG_L_GREEN | COLOR_BG_L_YELLOW | COLOR_BG_L_BLUE | COLOR_BG_L_MAGENTA | COLOR_BG_L_CYAN | COLOR_BG_L_WHITE

definition escape :: "nat \<Rightarrow> cstring" where
  "escape n = [27, 91] @ print_nat n @ [109]"

fun FORMATS :: "format_arg \<Rightarrow> cstring" where
  "FORMATS COLOR_RESET = escape 0"
| "FORMATS COLOR_BOLD = escape 1"
| "FORMATS COLOR_DARK = escape 2"
| "FORMATS COLOR_UNDERLINE = escape 4"
| "FORMATS COLOR_FLASH = escape 5"
| "FORMATS COLOR_INVERT = escape 7"
| "FORMATS COLOR_D_BLACK = escape 30"
| "FORMATS COLOR_D_RED = escape 31"
| "FORMATS COLOR_D_GREEN = escape 32"
| "FORMATS COLOR_D_YELLOW = escape 33"
| "FORMATS COLOR_D_BLUE = escape 34"
| "FORMATS COLOR_D_MAGENTA = escape 35"
| "FORMATS COLOR_D_CYAN = escape 36"
| "FORMATS COLOR_D_WHITE = escape 37"
| "FORMATS COLOR_BG_D_BLACK = escape 40"
| "FORMATS COLOR_BG_D_RED = escape 41"
| "FORMATS COLOR_BG_D_GREEN = escape 42"
| "FORMATS COLOR_BG_D_YELLOW = escape 43"
| "FORMATS COLOR_BG_D_BLUE = escape 44"
| "FORMATS COLOR_BG_D_MAGENTA = escape 45"
| "FORMATS COLOR_BG_D_CYAN = escape 46"
| "FORMATS COLOR_BG_D_WHITE = escape 47"
| "FORMATS COLOR_L_BLACK = escape 90"
| "FORMATS COLOR_L_RED = escape 91"
| "FORMATS COLOR_L_GREEN = escape 92"
| "FORMATS COLOR_L_YELLOW = escape 93"
| "FORMATS COLOR_L_BLUE = escape 94"
| "FORMATS COLOR_L_MAGENTA = escape 95"
| "FORMATS COLOR_L_CYAN = escape 96"
| "FORMATS COLOR_L_WHITE = escape 97"
| "FORMATS COLOR_BG_L_BLACK = escape 100"
| "FORMATS COLOR_BG_L_RED = escape 101"
| "FORMATS COLOR_BG_L_GREEN = escape 102"
| "FORMATS COLOR_BG_L_YELLOW = escape 103"
| "FORMATS COLOR_BG_L_BLUE = escape 104"
| "FORMATS COLOR_BG_L_MAGENTA = escape 105"
| "FORMATS COLOR_BG_L_CYAN = escape 106"
| "FORMATS COLOR_BG_L_WHITE = escape 107"

text \<open>
  The loop copies up to 40 entries, to the terminating 0 (\<open>COLOR_RESET\<close>), into an array with one cell for
  each of the 38 formats; \<open>i\<close> is the entry it is at.
\<close>

fun copy_format :: "nat \<Rightarrow> format_arg list \<Rightarrow> format_arg list outcome" where
  "copy_format i [] = (if 40 \<le> i then Inr [] else Inl OutOfBounds)"
| "copy_format i (a # formats) =
     (if 40 \<le> i then Inr []
      else if 38 \<le> i then Inl OutOfBounds
      else if a = COLOR_RESET then Inr [a]
      else bindE (copy_format (i + 1) formats) (\<lambda>f. Inr (a # f)))"

definition register_format :: "format_arg list \<Rightarrow> format_arg list list \<Rightarrow> (nat \<times> format_arg list list) outcome" where
  "register_format formats q = bindE (copy_format 0 formats) (\<lambda>f. Inr (length q, q @ [f]))"

fun print_formats :: "format_arg list \<Rightarrow> cstring outcome" where
  "print_formats [] = Inl OutOfBounds"
| "print_formats (a # formats) =
     (if a = COLOR_RESET then Inr [] else bindE (print_formats formats) (\<lambda>codes. Inr (FORMATS a @ codes)))"

text \<open>\<open>str\<close> is what \<open>vprintf\<close> makes of the arguments. A number that is not registered prints without colour.\<close>

definition format_printf :: "format_arg list list \<Rightarrow> int \<Rightarrow> cstring \<Rightarrow> cstring outcome" where
  "format_printf q formatID str =
     (if int (length q) \<le> formatID \<or> formatID < 0 then Inr str
      else bindE (print_formats (q ! nat formatID)) (\<lambda>codes. Inr (codes @ str @ FORMATS COLOR_RESET)))"

section \<open>File systems on the terminal\<close>

definition filesystem_print :: "(int \<Rightarrow> cstring) \<Rightarrow> filesystem \<Rightarrow> cstring outcome" where
  "filesystem_print ctime fs =
     bindE (folder_print ctime 0 [10] (fs_root fs) []) (\<lambda>data.
       Inr (bytes_of ''Printing filesystem at: '' @ (case fs_root_path fs of None \<Rightarrow> bytes_of ''NULL'' | Some p \<Rightarrow> p) @ [10]
         @ data @ [10]))"

text \<open>The paths, folders in the format \<open>blueid\<close>, with the number of paths and one more as fuel.\<close>

definition filesystem_print_list :: "format_arg list list \<Rightarrow> int \<Rightarrow> filesystem \<Rightarrow> cstring outcome" where
  "filesystem_print_list q blueid fs =
     bindE (filesystemiterator_new fs False) (\<lambda>fsi.
       fs_while (Suc (length (fi_file_list fsi))) (\<lambda>(path, len, mod_time) out.
         if len < 0 then bindE (format_printf q blueid (path @ [10])) (\<lambda>str. Inr (out @ str))
         else Inr (out @ path @ [10])) fsi [])"

section \<open>A registered format is printed\<close>

lemma copy_format_ok:
  "COLOR_RESET \<notin> set f \<Longrightarrow> i + length f < 38 \<Longrightarrow> copy_format i (f @ COLOR_RESET # rest) = Inr (f @ [COLOR_RESET])"
  by (induction f arbitrary: i) auto

lemma print_formats_ok:
  "COLOR_RESET \<notin> set f \<Longrightarrow> print_formats (f @ COLOR_RESET # rest) = Inr (concat (map FORMATS f))"
  by (induction f) auto

text \<open>The number of a new format prints its codes, the text and the reset; other numbers print as before.\<close>

lemma registered_format_printed:
  assumes "COLOR_RESET \<notin> set f" "length f < 38"
  shows "\<exists>q'. register_format (f @ COLOR_RESET # rest) q = Inr (length q, q')
    \<and> format_printf q' (int (length q)) str = Inr (concat (map FORMATS f) @ str @ FORMATS COLOR_RESET)
    \<and> (\<forall>i. i \<noteq> int (length q) \<longrightarrow> format_printf q' i str = format_printf q i str)"
  using copy_format_ok [OF assms(1), of 0] assms(2) print_formats_ok [OF assms(1), of "[]"]
  by (auto simp: register_format_def format_printf_def nth_append)

text \<open>A format of 38 entries or more without a 0 is written past the array.\<close>

lemma long_format_overflows:
  "COLOR_RESET \<notin> set f \<Longrightarrow> i \<le> 38 \<Longrightarrow> 38 \<le> i + length f \<Longrightarrow> copy_format i (f @ [COLOR_RESET]) = Inl OutOfBounds"
proof (induction f arbitrary: i)
  case Nil
  then show ?case by simp
next
  case (Cons a f)
  show ?case
  proof (cases "i = 38")
    case True
    then show ?thesis by simp
  next
    case False
    with Cons show ?thesis by auto
  qed
qed

end
