(* ===== verification/TreeTyped.thy ===== *)
theory TreeTyped
  imports FileSysCodec
begin

text \<open>
  The trees of the program stay well typed: names are unique in a folder, and a folder is stored as a file
  with \<open>is_folder\<close> exactly when it is stored as a folder. \<open>held\<close> is every file system a client or the
  tracker can come to hold, by reading a directory, copying, sending and receiving, removing any other
  tree or a path, and by bringing it up to date with a difference.
\<close>

section \<open>Removal from a well-typed tree\<close>

lemma in_remove_first: "x \<in> set (remove_first P xs) \<Longrightarrow> x \<in> set xs"
  by (induction xs) (auto split: if_splits)

lemma remove_first_distinct: "distinct (map f xs) \<Longrightarrow> distinct (map f (remove_first P xs))"
  using in_remove_first by (induction xs) force+

lemma remove_first_named:
  "distinct (map f xs) \<Longrightarrow> set (remove_first (\<lambda>x. n = f x) xs) = {x \<in> set xs. f x \<noteq> n}"
  by (induction xs) (auto simp: image_iff)

lemma wf_remove_file:
  assumes "wf_folder (Folder n files folders)" "remove_file t (files, folders) = (files', folders')"
  shows "wf_folder (Folder n files' folders')"
proof (cases "t \<in> set files")
  case False
  then have "find (file_equals t) files = None" by (auto simp: find_None_iff)
  with assms show ?thesis by (simp add: remove_file_def)
next
  case True
  then have found: "find (file_equals t) files = Some t" by (induction files) auto
  have names: "distinct (map f_name files)" "distinct (map fo_name folders)" using assms(1) by simp_all
  have files': "files' = remove_first ((=) t) files" using assms(2) found by (simp add: remove_file_def)
  have left: "set files' = set files - {t}"
    using distinct_mapI [OF names(1)] unfolding files' by (induction files) auto
  have dist: "distinct (map f_name files')" unfolding files' by (rule remove_first_distinct [OF names(1)])
  show ?thesis
  proof (cases "f_is_folder t = 0")
    case True
    then have "folders' = folders" using assms(2) found by (simp add: remove_file_def)
    moreover have "t \<noteq> dir_entry m" for m using True by auto
    ultimately show ?thesis using assms(1) left dist by auto
  next
    case False
    then have "folders' = remove_first (\<lambda>d. f_name t = fo_name d) folders"
      using assms(2) found by (simp add: remove_file_def)
    then have folders': "set folders' = {d \<in> set folders. fo_name d \<noteq> f_name t}" "distinct (map fo_name folders')"
      using remove_first_named [OF names(2)] remove_first_distinct [OF names(2)] by simp_all
    have t: "t = dir_entry (f_name t)" using assms(1) True False by auto
    have "dir_entry (fo_name d) \<in> set files'" if "d \<in> set folders'" for d
    proof -
      have "dir_entry (fo_name d) \<in> set files" "fo_name d \<noteq> f_name t" using that folders'(1) assms(1) by auto
      then have "dir_entry (fo_name d) \<noteq> t" using t by (metis dir_entry_simps(1))
      with left \<open>dir_entry (fo_name d) \<in> set files\<close> show ?thesis by simp
    qed
    moreover have "x = dir_entry (f_name x) \<and> f_name x \<in> fo_name ` set folders'" if x: "x \<in> set files'" "f_is_folder x \<noteq> 0" for x
    proof -
      have "x = dir_entry (f_name x)" "f_name x \<in> fo_name ` set folders" using x left assms(1) by auto
      moreover have "f_name x \<noteq> f_name t" using x(1) True names(1) left by (auto simp: distinct_map inj_on_def)
      ultimately show ?thesis unfolding folders'(1) by auto
    qed
    moreover have "wf_folder d" if "d \<in> set folders'" for d using that folders'(1) assms(1) by simp
    ultimately show ?thesis using dist folders'(2) by simp
  qed
qed

lemma wf_remove_files:
  "wf_folder (Folder n files folders) \<Longrightarrow> fold remove_file ts (files, folders) = (files', folders') \<Longrightarrow>
    wf_folder (Folder n files' folders')"
proof (induction ts arbitrary: files folders)
  case Nil
  then show ?case by simp
next
  case (Cons t ts)
  obtain f1 d1 where 1: "remove_file t (files, folders) = (f1, d1)" by (cases "remove_file t (files, folders)")
  with Cons.prems(2) have "fold remove_file ts (f1, d1) = (files', folders')" by simp
  with Cons.IH wf_remove_file [OF Cons.prems(1) 1] show ?case by blast
qed

text \<open>Changing a sub-folder into a well-typed one of the same name.\<close>

lemma wf_update:
  assumes "wf_folder (Folder n files folders)"
    and "\<And>r r'. wf_folder r \<Longrightarrow> h r = Some r' \<Longrightarrow> wf_folder r' \<and> fo_name r' = fo_name r" "\<And>r. h r \<noteq> None"
  shows "wf_folder (Folder n files (in_folder h T folders))"
proof (cases "find (folder_equals T) folders")
  case None
  with assms(1) show ?thesis by (simp add: in_folder_def)
next
  case (Some r)
  then have r: "r \<in> set folders" using find_Some_in by fastforce
  obtain r' where h: "h r = Some r'" using assms(3) by blast
  have new: "in_folder h T folders = update_first (folder_equals T) (\<lambda>_. r') folders" using Some h by (simp add: in_folder_def)
  have r': "wf_folder r'" "fo_name r' = fo_name r" using assms(1,2) r h by auto
  have "map fo_name (update_first (folder_equals T) (\<lambda>_. r') folders) = map fo_name folders"
    using Some r'(2) by (induction folders) (auto simp: folder_equals_def split: if_splits)
  moreover have "set (update_first (folder_equals T) (\<lambda>_. r') folders) \<subseteq> insert r' (set folders)"
    by (induction folders) auto
  moreover have "fo_name ` set (update_first (folder_equals T) (\<lambda>_. r') folders) = fo_name ` set folders"
    using calculation(1) by (metis list.set_map)
  moreover have "dir_entry (fo_name d) \<in> set files \<and> wf_folder d" if "d \<in> insert r' (set folders)" for d
    using that assms(1) r r' by auto
  ultimately show ?thesis using assms(1) unfolding new by (simp add: subset_iff)
qed

lemma wf_remove: "wf_folder f \<Longrightarrow> wf_folder (folder_remove f g) \<and> fo_name (folder_remove f g) = fo_name f"
proof (induction g arbitrary: f)
  case (Folder m ts ds)
  obtain n files folders where f: "f = Folder n files folders" by (cases f)
  obtain files' folders' where r: "fold remove_file ts (files, folders) = (files', folders')" by force
  have "wf_folder (Folder n files' (fold (\<lambda>T. in_folder (\<lambda>r. Some (folder_remove r T)) T) es F))"
    if "set es \<subseteq> set ds" "wf_folder (Folder n files' F)" for es F
    using that
  proof (induction es arbitrary: F)
    case Nil
    then show ?case by simp
  next
    case (Cons T es)
    have "wf_folder (Folder n files' (in_folder (\<lambda>r. Some (folder_remove r T)) T F))"
    proof (rule wf_update [OF Cons.prems(2)])
      fix r r' assume wf: "wf_folder r" and "Some (folder_remove r T) = Some r'"
      then have r': "r' = folder_remove r T" by simp
      show "wf_folder r' \<and> fo_name r' = fo_name r"
        unfolding r' by (rule Folder.IH [OF _ wf]) (use Cons.prems(1) in simp)
    qed simp
    from Cons.IH [OF _ this] Cons.prems(1) show ?case by (simp del: wf_folder.simps)
  qed
  from this [OF subset_refl wf_remove_files [OF Folder.prems [unfolded f] r]]
  show ?case unfolding f folder_remove.simps folder.sel r by (simp del: wf_folder.simps)
qed

section \<open>The trees a program holds\<close>

inductive held :: "filesystem \<Rightarrow> bool" where
  Empty: "filesystem_new wordexp disk None = Inr fs \<Longrightarrow> held fs"
| Read: "wf_disk (disk (wordexp path)) \<Longrightarrow> filesystem_new wordexp disk (Some path) = Inr fs \<Longrightarrow> held fs"
| Copy: "held fs \<Longrightarrow> held (filesystem_copy fs)"
| Rooted: "held fs \<Longrightarrow> held (filesystem_set_root_path fs path)"
| Received: "held fs \<Longrightarrow> ok_folder (fs_root fs) \<Longrightarrow> filesystem_serialize fs = (data, len) \<Longrightarrow>
    filesystem_deserialize (data @ rest) = Inr (gs, n) \<Longrightarrow> held gs"
| Without: "held fs \<Longrightarrow> held (filesystem_minus_equals fs other)"
| Pruned: "held fs \<Longrightarrow> filesystem_remove_file_at_path fs path = Inr gs \<Longrightarrow> held gs"
| Updated: "held tree \<Longrightarrow> held old \<Longrightarrow> entries (fs_root tree) = entries (fs_root old) \<Longrightarrow> held new \<Longrightarrow>
    filesystem_diff old new = (additions, deletions) \<Longrightarrow>
    filesystem_plus_equals (filesystem_minus_equals tree deletions) additions = Inr fs \<Longrightarrow> held fs"

lemma pruned_wf: "wf_folder f \<Longrightarrow> folder_remove_file_at_path cs f = Inr r \<Longrightarrow> wf_folder r"
proof (cases "cs = []")
  case True
  then show "folder_remove_file_at_path cs f = Inr r \<Longrightarrow> wf_folder r" by (simp split: if_splits)
next
  case False
  assume wf: "wf_folder f" and r: "folder_remove_file_at_path cs f = Inr r"
  show "wf_folder r" using removed [OF wf False] r by (auto simp: removed_def split: if_splits)
qed

lemma held_wf: "held fs \<Longrightarrow> wf_folder (fs_root fs)"
proof (induction rule: held.induct)
  case (Read disk wordexp path fs)
  obtain contents where d: "disk (wordexp path) = DiskDir contents"
    using Read(2) by (cases "disk (wordexp path)") (simp_all add: filesystem_new_def)
  obtain f where "folder_new (DiskDir contents) [] = Inr f" "wf_folder f"
    using folder_new_wf [of contents "[]"] Read(1) d by auto
  with Read(2) d show ?case by (auto simp: filesystem_new_def)
next
  case (Received fs data len rest gs n)
  then have "data = folder_image (fs_root fs)" by (simp add: filesystem_serialize_def serialize_image Let_def)
  with deserialize_image [OF Received(2), of rest] Received(4,5) show ?case by auto
next
  case (Pruned fs path gs)
  then show ?case using pruned_wf by (auto simp: filesystem_remove_file_at_path_def outcome_simps)
next
  case (Updated tree old new additions deletions fs)
  then have "alike (fs_root tree) (fs_root old)" by (simp add: alike_def)
  from diff_applied_alike [OF this] Updated show ?case by force
qed (auto simp: filesystem_new_def filesystem_minus_equals_def wf_remove filesystem_set_root_path_def)



end
