(* ===== verification/WebPage.thy ===== *)
theory WebPage
  imports TreePrint Tracker
begin

text \<open>
  The tracker's web page, the second half of \<open>tracker/tracker.c\<close>: a thread accepts browsers and forks a
  child for each, which reads the first line of the request, decodes the name in it and answers with the
  page of the peers and the tree, with the header of a file, or with an error. What \<open>read\<close> and \<open>write\<close>
  answer, the disk, the clock and what uninitialised memory reads as are the environment's.
\<close>

section \<open>The connection of a browser\<close>

text \<open>
  What \<open>read\<close> answers, in order: bytes, the end, a signal (\<open>EINTR\<close>) or another error; it takes no more
  than there is room for. Each \<open>write\<close> has an answer and tells whether \<open>errno\<close> is \<open>EINTR\<close>. When there is no
  answer left the call blocks.
\<close>

datatype reading = Arrived "byte list" | Ended | Interrupted | Broken

record web =
  w_in :: "reading list"
  w_answers :: "(int \<times> bool) list"
  w_sent :: "byte list"
  w_open :: bool

section \<open>Robust input and output\<close>

record rio =
  rio_cnt :: int
  rio_bufptr :: nat
  rio_buf :: "byte list"

definition MAXLINE :: nat where "MAXLINE = 1024"

definition RIO_BUFSIZE :: nat where "RIO_BUFSIZE = 1024"

definition rio_readinitb :: "byte list \<Rightarrow> rio" where
  "rio_readinitb memory = \<lparr>rio_cnt = 0, rio_bufptr = 0, rio_buf = memory\<rparr>"

fun written_loop :: "byte list \<Rightarrow> (int \<times> bool) list \<Rightarrow> byte list \<Rightarrow> (bool \<times> (int \<times> bool) list \<times> byte list) outcome" where
  "written_loop bufp [] out = (if bufp = [] then Inr (True, [], out) else Inl NoReturn)"
| "written_loop bufp ((r, eintr) # answers) out =
     (if bufp = [] then Inr (True, (r, eintr) # answers, out)
      else if r \<le> 0 then (if eintr then written_loop bufp answers out else Inr (False, answers, out))
      else written_loop (drop (nat r) bufp) answers (out @ take (nat r) bufp))"

text \<open>Returns \<open>n\<close> or -1.\<close>

definition written :: "byte list \<Rightarrow> web \<Rightarrow> (int \<times> web) outcome" where
  "written usrbuf w = bindE (written_loop usrbuf (w_answers w) (w_sent w)) (\<lambda>(ok, answers, out).
     Inr (if ok then int (length usrbuf) else -1, w\<lparr>w_answers := answers, w_sent := out\<rparr>))"

text \<open>The loop that fills an empty buffer; \<open>Some\<close> is what \<open>rio_read\<close> returns at once. The end of the stream stays.\<close>

fun rio_fill :: "reading list \<Rightarrow> rio \<Rightarrow> (int option \<times> rio \<times> reading list) outcome" where
  "rio_fill es rp =
     (if 0 < rio_cnt rp then Inr (None, rp, es)
      else (case es of
        [] \<Rightarrow> Inl NoReturn
      | Arrived bs # es \<Rightarrow>
          let got = take RIO_BUFSIZE bs;
              es = (if length bs \<le> RIO_BUFSIZE then es else Arrived (drop RIO_BUFSIZE bs) # es)
          in if got = [] then Inr (Some 0, rp\<lparr>rio_cnt := 0\<rparr>, es)
             else Inr (None, rp\<lparr>rio_cnt := int (length got), rio_bufptr := 0,
                                rio_buf := got @ drop (length got) (rio_buf rp)\<rparr>, es)
      | Ended # es \<Rightarrow> Inr (Some 0, rp\<lparr>rio_cnt := 0\<rparr>, Ended # es)
      | Interrupted # es \<Rightarrow> rio_fill es (rp\<lparr>rio_cnt := -1\<rparr>)
      | Broken # es \<Rightarrow> Inr (Some (-1), rp\<lparr>rio_cnt := -1\<rparr>, es)))"

declare rio_fill.simps [simp del]

text \<open>Returns the count or what ended the stream, and the bytes copied to the user's buffer.\<close>

definition rio_read :: "rio \<Rightarrow> nat \<Rightarrow> reading list \<Rightarrow> (int \<times> byte list \<times> rio \<times> reading list) outcome" where
  "rio_read rp n es = bindE (rio_fill es rp) (\<lambda>(r, rp, es). case r of
     Some r \<Rightarrow> Inr (r, [], rp, es)
   | None \<Rightarrow> let cnt = min n (nat (rio_cnt rp))
       in Inr (int cnt, take cnt (drop (rio_bufptr rp) (rio_buf rp)),
               rp\<lparr>rio_bufptr := rio_bufptr rp + cnt, rio_cnt := rio_cnt rp - int cnt\<rparr>, es))"

text \<open>
  The loop counts \<open>n\<close> up to \<open>maxlen\<close>; the first argument is \<open>maxlen - n\<close>. At the end of a stream without
  data, and after an error, the buffer is left without a 0.
\<close>

fun readline_loop :: "nat \<Rightarrow> int \<Rightarrow> nat \<Rightarrow> rio \<Rightarrow> byte list \<Rightarrow> reading list
    \<Rightarrow> (int \<times> rio \<times> byte list \<times> reading list) outcome" where
  "readline_loop 0 n bufp rp usrbuf es =
     bindE (set_cell usrbuf (int bufp) 0) (\<lambda>usrbuf. Inr (n, rp, usrbuf, es))"
| "readline_loop (Suc k) n bufp rp usrbuf es = bindE (rio_read rp 1 es) (\<lambda>(rc, c, rp, es).
     if rc = 1 then bindE (set_cell usrbuf (int bufp) (hd c)) (\<lambda>usrbuf.
       if hd c = 10 then bindE (set_cell usrbuf (int (bufp + 1)) 0) (\<lambda>usrbuf. Inr (n, rp, usrbuf, es))
       else readline_loop k (n + 1) (bufp + 1) rp usrbuf es)
     else if rc = 0 then
       (if n = 1 then Inr (0, rp, usrbuf, es)
        else bindE (set_cell usrbuf (int bufp) 0) (\<lambda>usrbuf. Inr (n, rp, usrbuf, es)))
     else Inr (-1, rp, usrbuf, es))"

definition rio_readlineb :: "rio \<Rightarrow> byte list \<Rightarrow> nat \<Rightarrow> reading list \<Rightarrow> (int \<times> rio \<times> byte list \<times> reading list) outcome" where
  "rio_readlineb rp usrbuf maxlen es = readline_loop (maxlen - 1) 1 0 rp usrbuf es"

section \<open>The request\<close>

text \<open>What \<open>open\<close> and \<open>fstat\<close> say of a name; and what is in the arrays of the stack, and in the heap, before.\<close>

datatype opened = Missing | Regular nat | Directory | Special

record web_host =
  wh_open :: "cstring \<Rightarrow> opened"
  wh_ctime :: "int \<Rightarrow> cstring"
  wh_rio :: "byte list"
  wh_buf :: "byte list"
  wh_uri :: "byte list"
  wh_filename :: "byte list"
  wh_heap :: byte

record http_request =
  req_filename :: "byte list"
  req_offset :: int
  req_end :: nat

text \<open>\<open>%s\<close> of \<open>sscanf\<close>: a word after white space, stored with a 0.\<close>

definition scan_word :: "cstring \<Rightarrow> (cstring \<times> cstring) option" where
  "scan_word str = (let str = dropWhile is_space str; found = takeWhile (\<lambda>b. \<not> is_space b) str
     in if found = [] then None else Some (found, dropWhile (\<lambda>b. \<not> is_space b) str))"

definition store_string :: "byte list \<Rightarrow> cstring \<Rightarrow> byte list outcome" where
  "store_string cells str = (if length str < length cells then Inr (str @ [0] @ drop (length str + 1) cells) else Inl OutOfBounds)"

definition scan_uri :: "cstring \<Rightarrow> byte list \<Rightarrow> byte list outcome" where
  "scan_uri line uri = (case scan_word line of None \<Rightarrow> Inr uri
     | Some (_, rest) \<Rightarrow> (case scan_word rest of None \<Rightarrow> Inr uri | Some (u, _) \<Rightarrow> store_string uri u))"

text \<open>\<open>strtoul(code, NULL, 16)\<close> of at most two characters, which are too few for a prefix 0x.\<close>

definition hex_value :: "byte \<Rightarrow> nat option" where
  "hex_value b = (if 48 \<le> b \<and> b \<le> 57 then Some (unat b - 48)
     else if 65 \<le> b \<and> b \<le> 70 then Some (unat b - 55)
     else if 97 \<le> b \<and> b \<le> 102 then Some (unat b - 87) else None)"

fun hex_digits :: "nat \<Rightarrow> cstring \<Rightarrow> nat" where
  "hex_digits n [] = n"
| "hex_digits n (b # bs) = (case hex_value b of None \<Rightarrow> n | Some v \<Rightarrow> hex_digits (16 * n + v) bs)"

definition strtoul16 :: "cstring \<Rightarrow> 64 word" where
  "strtoul16 code = (case dropWhile is_space code of
     [] \<Rightarrow> 0
   | c # rest \<Rightarrow> if c = 45 then - word_of_nat (hex_digits 0 rest)
       else if c = 43 then word_of_nat (hex_digits 0 rest)
       else word_of_nat (hex_digits 0 (c # rest)))"

text \<open>
  The loop that decodes the name; \<open>left\<close> (the variable \<open>max\<close>) bounds the characters read, but \<open>filename\<close> has 512 cells. After
  a per cent sign two bytes are taken, whatever they are.
\<close>

fun decode_url :: "nat \<Rightarrow> byte list \<Rightarrow> byte list \<Rightarrow> nat \<Rightarrow> byte list outcome" where
  "decode_url left [] dest i = Inl OutOfBounds"
| "decode_url left (b # p) dest i =
     (if b = 0 \<or> left \<le> 1 then set_cell dest (int i) 0
      else if b = 37 then (case p of
          x # y # p \<Rightarrow> bindE (set_cell dest (int i) (ucast (strtoul16 (takeWhile (\<lambda>c. c \<noteq> 0) [x, y]))))
            (\<lambda>dest. decode_url (left - 1) p dest (i + 1))
        | _ \<Rightarrow> Inl OutOfBounds)
      else bindE (set_cell dest (int i) b) (\<lambda>dest. decode_url (left - 1) p dest (i + 1)))"

definition request_file :: "byte list \<Rightarrow> byte list outcome" where
  "request_file uri = bindE (cell uri 0) (\<lambda>slash.
     if slash \<noteq> 47 then Inr uri
     else let file = tl uri in bindE (read_string file) (\<lambda>(name, _).
       if name = [] then Inr [46, 0]
       else (case first_index (\<lambda>b. b = 63) name of None \<Rightarrow> Inr file | Some i \<Rightarrow> Inr (file[i := 0]))))"

definition parse_request :: "web_host \<Rightarrow> web \<Rightarrow> (http_request \<times> web) outcome" where
  "parse_request h w =
     bindE (rio_readlineb (rio_readinitb (wh_rio h)) (wh_buf h) MAXLINE (w_in w)) (\<lambda>(_, _, buf, es).
     bindE (read_string buf) (\<lambda>(line, _).
     bindE (scan_uri line (wh_uri h)) (\<lambda>uri.
     bindE (request_file uri) (\<lambda>file.
     bindE (decode_url MAXLINE file (wh_filename h) 0) (\<lambda>filename.
       Inr (\<lparr>req_filename = filename, req_offset = 0, req_end = 0\<rparr>, w\<lparr>w_in := es\<rparr>))))))"

section \<open>The answer\<close>

text \<open>The text of \<open>buf\<close>, made with \<open>sprintf\<close> in an array, is written up to its 0.\<close>

definition send_text :: "nat \<Rightarrow> cstring \<Rightarrow> web \<Rightarrow> web outcome" where
  "send_text room str w = bindE (sprintf room str) (\<lambda>buf. bindE (written buf w) (\<lambda>(_, w). Inr w))"

definition crlf :: cstring where "crlf = [13, 10]"

definition client_error :: "int \<Rightarrow> cstring \<Rightarrow> cstring \<Rightarrow> web \<Rightarrow> web outcome" where
  "client_error status msg longmsg w = send_text MAXLINE
     (bytes_of ''HTTP/1.1 '' @ print_int status @ bytes_of '' '' @ msg @ crlf
      @ bytes_of ''Content-length: '' @ print_nat (length longmsg) @ crlf @ crlf @ longmsg) w"

definition mime_types :: "(cstring \<times> cstring) list" where
  "mime_types = map (\<lambda>(x, y). (bytes_of x, bytes_of y))
     [(''.css'', ''text/css''), (''.gif'', ''image/gif''), (''.htm'', ''text/html''), (''.html'', ''text/html''),
      (''.jpeg'', ''image/jpeg''), (''.jpg'', ''image/jpeg''), (''.ico'', ''image/x-icon''),
      (''.js'', ''application/javascript''), (''.pdf'', ''application/pdf''), (''.mp4'', ''video/mp4''),
      (''.png'', ''image/png''), (''.svg'', ''image/svg+xml''), (''.xml'', ''text/xml'')]"

fun strrchr :: "cstring \<Rightarrow> byte \<Rightarrow> cstring ptr" where
  "strrchr [] c = None"
| "strrchr (b # bs) c = (case strrchr bs c of Some r \<Rightarrow> Some r | None \<Rightarrow> if b = c then Some (b # bs) else None)"

definition get_mime_type :: "cstring \<Rightarrow> cstring" where
  "get_mime_type name = (case strrchr name 46 of
     None \<Rightarrow> bytes_of ''text/plain''
   | Some dot \<Rightarrow> (case map_of mime_types dot of Some t \<Rightarrow> t | None \<Rightarrow> bytes_of ''text/plain''))"

text \<open>Only headers are sent: the call of \<open>sendfile\<close> is a comment and the loop closes the connection.\<close>

definition serve_static :: "http_request \<Rightarrow> cstring \<Rightarrow> nat \<Rightarrow> web \<Rightarrow> web outcome" where
  "serve_static req name total_size w =
     bindE (send_text 256
       ((if 0 < req_offset req
         then bytes_of ''HTTP/1.1 206 Partial'' @ crlf @ bytes_of ''Content-Range: bytes '' @ print_int (req_offset req)
           @ bytes_of ''-'' @ print_nat (req_end req) @ bytes_of ''/'' @ print_nat total_size @ crlf
         else bytes_of ''HTTP/1.1 200 OK'' @ crlf @ bytes_of ''Accept-Ranges: bytes'' @ crlf)
        @ bytes_of ''Cache-Control: no-cache'' @ crlf
        @ bytes_of ''Content-length: '' @ print_int (int (req_end req) - req_offset req) @ crlf
        @ bytes_of ''Content-type: '' @ get_mime_type name @ crlf @ crlf) w) (\<lambda>w.
     Inr (if req_offset req < int (req_end req) then w\<lparr>w_open := False\<rparr> else w))"

definition page_head :: cstring where
  "page_head = bytes_of ''HTTP/1.1 200 OK'' @ crlf @ bytes_of ''Content-Type: text/html'' @ crlf @ crlf
     @ bytes_of ''<html><head><style>body{font-family: monospace; font-size: 13px;}td {padding: 1.5px 6px;}</style></head><body><table><tbody>'' @ [10]"

definition peer_count :: "int \<Rightarrow> cstring" where
  "peer_count n = bytes_of ''</tbody></table><table><tbody><tr>Peer Table, '' @ print_int n @ bytes_of '' Peers:</tr>'' @ [10]"

definition peer_row :: "nat \<Rightarrow> int \<Rightarrow> cstring" where
  "peer_row i peerID = bytes_of ''<tr><td>Entry '' @ print_nat i @ bytes_of '': ''
     @ (if peerID = -1 then bytes_of ''empty'' else print_int peerID) @ bytes_of ''</td></tr>'' @ [10]"

definition page_foot :: cstring where
  "page_foot = bytes_of ''</tbody></table></body></html>''"

text \<open>The tree comes after the end of the page, with the byte that should end its string.\<close>

definition handle_directory_request :: "web_host \<Rightarrow> id_table \<Rightarrow> filesystem \<Rightarrow> web \<Rightarrow> web outcome" where
  "handle_directory_request h peerTable fs w =
     bindE (send_text MAXLINE page_head w) (\<lambda>w.
     bindE (send_text MAXLINE (peer_count (numberOfEntries peerTable)) w) (\<lambda>w.
     bindE (foldE (\<lambda>i. send_text MAXLINE (peer_row i (peerIDs peerTable ! i))) [0..<length (peerIDs peerTable)] w) (\<lambda>w.
     bindE (send_text MAXLINE page_foot w) (\<lambda>w.
     bindE (filesystem_generate_html (wh_heap h) (wh_ctime h) fs) (\<lambda>html.
     bindE (read_string html) (\<lambda>(str, _).
     bindE (written (str @ [0]) w) (\<lambda>(_, w). Inr w)))))))"

text \<open>One transaction, in the child, which has the tracker's state as it was at the \<open>fork\<close>.\<close>

definition process :: "web_host \<Rightarrow> id_table \<Rightarrow> filesystem \<Rightarrow> web \<Rightarrow> web outcome" where
  "process h peerTable fs w =
     bindE (parse_request h w) (\<lambda>(req, w).
     bindE (read_string (req_filename req)) (\<lambda>(name, _). case wh_open h name of
       Missing \<Rightarrow> client_error 404 (bytes_of ''Not found'') (bytes_of ''File not found'') w
     | Regular st_size \<Rightarrow>
         let req = (if req_end req = 0 then req\<lparr>req_end := st_size\<rparr> else req)
         in serve_static req name st_size w
     | Directory \<Rightarrow> handle_directory_request h peerTable fs w
     | Special \<Rightarrow> client_error 400 (bytes_of ''Error'') (bytes_of ''Unknow Error'') w))"

text \<open>
  The thread: for each connection \<open>fork\<close> says whether there is a child; without one the thread ends. What
  happens in a child, a fault included, changes nothing in the tracker.
\<close>

record accepted =
  ac_forked :: bool
  ac_table :: id_table
  ac_fs :: filesystem
  ac_web :: web

fun webBrowser :: "web_host \<Rightarrow> accepted list \<Rightarrow> web outcome list" where
  "webBrowser h [] = []"
| "webBrowser h (a # rest) =
     (if ac_forked a then process h (ac_table a) (ac_fs a) (ac_web a) # webBrowser h rest else [])"

text \<open>The same table on the terminal.\<close>

definition printPeerTable :: "id_table \<Rightarrow> cstring" where
  "printPeerTable peerTable =
     [10] @ bytes_of ''####################'' @ [10] @ bytes_of ''     Peer Table     '' @ [10] @ bytes_of ''####################'' @ [10, 10]
     @ bytes_of ''Contains '' @ print_int (numberOfEntries peerTable) @ bytes_of '' peers:'' @ [10]
     @ concat (map (\<lambda>i. bytes_of ''Entry '' @ print_nat i @ bytes_of '': ''
         @ (if peerIDs peerTable ! i = -1 then bytes_of ''empty'' else print_int (peerIDs peerTable ! i)) @ [10])
       [0..<length (peerIDs peerTable)])"

section \<open>The command line of the web server\<close>

text \<open>No longer called. A sign without digits, or no text at all, counts as a number.\<close>

definition isNumber :: "cstring \<Rightarrow> int" where
  "isNumber number = (if list_all is_digit (case number of c # rest \<Rightarrow> if c = 45 then rest else number | [] \<Rightarrow> []) then 1 else 0)"

definition checkargs :: "(cstring \<Rightarrow> bool) \<Rightarrow> cstring list \<Rightarrow> int" where
  "checkargs stat_ok argv =
     (if length argv \<noteq> 3 then -1
      else if isNumber (argv ! 1) = 0 then -1
      else if \<not> stat_ok (argv ! 2) then -1
      else 1)"

lemma checkargs_accepts: "checkargs stat_ok argv = 1 \<longleftrightarrow> (\<exists>p port dir. argv = [p, port, dir] \<and> isNumber port = 1 \<and> stat_ok dir)"
proof -
  have "isNumber (argv ! 1) = 0 \<or> isNumber (argv ! 1) = 1" by (simp add: isNumber_def)
  moreover have "length argv = 3 \<longleftrightarrow> (\<exists>p port dir. argv = [p, port, dir])" by (auto simp: length_Suc_conv numeral_3_eq_3)
  ultimately show ?thesis by (auto simp: checkargs_def)
qed

text \<open>Lines of a file that may be missing; it is read to its end.\<close>

definition numberOfLines :: "byte list ptr \<Rightarrow> nat outcome" where
  "numberOfLines file_bytes = (case file_bytes of None \<Rightarrow> Inl NullDeref | Some bs \<Rightarrow> Inr (length (filter (\<lambda>b. b = 10) bs)))"

section \<open>Reading a line from a stream in pieces\<close>

text \<open>A stream that brings bytes, perhaps with signals in between.\<close>

fun calm :: "reading \<Rightarrow> bool" where
  "calm (Arrived bs) \<longleftrightarrow> bs \<noteq> []"
| "calm Interrupted \<longleftrightarrow> True"
| "calm _ \<longleftrightarrow> False"

fun brought :: "reading \<Rightarrow> byte list" where
  "brought (Arrived bs) = bs"
| "brought _ = []"

definition rio_ok :: "rio \<Rightarrow> bool" where
  "rio_ok rp \<longleftrightarrow> length (rio_buf rp) = RIO_BUFSIZE \<and> rio_bufptr rp + nat (rio_cnt rp) \<le> RIO_BUFSIZE"

text \<open>What the reader has still to see: the unread bytes of its buffer and what comes.\<close>

definition unread :: "rio \<Rightarrow> reading list \<Rightarrow> byte list" where
  "unread rp es = take (nat (rio_cnt rp)) (drop (rio_bufptr rp) (rio_buf rp)) @ concat (map brought es)"

lemma rio_fill_ok:
  "rio_ok rp \<Longrightarrow> list_all calm es \<Longrightarrow> unread rp es \<noteq> [] \<Longrightarrow>
    \<exists>rp' es'. rio_fill es rp = Inr (None, rp', es') \<and> rio_ok rp' \<and> list_all calm es' \<and> 0 < rio_cnt rp'
      \<and> unread rp' es' = unread rp es"
proof (induction es rp rule: rio_fill.induct)
  case (1 es rp)
  show ?case
  proof (cases "0 < rio_cnt rp")
    case True
    with 1 show ?thesis by (subst rio_fill.simps) simp
  next
    case False
    then obtain e rest where es: "es = e # rest" using 1(4) by (cases es) (auto simp: unread_def)
    show ?thesis
    proof (cases e)
      case (Arrived bs)
      with 1 False es show ?thesis
        by (subst rio_fill.simps) (auto simp: rio_ok_def unread_def Let_def RIO_BUFSIZE_def)
    next
      case Interrupted
      then have "rio_ok (rp\<lparr>rio_cnt := -1\<rparr>)" "unread (rp\<lparr>rio_cnt := -1\<rparr>) rest = unread rp es"
        using 1(2) False es by (auto simp: rio_ok_def unread_def)
      with 1 False es Interrupted show ?thesis by (subst rio_fill.simps) simp
    qed (use 1 es in simp_all)
  qed
qed

lemma rio_read_one:
  assumes "rio_ok rp" "list_all calm es" "unread rp es = b # bs"
  shows "\<exists>rp' es'. rio_read rp 1 es = Inr (1, [b], rp', es') \<and> rio_ok rp' \<and> list_all calm es' \<and> unread rp' es' = bs"
proof -
  obtain rp1 es1 where fill: "rio_fill es rp = Inr (None, rp1, es1)" "rio_ok rp1" "list_all calm es1" "0 < rio_cnt rp1"
      "unread rp1 es1 = b # bs"
    using rio_fill_ok [OF assms(1,2)] assms(3) by auto
  define mem where "mem = drop (rio_bufptr rp1) (rio_buf rp1)"
  obtain n where n: "nat (rio_cnt rp1) = Suc n" using fill(4) by (cases "nat (rio_cnt rp1)") auto
  have "mem \<noteq> []" using fill(2) n by (simp add: rio_ok_def mem_def)
  then obtain c mem' where mem: "mem = c # mem'" by (cases mem) auto
  then have c: "c = b" "take n mem' @ concat (map brought es1) = bs" using fill(5) n by (simp_all add: unread_def mem_def)
  define rp2 where "rp2 = rp1\<lparr>rio_bufptr := rio_bufptr rp1 + 1, rio_cnt := rio_cnt rp1 - 1\<rparr>"
  have "drop (Suc (rio_bufptr rp1)) (rio_buf rp1) = mem'" using mem by (metis mem_def drop_Suc list.sel(3) tl_drop)
  then have "unread rp2 es1 = bs" using c(2) n by (simp add: rp2_def unread_def nat_diff_distrib')
  moreover have "rio_ok rp2" using fill(2) n by (simp add: rio_ok_def rp2_def nat_diff_distrib')
  moreover have "rio_read rp 1 es = Inr (1, [b], rp2, es1)"
    using fill(1,4) n mem c(1) by (simp add: rio_read_def rp2_def mem_def)
  ultimately show ?thesis using fill(3) by blast
qed

lemma readline_loop_ok:
  assumes "rio_ok rp" "list_all calm es" "unread rp es = line @ 10 # rest" "10 \<notin> set line"
    "length line < k" "bufp + length line + 1 < length buf"
  shows "\<exists>rp' es'. readline_loop k n bufp rp buf es
      = Inr (n + int (length line), rp', take bufp buf @ line @ [10, 0] @ drop (bufp + length line + 2) buf, es')
    \<and> rio_ok rp' \<and> list_all calm es' \<and> unread rp' es' = rest"
  using assms
proof (induction line arbitrary: k n bufp rp buf es)
  case Nil
  then obtain j where k: "k = Suc j" by (cases k) auto
  obtain rp' es' where r: "rio_read rp 1 es = Inr (1, [10], rp', es')" "rio_ok rp'" "list_all calm es'" "unread rp' es' = rest"
    using rio_read_one [OF Nil.prems(1,2), of 10 rest] Nil.prems(3) by auto
  have "buf[bufp := 10, Suc bufp := 0] = take bufp buf @ [10, 0] @ drop (bufp + 2) buf"
    using Nil.prems(6) by (simp add: list_eq_iff_nth_eq nth_append nth_list_update nth_Cons split: nat.splits) (auto simp: nth_list_update intro!: arg_cong [where f = "(!) buf"])
  with r k Nil.prems(6) show ?case by (simp add: set_cell_def nat_add_distrib)
next
  case (Cons b line)
  then obtain j where k: "k = Suc j" by (cases k) auto
  obtain rp1 es1 where r: "rio_read rp 1 es = Inr (1, [b], rp1, es1)" "rio_ok rp1" "list_all calm es1" "unread rp1 es1 = line @ 10 # rest"
    using rio_read_one [OF Cons.prems(1,2), of b "line @ 10 # rest"] Cons.prems(3) by auto
  obtain rp' es' where ih: "readline_loop j (n + 1) (bufp + 1) rp1 (buf[bufp := b]) es1
      = Inr (n + 1 + int (length line), rp', take (bufp + 1) (buf[bufp := b]) @ line @ [10, 0] @ drop (bufp + 1 + length line + 2) (buf[bufp := b]), es')"
      "rio_ok rp'" "list_all calm es'" "unread rp' es' = rest"
    using Cons.IH [OF r(2-4), where k = j and bufp = "bufp + 1" and buf = "buf[bufp := b]" and n = "n + 1"] Cons.prems k by auto
  have "take (bufp + 1) (buf[bufp := b]) = take bufp buf @ [b]"
    using Cons.prems(6) by (simp add: take_Suc_conv_app_nth)
  with ih r(1) k Cons.prems(4,6) show ?case by (simp add: set_cell_def algebra_simps)
qed

text \<open>However the first line is cut and interrupted, it ends up in the buffer, with its newline and a 0.\<close>

lemma first_line:
  assumes "list_all calm es" "concat (map brought es) = line @ 10 # rest" "10 \<notin> set line" "length line + 2 \<le> MAXLINE"
    "length memory = RIO_BUFSIZE" "length buf = MAXLINE"
  shows "\<exists>rp es'. rio_readlineb (rio_readinitb memory) buf MAXLINE es
      = Inr (int (length line) + 1, rp, line @ [10, 0] @ drop (length line + 2) buf, es') \<and> unread rp es' = rest"
proof -
  have "rio_ok (rio_readinitb memory)" "unread (rio_readinitb memory) es = line @ 10 # rest"
    using assms(2,5) by (simp_all add: rio_ok_def rio_readinitb_def unread_def)
  from readline_loop_ok [OF this(1) assms(1) this(2) assms(3), where k = "MAXLINE - 1" and bufp = 0 and n = 1 and buf = buf] assms(4,6)
  show ?thesis by (auto simp: rio_readlineb_def MAXLINE_def add.commute)
qed

section \<open>Names in requests\<close>

text \<open>How a browser may write a byte of a name: as it is, or in hexadecimal after a per cent sign.\<close>

definition plain :: "byte \<Rightarrow> bool" where
  "plain b \<longleftrightarrow> b \<noteq> 0 \<and> b \<noteq> 37 \<and> b \<noteq> 63 \<and> \<not> is_space b"

definition escaped :: "byte \<Rightarrow> byte list \<Rightarrow> bool" where
  "escaped b p \<longleftrightarrow> p = [b] \<and> plain b \<or> b \<noteq> 0 \<and> (case p of
     [c, x, y] \<Rightarrow> c = 37 \<and> hex_value x = Some (unat b div 16) \<and> hex_value y = Some (unat b mod 16)
   | _ \<Rightarrow> False)"

lemma hex_value_Some:
  assumes "hex_value x = Some v"
  shows "\<not> is_space x" "x \<noteq> 45" "x \<noteq> 43" "x \<noteq> 0" "x \<noteq> 63" "x \<noteq> 10"
  using assms by (auto simp: hex_value_def is_space_def word_le_nat_alt split: if_splits)

lemma strtoul_hex:
  assumes "hex_value x = Some (unat b div 16)" "hex_value y = Some (unat b mod 16)"
  shows "ucast (strtoul16 (takeWhile (\<lambda>c. c \<noteq> 0) [x, y])) = (b :: byte)"
proof -
  have "16 * (unat b div 16) + unat b mod 16 = unat b" by simp
  then have "strtoul16 (takeWhile (\<lambda>c. c \<noteq> 0) [x, y]) = word_of_nat (unat b)"
    using assms hex_value_Some [OF assms(1)] hex_value_Some [OF assms(2)] by (simp add: strtoul16_def)
  moreover have "ucast (word_of_nat (unat b) :: 64 word) = (b :: byte)" by (rule bit_word_eqI) (simp add: bit_simps)
  ultimately show ?thesis by metis
qed

lemma escaped_bytes: "escaped b p \<Longrightarrow> p \<noteq> [] \<and> 0 \<notin> set p \<and> 63 \<notin> set p \<and> list_all (\<lambda>c. \<not> is_space c) p"
  using hex_value_Some by (auto simp: escaped_def plain_def is_space_def split: list.splits)

lemma escaped_all:
  "list_all2 escaped name pieces \<Longrightarrow>
    0 \<notin> set (concat pieces) \<and> 63 \<notin> set (concat pieces) \<and> list_all (\<lambda>c. \<not> is_space c) (concat pieces)
    \<and> (concat pieces = [] \<longleftrightarrow> name = [])"
  by (induction rule: list_all2_induct) (auto dest: escaped_bytes)

lemma decode_one:
  assumes "escaped b p" "i < length dest" "1 < left"
  shows "decode_url left (p @ rest) dest i = decode_url (left - 1) rest (dest[i := b]) (i + 1)"
proof (cases "p = [b] \<and> plain b")
  case True
  with assms(2,3) show ?thesis by (simp add: plain_def set_cell_def)
next
  case False
  then obtain x y where "p = [37, x, y]" "hex_value x = Some (unat b div 16)" "hex_value y = Some (unat b mod 16)"
    using assms(1) by (auto simp: escaped_def split: list.splits)
  with assms(2,3) strtoul_hex [of x b y] show ?thesis by (simp add: set_cell_def del: takeWhile.simps)
qed

lemma decode_name:
  "list_all2 escaped name pieces \<Longrightarrow> i + length name < length dest \<Longrightarrow> length name < left \<Longrightarrow>
    decode_url left (concat pieces @ 0 # rest) dest i = Inr (take i dest @ name @ [0] @ drop (i + length name + 1) dest)"
proof (induction name pieces arbitrary: left dest i rule: list_all2_induct)
  case Nil
  then show ?case by (simp add: set_cell_def upd_conv_take_nth_drop)
next
  case (Cons b name p pieces)
  have "take (Suc i) (dest[i := b]) = take i dest @ [b]" using Cons.prems(1) by (simp add: take_Suc_conv_app_nth)
  with Cons.IH [of "i + 1" "dest[i := b]" "left - 1"] Cons.prems decode_one [OF Cons.hyps(1), of i dest left "concat pieces @ 0 # rest"]
  show ?case by (simp add: less_diff_conv)
qed

lemma scan_word_found:
  assumes "found \<noteq> []" "list_all (\<lambda>b. \<not> is_space b) found" "is_space s"
  shows "scan_word (found @ s # rest) = Some (found, s # rest)" "scan_word (32 # found @ s # rest) = Some (found, s # rest)"
proof -
  obtain c cs where f: "found = c # cs" using assms(1) by (cases found) auto
  have "takeWhile (\<lambda>b. \<not> is_space b) (found @ s # rest) = found" "dropWhile (\<lambda>b. \<not> is_space b) (found @ s # rest) = s # rest"
    using assms(2,3) by (simp_all add: list_all_iff takeWhile_append dropWhile_append)
  with f assms(2) show "scan_word (found @ s # rest) = Some (found, s # rest)" "scan_word (32 # found @ s # rest) = Some (found, s # rest)"
    by (simp_all add: scan_word_def)
qed

lemma read_string_zero: "0 \<notin> set s \<Longrightarrow> read_string (s @ 0 # rest) = Inr (s, rest)"
  by (induction s) auto

text \<open>The name ends at a question mark.\<close>

lemma request_file_name:
  assumes "name \<noteq> []" "0 \<notin> set name" "63 \<notin> set name" "0 \<notin> set query" "query \<noteq> [] \<Longrightarrow> hd query = 63"
  shows "\<exists>more. request_file (47 # name @ query @ 0 # rest) = Inr (name @ 0 # more)"
proof (cases query)
  case Nil
  then have "first_index (\<lambda>b. b = 63) (name @ query) = None" using assms(3) by (auto simp: first_index_None)
  with Nil assms(1) read_string_zero [OF assms(2), of rest] show ?thesis by (simp add: request_file_def cell_def)
next
  case (Cons q more)
  with assms(5) have "query = 63 # more" by simp
  then have "first_index (\<lambda>b. b = 63) (name @ query) = Some (length name)"
    using assms(3) by (induction name) auto
  moreover have "read_string (name @ query @ 0 # rest) = Inr (name @ query, rest)"
    using read_string_zero [of "name @ query" rest] assms(2,4) by simp
  ultimately show ?thesis using assms(1) \<open>query = 63 # more\<close> by (simp add: request_file_def cell_def)
qed

definition host_ok :: "web_host \<Rightarrow> bool" where
  "host_ok h \<longleftrightarrow> length (wh_rio h) = RIO_BUFSIZE \<and> length (wh_buf h) = MAXLINE \<and> length (wh_uri h) = MAXLINE
     \<and> length (wh_filename h) = 512"

text \<open>A connection that brings the request line \<open>verb uri version\<close>, in any pieces, and what follows it.\<close>

definition solid :: "cstring \<Rightarrow> bool" where
  "solid s \<longleftrightarrow> s \<noteq> [] \<and> 0 \<notin> set s \<and> list_all (\<lambda>b. \<not> is_space b) s"

definition requests :: "web \<Rightarrow> cstring \<Rightarrow> bool" where
  "requests w uri \<longleftrightarrow> list_all calm (w_in w) \<and> (\<exists>verb version rest.
     concat (map brought (w_in w)) = (verb @ 32 # uri @ 32 # version) @ 10 # rest
     \<and> solid verb \<and> solid uri \<and> 0 \<notin> set version \<and> 10 \<notin> set version
     \<and> length (verb @ 32 # uri @ 32 # version) + 2 \<le> MAXLINE)"

lemma not_newline: "list_all (\<lambda>b. \<not> is_space b) s \<Longrightarrow> 10 \<notin> set s"
  by (auto simp: list_all_iff is_space_def)

lemma parse_request_uri:
  assumes "host_ok h" "requests w uri"
  shows "\<exists>more es. parse_request h w = bindE (request_file (uri @ 0 # more)) (\<lambda>file.
      bindE (decode_url MAXLINE file (wh_filename h) 0) (\<lambda>filename.
      Inr (\<lparr>req_filename = filename, req_offset = 0, req_end = 0\<rparr>, w\<lparr>w_in := es\<rparr>)))"
proof -
  obtain verb version rest where r: "list_all calm (w_in w)" "concat (map brought (w_in w)) = (verb @ 32 # uri @ 32 # version) @ 10 # rest"
      "solid verb" "solid uri" "0 \<notin> set version" "10 \<notin> set version" "length (verb @ 32 # uri @ 32 # version) + 2 \<le> MAXLINE"
    using assms(2) unfolding requests_def by blast
  define line where "line = verb @ 32 # uri @ 32 # version"
  have clean: "10 \<notin> set line" "0 \<notin> set (line @ [10])"
    using r(3-6) not_newline [of verb] not_newline [of uri] by (auto simp: line_def solid_def)
  obtain rp es where read: "rio_readlineb (rio_readinitb (wh_rio h)) (wh_buf h) MAXLINE (w_in w)
      = Inr (int (length line) + 1, rp, line @ [10, 0] @ drop (length line + 2) (wh_buf h), es)"
    using first_line [OF r(1) r(2) [folded line_def] clean(1) r(7) [folded line_def], of "wh_rio h" "wh_buf h"] assms(1)
    by (auto simp: host_ok_def)
  have str: "read_string (line @ [10, 0] @ drop (length line + 2) (wh_buf h)) = Inr (line @ [10], drop (length line + 2) (wh_buf h))"
    using read_string_zero [OF clean(2)] by simp
  have "scan_word (line @ [10]) = Some (verb, 32 # uri @ 32 # version @ [10])"
    using scan_word_found(1) [of verb 32] r(3) by (simp add: line_def solid_def)
  moreover have "scan_word (32 # uri @ 32 # version @ [10]) = Some (uri, 32 # version @ [10])"
    using scan_word_found(2) [of uri 32] r(4) by (simp add: solid_def)
  ultimately have "scan_uri (line @ [10]) (wh_uri h) = Inr (uri @ 0 # drop (length uri + 1) (wh_uri h))"
    using r(7) assms(1) by (simp add: scan_uri_def store_string_def host_ok_def)
  with read str show ?thesis by (auto simp: parse_request_def)
qed

text \<open>What is left of parsing when the name has been found: its decoding, up to a 0.\<close>

lemma parse_request_name:
  assumes "host_ok h" "requests w (47 # concat pieces @ query)" "list_all2 escaped name pieces" "name \<noteq> []"
    and "query = [] \<or> hd query = 63"
  shows "\<exists>tail es. parse_request h w = bindE (decode_url MAXLINE (concat pieces @ 0 # tail) (wh_filename h) 0)
      (\<lambda>filename. Inr (\<lparr>req_filename = filename, req_offset = 0, req_end = 0\<rparr>, w\<lparr>w_in := es\<rparr>))"
proof -
  have parts: "0 \<notin> set (concat pieces)" "63 \<notin> set (concat pieces)" "concat pieces \<noteq> []" "0 \<notin> set query"
    using escaped_all [OF assms(3)] assms(2,4) by (auto simp: requests_def solid_def)
  obtain more es where parse: "parse_request h w = bindE (request_file ((47 # concat pieces @ query) @ 0 # more)) (\<lambda>file.
      bindE (decode_url MAXLINE file (wh_filename h) 0) (\<lambda>filename.
      Inr (\<lparr>req_filename = filename, req_offset = 0, req_end = 0\<rparr>, w\<lparr>w_in := es\<rparr>)))"
    using parse_request_uri [OF assms(1,2)] by blast
  obtain tail where "request_file (47 # concat pieces @ query @ 0 # more) = Inr (concat pieces @ 0 # tail)"
    using request_file_name [OF parts(3,1,2,4)] assms(5) by blast
  with parse show ?thesis by auto
qed

text \<open>C16. The tracker's web server decodes what a browser asks for: when the first line of a request, cut into
  pieces of any sizes with signals in between, names a file with bytes of its name written as they are or
  in hexadecimal, and perhaps a query after it, \<open>parse_request\<close> has the file's name, whatever was in
  its arrays before.
\<close>

theorem request_names_file:
  assumes "host_ok h" "requests w (47 # concat pieces @ query)" "list_all2 escaped name pieces"
    and "name \<noteq> []" "length name < 512" "query = [] \<or> hd query = 63"
  shows "\<exists>req es. parse_request h w = Inr (req, w\<lparr>w_in := es\<rparr>) \<and> req_offset req = 0 \<and> req_end req = 0
    \<and> read_string (req_filename req) = Inr (name, drop (length name + 1) (wh_filename h))"
proof -
  obtain tail es where parse: "parse_request h w = bindE (decode_url MAXLINE (concat pieces @ 0 # tail) (wh_filename h) 0)
      (\<lambda>filename. Inr (\<lparr>req_filename = filename, req_offset = 0, req_end = 0\<rparr>, w\<lparr>w_in := es\<rparr>))"
    using parse_request_name [OF assms(1-4,6)] by blast
  have "decode_url MAXLINE (concat pieces @ 0 # tail) (wh_filename h) 0
      = Inr (name @ [0] @ drop (length name + 1) (wh_filename h))"
    using decode_name [OF assms(3), of 0 "wh_filename h" MAXLINE tail] assms(1,5) by (simp add: host_ok_def MAXLINE_def)
  moreover have "0 \<notin> set name"
    using assms(3) by (induction rule: list_all2_induct) (auto simp: escaped_def plain_def)
  ultimately show ?thesis using parse read_string_zero [of name] by auto
qed

definition demo_host :: web_host where
  "demo_host = \<lparr>wh_open = (\<lambda>name. if name = [46] then Directory else Missing), wh_ctime = (\<lambda>_. [48, 10]),
     wh_rio = replicate RIO_BUFSIZE 7, wh_buf = replicate MAXLINE 7, wh_uri = replicate MAXLINE 7,
     wh_filename = replicate 512 7, wh_heap = 0\<rparr>"

text \<open>The line \<open>GET /%61b?q HTTP\<close>, cut and interrupted.\<close>

definition demo_web :: web where
  "demo_web = \<lparr>w_in = [Arrived [71, 69], Interrupted, Arrived [84, 32, 47, 37, 54, 49, 98, 63, 113, 32, 72, 10]],
     w_answers = [], w_sent = [], w_open = True\<rparr>"

lemma demo_host_ok: "host_ok demo_host"
  by (simp add: demo_host_def host_ok_def del: replicate.simps)

lemma demo_requests: "requests demo_web [47, 37, 54, 49, 98, 63, 113]"
  unfolding requests_def
  by (intro conjI exI [of _ "[71, 69, 84]"] exI [of _ "[72]"] exI [of _ "[]"])
    (simp_all add: demo_web_def solid_def is_space_def MAXLINE_def)

theorem request_names_file_witness:
  "\<exists>req es. parse_request demo_host demo_web = Inr (req, demo_web\<lparr>w_in := es\<rparr>) \<and> req_offset req = 0 \<and> req_end req = 0
    \<and> read_string (req_filename req) = Inr ([97, 98], replicate 509 7)"
proof -
  have pieces: "list_all2 escaped [97, 98] [[37, 54, 49], [98]]"
    by (simp add: escaped_def plain_def hex_value_def is_space_def)
  have line: "requests demo_web (47 # concat [[37, 54, 49], [98]] @ [63, 113])"
    using demo_requests by simp
  show ?thesis
    using request_names_file [OF demo_host_ok line pieces]
    by (simp add: demo_host_def del: replicate.simps)
qed

section \<open>A name that is too long\<close>

lemma decode_overflow:
  "list_all2 escaped name pieces \<Longrightarrow> i \<le> length dest \<Longrightarrow> length dest \<le> i + length name \<Longrightarrow> length name < left \<Longrightarrow>
    decode_url left (concat pieces @ 0 # rest) dest i = Inl OutOfBounds"
proof (induction name pieces arbitrary: left dest i rule: list_all2_induct)
  case Nil
  then show ?case by (simp add: set_cell_def)
next
  case (Cons b name p pieces)
  show ?case
  proof (cases "i < length dest")
    case True
    with Cons.IH [of "i + 1" "dest[i := b]" "left - 1"] Cons.prems
      decode_one [OF Cons.hyps(1), of i dest left "concat pieces @ 0 # rest"]
    show ?thesis by (simp add: less_diff_conv)
  next
    case False
    with Cons.hyps(1) Cons.prems show ?thesis
      by (auto simp: escaped_def plain_def set_cell_def split: list.splits)
  qed
qed

lemma pieces_length: "list_all2 escaped name pieces \<Longrightarrow> length name \<le> length (concat pieces)"
proof (induction rule: list_all2_induct)
  case Nil
  then show ?case by simp
next
  case (Cons b name p pieces)
  from escaped_bytes [OF Cons.hyps(1)] have "0 < length p" by simp
  with Cons.IH show ?case by (simp add: Suc_le_eq del: length_greater_0_conv)
qed

text \<open>C39. A browser can make the server write past an array: the name of a request is bounded by the length of
  a line, 1024 bytes, but decoded into an array of 512, so with a name of 512 bytes or more
  \<open>parse_request\<close> leaves the array, whatever the pieces in which the request comes.
\<close>

theorem request_overflows:
  assumes "host_ok h" "requests w (47 # concat pieces @ query)" "list_all2 escaped name pieces"
    and "512 \<le> length name" "query = [] \<or> hd query = 63"
  shows "parse_request h w = Inl OutOfBounds"
proof -
  have "name \<noteq> []" using assms(4) by auto
  moreover have "length name < MAXLINE" using pieces_length [OF assms(3)] assms(2) by (auto simp: requests_def)
  ultimately show ?thesis
    using parse_request_name [OF assms(1-3) _ assms(5)] decode_overflow [OF assms(3), of 0 "wh_filename h" MAXLINE] assms(1,4)
    by (auto simp: host_ok_def)
qed

definition long_web :: web where
  "long_web = \<lparr>w_in = [Arrived ([71, 32, 47] @ replicate 600 97), Arrived [32, 72, 10]],
     w_answers = [], w_sent = [], w_open = True\<rparr>"

lemma concat_replicate_one: "concat (replicate n [b]) = replicate n b"
  by (induction n) simp_all

theorem request_overflows_witness: "parse_request demo_host long_web = Inl OutOfBounds"
proof -
  have pieces: "list_all2 escaped (replicate 600 97) (replicate 600 [97])"
    by (simp add: list_all2_conv_all_nth escaped_def plain_def is_space_def del: replicate.simps)
  have line: "requests long_web (47 # concat (replicate 600 [97]) @ [])"
    unfolding requests_def concat_replicate_one
    by (intro conjI exI [of _ "[71]"] exI [of _ "[72]"] exI [of _ "[]"])
      (simp_all add: long_web_def solid_def is_space_def MAXLINE_def list_all_iff del: replicate.simps)
  show ?thesis
    by (rule request_overflows [OF demo_host_ok line pieces]) (simp_all del: replicate.simps)
qed

section \<open>Writing until everything is written\<close>

text \<open>Answers that take at least one byte each or are signals, and \<open>k\<close> of them that take bytes.\<close>

definition patient :: "nat \<Rightarrow> web \<Rightarrow> bool" where
  "patient k w \<longleftrightarrow> list_all (\<lambda>(r, eintr). 0 < r \<or> eintr) (w_answers w)
     \<and> k \<le> length (filter (\<lambda>(r, _). 0 < r) (w_answers w))"

lemma written_loop_ok:
  "list_all (\<lambda>(r, eintr). 0 < r \<or> eintr) answers \<Longrightarrow> length buf + m \<le> length (filter (\<lambda>(r, _). 0 < r) answers) \<Longrightarrow>
    \<exists>rest. written_loop buf answers out = Inr (True, rest, out @ buf)
      \<and> list_all (\<lambda>(r, eintr). 0 < r \<or> eintr) rest \<and> m \<le> length (filter (\<lambda>(r, _). 0 < r) rest)"
proof (induction buf answers out rule: written_loop.induct)
  case (1 bufp out)
  then show ?case by simp
next
  case (2 bufp r eintr answers out)
  show ?case
  proof (cases "bufp = []")
    case True
    with 2(3,4) show ?thesis by simp
  next
    case False
    show ?thesis
    proof (cases "r \<le> 0")
      case True
      with 2(1) [OF False True] 2(3,4) False show ?thesis by simp
    next
      case pos: False
      have "length (drop (nat r) bufp) < length bufp" using False pos by (cases bufp) auto
      then have "length (drop (nat r) bufp) + m \<le> length (filter (\<lambda>(r, _). 0 < r) answers)" using 2(4) pos by simp
      with 2(2) [OF False pos] 2(3) False pos show ?thesis by simp
    qed
  qed
qed

lemma written_ok:
  assumes "patient (length buf + m) w"
  shows "\<exists>w'. written buf w = Inr (int (length buf), w') \<and> w_sent w' = w_sent w @ buf \<and> patient m w'"
  using written_loop_ok [of "w_answers w" buf m "w_sent w"] assms by (auto simp: patient_def written_def)

lemma send_text_ok:
  assumes "length str < room" "patient (length str + m) w"
  shows "\<exists>w'. send_text room str w = Inr w' \<and> w_sent w' = w_sent w @ str \<and> patient m w'"
  using written_ok [OF assms(2)] assms(1) by (auto simp: send_text_def sprintf_def)

lemma send_rows_ok:
  assumes "\<forall>i \<in> set is. length (row i) < room" "patient (length (concat (map row is)) + m) w"
  shows "\<exists>w'. foldE (\<lambda>i. send_text room (row i)) is w = Inr w' \<and> w_sent w' = w_sent w @ concat (map row is) \<and> patient m w'"
  using assms
proof (induction "is" arbitrary: w)
  case Nil
  then show ?case by simp
next
  case (Cons i rest)
  obtain w1 where w1: "send_text room (row i) w = Inr w1" "w_sent w1 = w_sent w @ row i"
      "patient (length (concat (map row rest)) + m) w1"
    using send_text_ok [of "row i" room "length (concat (map row rest)) + m" w] Cons.prems by (auto simp: add.assoc)
  obtain w' where "foldE (\<lambda>i. send_text room (row i)) rest w1 = Inr w'" "w_sent w' = w_sent w1 @ concat (map row rest)" "patient m w'"
    using Cons.IH [OF _ w1(3)] Cons.prems(1) by auto
  with w1 show ?case by simp
qed

section \<open>The page\<close>

definition page :: "id_table \<Rightarrow> cstring list \<Rightarrow> byte list" where
  "page peerTable ls = page_head @ peer_count (numberOfEntries peerTable)
     @ concat (map (\<lambda>i. peer_row i (peerIDs peerTable ! i)) [0..<length (peerIDs peerTable)])
     @ page_foot @ bytes_of ''<pre>'' @ end_lines (bytes_of ''<br>'') ls @ [0]"

definition table_ints :: "id_table \<Rightarrow> bool" where
  "table_ints t \<longleftrightarrow> is_int (numberOfEntries t) \<and> list_all is_int (peerIDs t) \<and> is_int (int (length (peerIDs t)))"

lemma length_print_int: "is_int i \<Longrightarrow> length (print_int i) \<le> 11"
proof -
  assume "is_int i"
  then have "nat i < 10 ^ Suc 9" "nat (- i) < 10 ^ Suc 9" by (auto simp: is_int_def)
  from this [THEN length_print_nat] show ?thesis by (simp add: print_int_def)
qed

lemma page_texts:
  "length page_head < MAXLINE" "length page_foot < MAXLINE"
  "is_int n \<Longrightarrow> length (peer_count n) < MAXLINE"
  "is_int (int i) \<Longrightarrow> is_int p \<Longrightarrow> length (peer_row i p) < MAXLINE"
  using length_print_int [of n] length_print_int [of p] length_print_int [of "int i"]
  by (simp_all add: page_head_def page_foot_def peer_count_def peer_row_def crlf_def MAXLINE_def print_int_def)

lemma root_request:
  assumes "host_ok h" "requests w [47]"
  shows "\<exists>req es cells. parse_request h w = Inr (req, w\<lparr>w_in := es\<rparr>) \<and> read_string (req_filename req) = Inr ([46], cells)"
proof -
  obtain more es where "parse_request h w = bindE (request_file ([47] @ 0 # more)) (\<lambda>file.
      bindE (decode_url MAXLINE file (wh_filename h) 0) (\<lambda>filename.
      Inr (\<lparr>req_filename = filename, req_offset = 0, req_end = 0\<rparr>, w\<lparr>w_in := es\<rparr>)))"
    using parse_request_uri [OF assms] by blast
  moreover have "request_file ([47] @ 0 # more) = Inr [46, 0]" by (simp add: request_file_def cell_def)
  moreover have dot: "list_all2 escaped [46] [[46]]" by (simp add: escaped_def plain_def is_space_def)
  have "\<exists>cells. decode_url MAXLINE [46, 0] (wh_filename h) 0 = Inr (46 # 0 # cells)"
    using decode_name [OF dot, of 0 "wh_filename h" MAXLINE "[]"] assms(1) by (simp add: host_ok_def MAXLINE_def)
  ultimately show ?thesis by auto
qed

lemma directory_page:
  assumes "table_ints t" "filesystem_generate_html (wh_heap h) (wh_ctime h) fs = Inr (html @ [0])" "0 \<notin> set html"
    and "patient (length (page_head @ peer_count (numberOfEntries t)
      @ concat (map (\<lambda>i. peer_row i (peerIDs t ! i)) [0..<length (peerIDs t)]) @ page_foot @ html @ [0])) w"
  shows "\<exists>w'. handle_directory_request h t fs w = Inr w' \<and> w_sent w' = w_sent w @ page_head @ peer_count (numberOfEntries t)
      @ concat (map (\<lambda>i. peer_row i (peerIDs t ! i)) [0..<length (peerIDs t)]) @ page_foot @ html @ [0]"
proof -
  define rows where "rows = concat (map (\<lambda>i. peer_row i (peerIDs t ! i)) [0..<length (peerIDs t)])"
  define n where "n = numberOfEntries t"
  have int_n: "is_int n" using assms(1) by (simp add: table_ints_def n_def)
  have row: "\<forall>i \<in> set [0..<length (peerIDs t)]. length (peer_row i (peerIDs t ! i)) < MAXLINE"
    using assms(1) page_texts(4) by (auto simp: table_ints_def list_all_length is_int_def)
  obtain w1 where w1: "send_text MAXLINE page_head w = Inr w1" "w_sent w1 = w_sent w @ page_head"
      "patient (length (peer_count n @ rows @ page_foot @ html @ [0])) w1"
    using send_text_ok [OF page_texts(1), of "length (peer_count n @ rows @ page_foot @ html @ [0])" w] assms(4)
    by (auto simp: rows_def n_def)
  obtain w2 where w2: "send_text MAXLINE (peer_count n) w1 = Inr w2" "w_sent w2 = w_sent w1 @ peer_count n"
      "patient (length (rows @ page_foot @ html @ [0])) w2"
    using send_text_ok [OF page_texts(3) [OF int_n], of "length (rows @ page_foot @ html @ [0])" w1] w1(3) by auto
  obtain w3 where w3: "foldE (\<lambda>i. send_text MAXLINE (peer_row i (peerIDs t ! i))) [0..<length (peerIDs t)] w2 = Inr w3"
      "w_sent w3 = w_sent w2 @ rows" "patient (length (page_foot @ html @ [0])) w3"
    using send_rows_ok [OF row, of "length (page_foot @ html @ [0])" w2] w2(3) by (auto simp: rows_def)
  obtain w4 where w4: "send_text MAXLINE page_foot w3 = Inr w4" "w_sent w4 = w_sent w3 @ page_foot"
      "patient (length (html @ [0])) w4"
    using send_text_ok [OF page_texts(2), of "length (html @ [0])" w3] w3(3) by auto
  obtain w5 where w5: "written (html @ [0]) w4 = Inr (int (length (html @ [0])), w5)" "w_sent w5 = w_sent w4 @ html @ [0]"
    using written_ok [of "html @ [0]" 0 w4] w4(3) by auto
  have "handle_directory_request h t fs w = Inr w5"
    using w1(1) w2(1) w3(1) w4(1) w5(1) assms(2) read_string_zero [OF assms(3), of "[]"]
    by (simp add: handle_directory_request_def n_def)
  with w1(2) w2(2) w3(2) w4(2) w5(2) show ?thesis by (simp add: rows_def n_def)
qed


definition demo_tree :: filesystem where
  "demo_tree = \<lparr>fs_root_path = None, fs_root = Folder [] [file_new 5 1 [97], dir_entry [98]]
     [Folder [98] [file_new 700 2 [99, 100]] []]\<rparr>"


text \<open>Otherwise the length of the tree's text is counted past its end.\<close>

lemma page_unterminated:
  assumes "good_clock (wh_ctime h)" "printable (fs_root fs)" "wh_heap h \<noteq> 0"
  shows "\<exists>html. filesystem_generate_html (wh_heap h) (wh_ctime h) fs = Inr html \<and> read_string html = Inl OutOfBounds"
proof -
  obtain ls where ls: "0 \<notin> set (end_lines (bytes_of ''<br>'') ls)"
      "filesystem_generate_html (wh_heap h) (wh_ctime h) fs = Inr (bytes_of ''<pre>'' @ end_lines (bytes_of ''<br>'') ls @ [wh_heap h])"
    using tree_html [OF assms(1,2)] by blast
  have "0 \<notin> set s \<Longrightarrow> read_string s = Inl OutOfBounds" for s by (induction s) auto
  then show ?thesis using ls assms(3) by (auto simp: bytes_of_def)
qed

section \<open>Files\<close>

text \<open>A file's answer is its header, with the size as \<open>Content-length\<close>, and no byte of the file.\<close>

lemma mime_type_short: "length (get_mime_type name) \<le> 22"
proof -
  have "\<forall>p \<in> set mime_types. length (snd p) \<le> 22" by (simp add: mime_types_def)
  then have "length t \<le> 22" if "map_of mime_types dot = Some t" for dot t
    using map_of_SomeD [OF that] by fastforce
  then show ?thesis by (auto simp: get_mime_type_def split: option.splits)
qed

lemma file_headers_only:
  assumes "req_offset req = 0" "is_int (int (req_end req))"
    and "patient (200 + m) w"
  shows "\<exists>w' headers. serve_static req name total_size w = Inr w' \<and> w_sent w' = w_sent w @ headers
    \<and> (w_open w' \<longleftrightarrow> w_open w \<and> req_end req = 0)
    \<and> headers = bytes_of ''HTTP/1.1 200 OK'' @ crlf @ bytes_of ''Accept-Ranges: bytes'' @ crlf
        @ bytes_of ''Cache-Control: no-cache'' @ crlf
        @ bytes_of ''Content-length: '' @ print_int (int (req_end req)) @ crlf
        @ bytes_of ''Content-type: '' @ get_mime_type name @ crlf @ crlf"
proof -
  define headers where "headers = bytes_of ''HTTP/1.1 200 OK'' @ crlf @ bytes_of ''Accept-Ranges: bytes'' @ crlf
    @ bytes_of ''Cache-Control: no-cache'' @ crlf @ bytes_of ''Content-length: '' @ print_int (int (req_end req)) @ crlf
    @ bytes_of ''Content-type: '' @ get_mime_type name @ crlf @ crlf"
  have short: "length headers \<le> 200"
    using length_print_int [OF assms(2)] mime_type_short [of name] by (simp add: headers_def crlf_def)
  then have "patient (length headers + m) w" using assms(3) by (simp add: patient_def)
  then obtain w1 where w1: "send_text 256 headers w = Inr w1" "w_sent w1 = w_sent w @ headers" "w_open w1 = w_open w"
    using written_ok [of headers m w] short by (auto simp: send_text_def sprintf_def written_def outcome_simps)
  then show ?thesis
    using assms(1) by (auto simp: serve_static_def headers_def)
qed

end
