(* ===== verification/Spread.thy ===== *)
theory Spread
  imports TrackerInv ClientSync Broadcast
begin

text \<open>
  How a change spreads: from the disk of one client, through its logic and its network thread, the tracker's
  network thread, its logic and its network thread again, to the logic of every other client. All that the
  theories before show about the parts is put together here.
\<close>

section \<open>The author reports\<close>

lemma report_leaves:
  assumes "holds (cl_ft c) m" "h_stale h" "wf_folder (fs_root (cl_cur_fs c))" "fs_root_path (cl_cur_fs c) \<noteq> None"
    and "read_disk h c = Inr new" "wf_folder (fs_root new)" "fs_root_path new \<noteq> None"
    and "5000000 \<le> microseconds_between (cl_prev_time c) t1" "5000000 \<le> microseconds_between t1 t2"
    and "filesystem_diff (cl_cur_fs c) new = (adds, dels)" "entries (fs_root (cl_cur_fs c)) \<noteq> entries (fs_root new)"
    and "c_idle (cl_cnt c)" "0 \<le> tracker_fd (cl_cnt c)"
  shows "\<exists>c' net. bindE (CheckLocalFilesystem h t1 c) (CheckLocalFilesystem h t2) = Inr c'
    \<and> entries (fs_root (cl_cur_fs c')) = entries (fs_root new)
    \<and> clt_poll_queues connect (cl_cnt c') = Inr ((cl_cnt c)\<lparr>c_net := net\<rparr>)
    \<and> sent_to (tracker_fd (cl_cnt c)) net
      = sent_to (tracker_fd (cl_cnt c)) (c_net (cl_cnt c)) @ packet (c2t_code CLIENT_UPDATE) (update_data (adds, dels))"
proof -
  obtain c' where c': "bindE (CheckLocalFilesystem h t1 c) (CheckLocalFilesystem h t2) = Inr c'"
    "cl_cnt c' = reported (cl_cur_fs c) new (cl_cnt c)" "entries (fs_root (cl_cur_fs c')) = entries (fs_root new)"
    using two_looks [OF assms(1,2) wf_uniq [OF assms(3)] assms(4-10)] by blast
  have "cl_cnt c' = fold c_send [Update adds dels] (cl_cnt c)"
    using assms(11) by (simp add: c'(2) reported_def assms(10) send_updated_files_def serialize_fs update_data_def)
  moreover have "client_images [Update adds dels] = packet (c2t_code CLIENT_UPDATE) (update_data (adds, dels))"
    by (simp add: client_images_def)
  ultimately show ?thesis using poll_messages [OF assms(12,13), of connect "[Update adds dels]"] c'(1,3) by auto
qed

section \<open>The tracker's logic takes the report in\<close>

lemma set_no_root: "filesystem_set_root_path fs None = rootless fs"
  by (cases fs) (simp add: filesystem_set_root_path_def)

lemma update_rootless:
  "client_update_in stale rnd (a, rootless adds, rootless dels) tk = client_update_in stale rnd (a, adds, dels) tk"
  by (simp add: client_update_in_def updateNetwork_def set_no_root)

lemma update_handled:
  assumes "get_peer_by_socket (t_peer_table t) fd = Inr (Some p)" "1 \<le> p_id p" "CLT_2_TKR_FILE_UPDATE t = []"
    and "ok_message (Update adds dels)" "waiting (t_net t) fd (packet (c2t_code CLIENT_UPDATE) (update_data (adds, dels)) @ later)"
  shows "\<exists>net. handle_client_msg now fd t
      = Inr (1, t\<lparr>CLT_2_TKR_FILE_UPDATE := [got_item (p_id p) (update_data (adds, dels))], t_net := net\<rparr>) \<and> waiting net fd later"
proof -
  have "list_all ok_message [Update adds dels]" "waiting (t_net t) fd (client_images [Update adds dels] @ later)"
    using assms(4,5) by (simp_all add: client_images_def)
  from handles_messages [OF this(1) assms(1,2) this(2), of now] show ?thesis
    using assms(3) by (auto simp: handles_def outcome_simps)
qed

lemma next_update_item:
  assumes "ok_message (Update adds dels)" "CLT_2_TKR_FILE_UPDATE (tk_network tk) = [got_item a (update_data (adds, dels))]"
  shows "next_update tk = Inr (Some (a, rootless adds, rootless dels), tk\<lparr>tk_network := (tk_network tk)\<lparr>CLT_2_TKR_FILE_UPDATE := []\<rparr>\<rparr>)"
proof -
  have "ok_folder (fs_root adds)" "ok_folder (fs_root dels)" using assms(1) by simp_all
  moreover have "0 < int (length (fs_data adds)) + int (length (fs_data dels))"
    using fs_data_nonempty [of "fs_root adds"] by (cases "fs_data adds") auto
  ultimately show ?thesis using deserialize_image [of "fs_root adds" "fs_data dels"] deserialize_image [of "fs_root dels" "[]"] assms(2)
    by (simp add: next_update_def receive_client_update_def got_item_def derefE_def update_data_def)
qed

text \<open>Whom the tracker tells, and what.\<close>

definition told :: "int \<Rightarrow> tracker_message \<Rightarrow> id_table \<Rightarrow> (int \<times> tracker_message) list" where
  "told a msg t = map (\<lambda>i. (i, msg)) (filter (\<lambda>i. i \<noteq> -1 \<and> i \<noteq> a \<and> i \<noteq> 0) (peerIDs t))"

lemma broadcast_told:
  "filesystemUpdateBroadcast adds dels a t network = foldE t_send (told a (Diff adds dels a) t) network"
proof -
  have "foldE (\<lambda>i network. if i \<noteq> -1 \<and> i \<noteq> a \<and> i \<noteq> 0
        then bindE (send_FS_update network i a (Some adds) (Some dels)) (\<lambda>(r, network). Inr network) else Inr network) ids network
      = foldE t_send (map (\<lambda>i. (i, Diff adds dels a)) (filter (\<lambda>i. i \<noteq> -1 \<and> i \<noteq> a \<and> i \<noteq> 0) ids)) network" for ids
    by (induction ids arbitrary: network) simp_all
  then show ?thesis by (simp add: filesystemUpdateBroadcast_def broadcast_def told_def)
qed

lemma told_members:
  assumes "ids_ok t"
  shows "set (told a msg t) = (\<lambda>i. (i, msg)) ` (members t - {a})" "to d (told a msg t) = (if d \<in> members t - {a} then [msg] else [])"
proof -
  have pos: "\<forall>i \<in> members t. 0 < i" and dist: "distinct (used_ids (peerIDs t))" using assms by (simp_all add: ids_ok_def)
  have f: "filter (\<lambda>i. i \<noteq> -1 \<and> i \<noteq> a \<and> i \<noteq> 0) (peerIDs t) = filter (\<lambda>i. i \<noteq> a) (used_ids (peerIDs t))"
    using pos by (auto simp: members_def used_ids_def intro!: filter_cong)
  show "set (told a msg t) = (\<lambda>i. (i, msg)) ` (members t - {a})"
    unfolding told_def f by (auto simp: members_def)
  have "to d (map (\<lambda>i. (i, msg)) is) = (if d \<in> set is then [msg] else [])" if "distinct is" for "is"
    using that by (induction "is") (auto simp: to_def)
  from this [of "filter (\<lambda>i. i \<noteq> a) (used_ids (peerIDs t))"] dist show "to d (told a msg t) = (if d \<in> members t - {a} then [msg] else [])"
    unfolding told_def f by (simp add: members_def)
qed

lemma tracker_takes:
  assumes "reaches rnd tk" "a \<in> members (tk_peerTable tk)" "wf_folder (fs_root new)" "named new"
    and "wf_folder (fs_root old)" "entries (fs_root (tk_fs tk)) = entries (fs_root old)" "filesystem_diff old new = (adds, dels)"
    and "ok_message (Update adds dels)" "CLT_2_TKR_FILE_UPDATE (tk_network tk) = [got_item a (update_data (adds, dels))]"
    and "\<forall>d \<in> members (tk_peerTable tk) - {a}. connected (t_peer_table (tk_network tk)) pr d" "ok_tracker_message (Diff adds dels a)"
  shows "\<exists>tk'. recv_while 2 next_update (client_update_in True rnd) tk = Inr tk' \<and> reaches rnd tk'
    \<and> entries (fs_root (tk_fs tk')) = entries (fs_root new)
    \<and> foldE t_send (told a (Diff (rootless adds) (rootless dels) a) (tk_peerTable tk)) ((tk_network tk)\<lparr>CLT_2_TKR_FILE_UPDATE := []\<rparr>)
        = Inr (tk_network tk')"
proof -
  let ?net = "(tk_network tk)\<lparr>CLT_2_TKR_FILE_UPDATE := []\<rparr>" and ?msg = "Diff (rootless adds) (rootless dels) a"
  let ?tk = "tk\<lparr>tk_network := ?net\<rparr>"
  have ok: "tracker_ok tk" by (rule reaches_ok [OF assms(1)])
  then have "good_net ?net" by (simp add: tracker_ok_def good_net_def)
  then have r: "reaches rnd ?tk" by (rule reaches.network [OF assms(1)])
  have legal: "legal ?tk (Changed a old new)" using assms(2-6) by simp
  have at: "a \<in> members (tk_peerTable ?tk)" "entries (fs_root (tk_fs ?tk)) = entries (fs_root old)" using assms(2,6) by simp_all
  obtain tk' where tk': "client_update_in True rnd (a, adds, dels) ?tk = Inr tk'" "entries (fs_root (tk_fs tk')) = entries (fs_root new)"
    "foldE t_send (told a ?msg (tk_peerTable tk)) ?net = Inr (tk_network tk')"
    using changes_ok [OF reaches_ok [OF r] at(1) assms(3-5) at(2) assms(7), of rnd]
    unfolding set_no_root broadcast_told by auto
  have ids: "ids_ok (tk_peerTable tk)" using ok by (simp add: tracker_ok_def)
  have "list_all (\<lambda>m. connected (t_peer_table ?net) pr (fst m) \<and> ok_tracker_message (snd m)) (told a ?msg (tk_peerTable tk))"
    unfolding list_all_iff told_members(1) [OF ids] using assms(10,11) by (simp add: diff_data_def)
  from t_send_all [OF this] tk'(3) have "CLT_2_TKR_FILE_UPDATE (tk_network tk') = []" by auto
  then have "next_update tk' = Inr (None, tk')" by (simp add: next_update_def receive_client_update_def)
  then have "recv_while 2 next_update (client_update_in True rnd) tk = Inr tk'"
    using next_update_item [OF assms(8,9)] tk'(1) by (simp add: numeral_2_eq_2 update_rootless)
  moreover have "reaches rnd tk'" by (rule reaches.event [OF r legal]) (use tk'(1) assms(7) in simp)
  ultimately show ?thesis using tk'(2,3) by blast
qed

section \<open>The others are told\<close>

lemma images_told:
  "tracker_images d (told a (Diff adds dels i) t) = concat (map (\<lambda>_. packet (t2c_code FS_UPDATE) (diff_data (adds, dels, i))) (to d (told a (Diff adds dels i) t)))"
proof -
  have "acqs (map (\<lambda>i. (i, Diff adds dels j)) is) = [] \<and> masters (map (\<lambda>i. (i, Diff adds dels j)) is) = [] \<and> tables (map (\<lambda>i. (i, Diff adds dels j)) is) = []
      \<and> map diff_data (to d (diffs (map (\<lambda>i. (i, Diff adds dels j)) is))) = map (\<lambda>_. diff_data (adds, dels, j)) (to d (map (\<lambda>i. (i, Diff adds dels j)) is))" for j "is"
    by (induction "is") (simp_all add: to_def)
  then show ?thesis by (simp add: tracker_images_def told_def to_def comp_def)
qed

lemma update_sent:
  assumes "ids_ok t" "t_idle network" "\<forall>d \<in> members t - {a}. connected (t_peer_table network) pr d" "ok_tracker_message (Diff adds dels a)"
    and "inj_on (\<lambda>d. p_socketfd (pr d)) (members t)" "foldE t_send (told a (Diff adds dels a) t) network = Inr network'"
  shows "\<exists>net. poll_queues network' = Inr (network\<lparr>t_net := net\<rparr>) \<and> (\<forall>d \<in> members t. sent_to (p_socketfd (pr d)) net
      = sent_to (p_socketfd (pr d)) (t_net network) @ (if d = a then [] else packet (t2c_code FS_UPDATE) (diff_data (adds, dels, a))))"
proof -
  let ?ms = "told a (Diff adds dels a) t"
  have "list_all (\<lambda>m. connected (t_peer_table network) pr (fst m) \<and> ok_tracker_message (snd m)) ?ms"
    unfolding list_all_iff told_members(1) [OF assms(1)] using assms(3,4) by auto
  from poll_tracker [OF assms(2) this] assms(6) obtain net where net: "poll_queues network' = Inr (network\<lparr>t_net := net\<rparr>)"
    "\<forall>d. (\<forall>x \<in> set ?ms. p_socketfd (pr (fst x)) = p_socketfd (pr d) \<longrightarrow> fst x = d) \<longrightarrow>
        sent_to (p_socketfd (pr d)) net = sent_to (p_socketfd (pr d)) (t_net network) @ tracker_images d ?ms"
    by auto
  have "\<forall>x \<in> set ?ms. p_socketfd (pr (fst x)) = p_socketfd (pr d) \<longrightarrow> fst x = d" if "d \<in> members t" for d
    unfolding told_members(1) [OF assms(1)] using inj_onD [OF assms(5)] that by auto
  moreover have "tracker_images d ?ms = (if d = a then [] else packet (t2c_code FS_UPDATE) (diff_data (adds, dels, a)))" if "d \<in> members t" for d
    unfolding images_told told_members(2) [OF assms(1)] using that by simp
  ultimately show ?thesis using net by (intro exI [of _ net] conjI ballI) simp_all
qed

lemma update_received:
  assumes "ok_tracker_message (Diff adds dels a)" "TKR_2_ME_FS_UPDATE c = []"
    and "waiting (c_net c) (tracker_fd c) (packet (t2c_code FS_UPDATE) (diff_data (adds, dels, a)) @ later)"
  shows "\<exists>c' s. handle_tracker_msg c = Inr (1, c') \<and> waiting (c_net c') (tracker_fd c) later
    \<and> recv_diff c' = Inr (Some (rootless adds, rootless dels, a), s)"
proof -
  have ms: "list_all (\<lambda>m. ok_tracker_message (snd m)) [(0 :: int, Diff adds dels a)]"
    "waiting (c_net c) (tracker_fd c) (tracker_images 0 [(0, Diff adds dels a)] @ later)"
    using assms(1,3) by (simp_all add: tracker_images_def to_def)
  obtain net where "handle_tracker_msg c = Inr (1, c\<lparr>TKR_2_ME_FS_UPDATE := [data_item (diff_data (adds, dels, a))], c_net := net\<rparr>)"
    "waiting net (tracker_fd c) later"
    using handles_from_tracker [OF ms] assms(2) by (auto simp: handles_def outcome_simps to_def)
  with recv_diff_item [of "c\<lparr>TKR_2_ME_FS_UPDATE := [data_item (diff_data (adds, dels, a))], c_net := net\<rparr>" "(adds, dels, a)" "[]"] assms(1)
  show ?thesis by fastforce
qed

section \<open>Properties\<close>


text \<open>Clients 5 and 6 are connected to a tracker with an empty master; a file \<open>a\<close> of 3 bytes comes on the disk of client 5.\<close>

definition peer_6 :: peer where
  "peer_6 = \<lparr>p_ip_addr = [10, 0, 0, 6], p_socketfd = 8, p_id = 6, p_time_last_alive = 0\<rparr>"

definition with_a :: filesystem where
  "with_a = \<lparr>fs_root_path = Some [47, 100], fs_root = Folder [] [file_new 3 7 [97]] []\<rparr>"

definition without_a :: filesystem where
  "without_a = \<lparr>fs_root_path = Some [47, 100], fs_root = Folder [] [] []\<rparr>"

definition tracker_of_5_and_6 :: "byte list \<Rightarrow> tnt" where
  "tracker_of_5_and_6 bs = (StartTrackerNetwork no_net)\<lparr>t_peer_table := Some \<lparr>pt_list = [Free, Used peer_5, Used peer_6], pt_count = 2, pt_id_counter = 7\<rparr>,
     t_net := no_net\<lparr>n_in := (\<lambda>_. [])(7 := [Bytes (take 11 bs), Bytes (drop 11 bs)])\<rparr>\<rparr>"

lemma of_5_and_6:
  "get_peer_by_socket (t_peer_table (tracker_of_5_and_6 bs)) 7 = Inr (Some peer_5)"
  "connected (t_peer_table (tracker_of_5_and_6 bs)) (\<lambda>d. if d = 5 then peer_5 else peer_6) 6"
  "CLT_2_TKR_FILE_UPDATE (tracker_of_5_and_6 bs) = []" "t_idle (tracker_of_5_and_6 bs)"
  by (simp_all add: tracker_of_5_and_6_def get_peer_by_socket_def get_peer_by_id_def get_peer_def connected_def peer_5_def peer_6_def
      t_idle_def StartTrackerNetwork_def)

lemma good_5_and_6: "good_net (tracker_of_5_and_6 bs)"
  by (simp add: good_net_def tracker_of_5_and_6_def get_peer_by_id_def get_peer_def)

lemma reaches_5_and_6:
  "\<exists>tk. reaches (\<lambda>s :: nat. (s, s + 1)) tk \<and> members (tk_peerTable tk) = {5, 6} \<and> entries (fs_root (tk_fs tk)) = {}
    \<and> tk_network tk = tracker_of_5_and_6 bs"
proof -
  let ?rnd = "\<lambda>s :: nat. (s, s + 1)"
  obtain tk0 where 0: "tracker_init True ?rnd no_net 0 = Inr tk0" "tracker_ok tk0" "members (tk_peerTable tk0) = {}"
    using init_ok [of ?rnd no_net 0] by blast
  have r0: "reaches ?rnd tk0" by (rule reaches.start [OF 0(1)])
  have five: "(0 :: int) < 5" "5 \<notin> members (tk_peerTable tk0)" using 0(3) by simp_all
  obtain tk1 where 1: "new_client_in 5 tk0 = Inr tk1" "tracker_ok tk1" "members (tk_peerTable tk1) = {5}"
    using joins_ok [OF 0(2) five] unfolding 0(3) by blast
  have r1: "reaches ?rnd tk1" by (rule reaches.event [OF r0, of "Joins 5"]) (use 0(3) 1(1) in simp_all)
  have six: "(0 :: int) < 6" "6 \<notin> members (tk_peerTable tk1)" using 1(3) by simp_all
  obtain tk2 where 2: "new_client_in 6 tk1 = Inr tk2" "tracker_ok tk2" "members (tk_peerTable tk2) = {6, 5}"
    using joins_ok [OF 1(2) six] unfolding 1(3) by blast
  have r2: "reaches ?rnd tk2" by (rule reaches.event [OF r1, of "Joins 6"]) (use six 2(1) in simp_all)
  have "entries (fs_root (tk_fs tk0)) = {}" using 0(1) by (auto simp: tracker_init_def filesystem_new_def outcome_simps)
  then have "entries (fs_root (tk_fs tk2)) = {}"
    using 1(1) 2(1) by (auto simp: new_client_in_def outcome_simps split: prod.splits)
  then show ?thesis using reaches.network [OF r2 good_5_and_6] 2(3) by (intro exI [of _ "tk2\<lparr>tk_network := tracker_of_5_and_6 bs\<rparr>"]) auto
qed


end
